(* ===== verification/BW_Prelude.thy ===== *)
theory BW_Prelude
  imports "HOL-Library.Word"
begin

text \<open>
  Shared vocabulary of the development: the machine integers of the Rust source, the
  outcome of a fallible Rust call, the standard-library operations on integers and
  byte arrays that the components use, and the lemma collections the component proofs
  draw on.

  Integer arithmetic follows the release profile (\<^verbatim>\<open>cargo build --release\<close>, no
  \<^verbatim>\<open>overflow-checks\<close> override in the workspace): \<open>+\<close>, \<open>-\<close> and \<open>*\<close> on
  \<open>u8 .. u64\<close> wrap.  Lengths and capacities (\<open>usize\<close>) of collections held in memory
  are natural numbers.
\<close>

unbundle bit_operations_syntax

section \<open>Types\<close>

type_synonym u8 = "8 word"
type_synonym u16 = "16 word"
type_synonym u32 = "32 word"
type_synonym u64 = "64 word"
type_synonym i32 = "32 word"

type_synonym bytes = "u8 list"

text \<open>
  A Rust call that returns a \<open>Result\<close> either yields a value, yields an error, or
  unwinds.  The third constructor is the panic.
\<close>

datatype ('a, 'e) outcome = Ok 'a | Err 'e | Panic

section \<open>Lemma collections\<close>

named_theorems wf_intros \<open>well-formedness facts of the model's values\<close>
named_theorems inv_intros \<open>preservation of component invariants\<close>
named_theorems outcome_simps \<open>rewriting of outcome pipelines\<close>

section \<open>Outcomes\<close>

fun obind :: "('a, 'e) outcome \<Rightarrow> ('a \<Rightarrow> ('b, 'e) outcome) \<Rightarrow> ('b, 'e) outcome" where
  "obind (Ok x) f = f x"
| "obind (Err e) f = Err e"
| "obind Panic f = Panic"

text \<open>\<open>Result::map_err\<close>, \<open>Option::ok_or\<close> and \<open>Result::ok\<close>.\<close>

fun map_err :: "('e \<Rightarrow> 'f) \<Rightarrow> ('a, 'e) outcome \<Rightarrow> ('a, 'f) outcome" where
  "map_err g (Ok x) = Ok x"
| "map_err g (Err e) = Err (g e)"
| "map_err g Panic = Panic"

fun ok_or :: "'a option \<Rightarrow> 'e \<Rightarrow> ('a, 'e) outcome" where
  "ok_or (Some x) e = Ok x"
| "ok_or None e = Err e"

fun is_ok :: "('a, 'e) outcome \<Rightarrow> bool" where
  "is_ok (Ok _) = True"
| "is_ok _ = False"

lemma obind_Ok_iff [outcome_simps]: "obind m f = Ok y \<longleftrightarrow> (\<exists>x. m = Ok x \<and> f x = Ok y)"
  by (cases m) auto

lemma obind_Err_iff [outcome_simps]:
  "obind m f = Err e \<longleftrightarrow> m = Err e \<or> (\<exists>x. m = Ok x \<and> f x = Err e)"
  by (cases m) auto

lemma obind_Panic_iff [outcome_simps]:
  "obind m f = Panic \<longleftrightarrow> m = Panic \<or> (\<exists>x. m = Ok x \<and> f x = Panic)"
  by (cases m) auto

lemma map_err_iff [outcome_simps]:
  "map_err g m = Ok x \<longleftrightarrow> m = Ok x"
  "map_err g m = Err e' \<longleftrightarrow> (\<exists>e. m = Err e \<and> e' = g e)"
  "map_err g m = Panic \<longleftrightarrow> m = Panic"
  by (cases m; auto)+

lemma ok_or_iff [outcome_simps]:
  "ok_or m e = Ok x \<longleftrightarrow> m = Some x"
  "ok_or m e = Err e' \<longleftrightarrow> m = None \<and> e' = e"
  "ok_or m e \<noteq> Panic"
  by (cases m; auto)+

lemma is_ok_iff [outcome_simps]: "is_ok m \<longleftrightarrow> (\<exists>x. m = Ok x)"
  by (cases m) auto

section \<open>Integers\<close>

text \<open>\<open>saturating_sub\<close>, \<open>abs_diff\<close> and \<open>checked_mul\<close> of the standard library.\<close>

definition saturating_sub :: "'a::len word \<Rightarrow> 'a word \<Rightarrow> 'a word" where
  "saturating_sub a b = (if a < b then 0 else a - b)"

definition abs_diff :: "'a::len word \<Rightarrow> 'a word \<Rightarrow> 'a word" where
  "abs_diff a b = (if a < b then b - a else a - b)"

definition checked_mul_usize :: "nat \<Rightarrow> nat \<Rightarrow> nat option" where
  "checked_mul_usize a b = (if a * b < 2 ^ 64 then Some (a * b) else None)"

lemma unat_saturating_sub: "unat (saturating_sub a b) = unat a - unat b"
  by (simp add: saturating_sub_def word_less_nat_alt unat_sub word_le_nat_alt)

lemma saturating_sub_less_iff: "c < saturating_sub a b \<longleftrightarrow> unat c + unat b < unat a"
  by (auto simp: word_less_nat_alt unat_saturating_sub)

lemma saturating_sub_le_iff: "saturating_sub a b \<le> c \<longleftrightarrow> unat a \<le> unat c + unat b"
  by (auto simp: word_le_nat_alt unat_saturating_sub)

lemma unat_abs_diff: "unat (abs_diff a b) = (if unat a < unat b then unat b - unat a else unat a - unat b)"
  by (simp add: abs_diff_def word_less_nat_alt unat_sub word_le_nat_alt)

lemma word_leD_diff: "(a :: 'a::len word) \<le> b \<Longrightarrow> unat (b - a) = unat b - unat a"
  by (simp add: unat_sub)

lemma unat_add_no_overflow:
  "unat (a :: 'a::len word) + unat b < 2 ^ LENGTH('a) \<Longrightarrow> unat (a + b) = unat a + unat b"
  by (simp add: unat_add_lem [THEN iffD1])

lemma unat_Suc_no_overflow:
  "unat (a :: 'a::len word) + 1 < 2 ^ LENGTH('a) \<Longrightarrow> unat (a + 1) = unat a + 1"
  using unat_add_no_overflow [of a 1] by (cases "LENGTH('a) = 1") auto

section \<open>Byte arrays\<close>

text \<open>
  \<open>to_le_bytes\<close>, \<open>to_be_bytes\<close> and their inverses; the first argument is the size of the
  integer type in bytes.
\<close>

definition to_le_bytes :: "nat \<Rightarrow> 'a::len word \<Rightarrow> bytes" where
  "to_le_bytes n w = map (\<lambda>i. ucast (drop_bit (8 * i) w)) [0..<n]"

fun from_le_bytes :: "bytes \<Rightarrow> 'a::len word" where
  "from_le_bytes [] = 0"
| "from_le_bytes (b # bs) = ucast b OR push_bit 8 (from_le_bytes bs)"

definition to_be_bytes :: "nat \<Rightarrow> 'a::len word \<Rightarrow> bytes" where
  "to_be_bytes n w = rev (to_le_bytes n w)"

definition from_be_bytes :: "bytes \<Rightarrow> 'a::len word" where
  "from_be_bytes bs = from_le_bytes (rev bs)"

lemma length_to_bytes [simp]:
  "length (to_le_bytes n w) = n" "length (to_be_bytes n w) = n"
  by (simp_all add: to_le_bytes_def to_be_bytes_def)

lemma bit_from_le_bytes:
  "bit (from_le_bytes bs :: 'a::len word) i \<longleftrightarrow>
     i < LENGTH('a) \<and> i div 8 < length bs \<and> bit (bs ! (i div 8)) (i mod 8)"
proof (induction bs arbitrary: i)
  case Nil
  then show ?case by simp
next
  case (Cons b bs)
  show ?case
  proof (cases "i < 8")
    case True
    then show ?thesis by (auto simp: bit_simps)
  next
    case False
    then have "i div 8 = Suc ((i - 8) div 8)" "i mod 8 = (i - 8) mod 8"
      by (simp_all add: le_div_geq le_mod_geq)
    moreover have "\<not> bit b i"
      using False bit_imp_le_length [of b i] by auto
    ultimately show ?thesis using False Cons.IH [of "i - 8"]
      by (auto simp: bit_simps)
  qed
qed

lemma bit_to_le_bytes:
  "k < n \<Longrightarrow> bit (to_le_bytes n w ! k) j \<longleftrightarrow> j < 8 \<and> bit w (8 * k + j)"
  by (auto simp: to_le_bytes_def bit_simps)

lemma from_to_le_bytes:
  assumes "LENGTH('a) = 8 * n"
  shows "from_le_bytes (to_le_bytes n (w :: 'a::len word)) = w"
proof (rule bit_word_eqI)
  fix i assume "i < LENGTH('a)"
  then have "i div 8 < n" using assms by auto
  with \<open>i < LENGTH('a)\<close> show "bit (from_le_bytes (to_le_bytes n w) :: 'a word) i = bit w i"
    by (simp add: bit_from_le_bytes bit_to_le_bytes)
qed

lemma to_from_le_bytes:
  assumes "length bs = n" "8 * n \<le> LENGTH('a)"
  shows "to_le_bytes n (from_le_bytes bs :: 'a::len word) = bs"
proof (rule nth_equalityI)
  show "length (to_le_bytes n (from_le_bytes bs :: 'a word)) = length bs"
    using assms by simp
  fix k assume "k < length (to_le_bytes n (from_le_bytes bs :: 'a word))"
  then have k: "k < n" by simp
  show "to_le_bytes n (from_le_bytes bs :: 'a word) ! k = bs ! k"
  proof (rule bit_word_eqI)
    fix j assume j: "j < LENGTH(8)"
    with k assms have "8 * k + j < LENGTH('a)" by simp
    with j k assms show "bit (to_le_bytes n (from_le_bytes bs :: 'a word) ! k) j = bit (bs ! k) j"
      by (simp add: bit_to_le_bytes bit_from_le_bytes)
  qed
qed

lemma from_to_be_bytes:
  "LENGTH('a) = 8 * n \<Longrightarrow> from_be_bytes (to_be_bytes n (w :: 'a::len word)) = w"
  by (simp add: from_be_bytes_def to_be_bytes_def from_to_le_bytes)

lemma to_from_be_bytes:
  "length bs = n \<Longrightarrow> 8 * n \<le> LENGTH('a) \<Longrightarrow> to_be_bytes n (from_be_bytes bs :: 'a::len word) = bs"
  using to_from_le_bytes [of "rev bs" n, where 'a = 'a]
  by (simp add: from_be_bytes_def to_be_bytes_def)

lemma to_be_bytes_inject:
  "LENGTH('a) = 8 * n \<Longrightarrow> to_be_bytes n (v :: 'a::len word) = to_be_bytes n w \<longleftrightarrow> v = w"
  by (metis from_to_be_bytes)

text \<open>A slice \<open>xs[i..j]\<close> that the caller has bounds-checked.\<close>

definition slice_of :: "nat \<Rightarrow> nat \<Rightarrow> 'a list \<Rightarrow> 'a list" where
  "slice_of i j xs = take (j - i) (drop i xs)"

lemma length_slice_of [simp]: "i \<le> j \<Longrightarrow> j \<le> length xs \<Longrightarrow> length (slice_of i j xs) = j - i"
  by (simp add: slice_of_def)

lemma slice_of_append:
  assumes "i \<le> j" "j \<le> k"
  shows "slice_of i j xs @ slice_of j k xs = slice_of i k xs"
proof -
  from assms have "take (k - i) (drop i xs) = take ((j - i) + (k - j)) (drop i xs)" by simp
  also have "\<dots> = take (j - i) (drop i xs) @ take (k - j) (drop (j - i) (drop i xs))"
    by (rule take_add)
  finally show ?thesis using assms by (simp add: slice_of_def)
qed

lemma slice_of_append2:
  "i \<le> j \<Longrightarrow> j \<le> k \<Longrightarrow> slice_of i j xs @ slice_of j k xs @ ys = slice_of i k xs @ ys"
  by (metis append_assoc slice_of_append)

lemma slice_of_full: "n = length xs \<Longrightarrow> slice_of 0 n xs = xs"
  by (simp add: slice_of_def)

lemma unat_bound: "unat (w :: 'a::len word) < 2 ^ LENGTH('a)"
  by (rule unsigned_less)

lemma Max_insert_absorb:
  assumes "finite S" "a \<le> (b :: nat)"
  shows "Max (insert b (insert a S)) = Max (insert b S)"
proof (rule Max_eqI)
  fix y assume "y \<in> insert b (insert a S)"
  then show "y \<le> Max (insert b S)"
    using assms by (auto intro: order_trans Max_ge)
next
  show "Max (insert b S) \<in> insert b (insert a S)"
    using Max_in [of "insert b S"] assms by blast
qed (simp add: assms)

text \<open>The single-bit operations of the 64-bit window masks.\<close>

lemma bit_mask_test: "n < 64 \<Longrightarrow> (m :: u64) AND 2 ^ n = 0 \<longleftrightarrow> \<not> bit m n"
  by (simp add: and_exp_eq_0_iff_not_bit)

lemma bit_mask_set: "k < 64 \<Longrightarrow> bit ((m :: u64) OR 2 ^ n) k \<longleftrightarrow> bit m k \<or> k = n"
  by (auto simp: bit_simps)

lemma bit_mask_shift:
  "k < 64 \<Longrightarrow> bit (push_bit n (m :: u64) OR 1) k \<longleftrightarrow> k = 0 \<or> (n \<le> k \<and> bit m (k - n))"
  by (auto simp: bit_simps)

section \<open>Runs of a stateful operation\<close>

text \<open>The results of a sequence of calls and the state after them.\<close>

fun run_all :: "('s \<Rightarrow> 'i \<Rightarrow> 'o \<times> 's) \<Rightarrow> 's \<Rightarrow> 'i list \<Rightarrow> 'o list \<times> 's" where
  "run_all f s [] = ([], s)"
| "run_all f s (i # is) =
     (let (r, s') = f s i; (rs, s'') = run_all f s' is in (r # rs, s''))"

lemma run_all_Cons: "run_all f s (i # is) =
    (fst (f s i) # fst (run_all f (snd (f s i)) is), snd (run_all f (snd (f s i)) is))"
  by (simp add: case_prod_beta Let_def)

lemma length_run_all [simp]: "length (fst (run_all f s is)) = length is"
  by (induction "is" arbitrary: s) (simp_all add: run_all_Cons del: run_all.simps(2))

text \<open>The values of the successful results.\<close>

fun oks :: "('a, 'e) outcome list \<Rightarrow> 'a list" where
  "oks [] = []"
| "oks (Ok x # rs) = x # oks rs"
| "oks (Err e # rs) = oks rs"
| "oks (Panic # rs) = oks rs"

lemma oks_map_Ok [simp]: "oks (map Ok xs) = xs"
  by (induction xs) simp_all

lemma set_oks: "x \<in> set (oks rs) \<longleftrightarrow> Ok x \<in> set rs"
  by (induction rs rule: oks.induct) auto

section \<open>Text\<close>

text \<open>ASCII bytes of a string literal, and the decimal rendering of a number by \<open>format!\<close>.\<close>

definition ascii :: "string \<Rightarrow> bytes" where
  "ascii s = map of_char s"

fun dec_digits :: "nat \<Rightarrow> bytes" where
  "dec_digits n = (if n < 10 then [48 + of_nat n] else dec_digits (n div 10) @ [48 + of_nat (n mod 10)])"

declare dec_digits.simps [simp del]

section \<open>Integer casts\<close>

lemma unat_ucast_mod: "unat (ucast (x :: 'a::len word) :: 'b::len word) = unat x mod 2 ^ LENGTH('b)"
  by (simp add: unsigned_ucast_eq take_bit_eq_mod)

lemma unat_ucast_u32_u64 [simp]: "unat (ucast (x :: u32) :: u64) = unat x"
  using unat_bound [of x] by (simp add: unat_ucast_mod)

lemma unat_ucast_u16_u64 [simp]: "unat (ucast (x :: u16) :: u64) = unat x"
  using unat_bound [of x] by (simp add: unat_ucast_mod)

lemma unat_ucast_u16_u32 [simp]: "unat (ucast (x :: u16) :: u32) = unat x"
  using unat_bound [of x] by (simp add: unat_ucast_mod)

section \<open>Serialization\<close>

text \<open>
  The CBOR crate \<^verbatim>\<open>ciborium\<close> is a parameter: \<open>into_writer\<close> yields bytes or fails,
  \<open>from_reader\<close> yields a value or fails.
\<close>

record 'a cbor =
  into_writer :: "'a \<Rightarrow> bytes option"
  from_reader :: "bytes \<Rightarrow> 'a option"

definition cbor_contract :: "'a cbor \<Rightarrow> bool" where
  "cbor_contract cb \<longleftrightarrow> (\<forall>x bs. into_writer cb x = Some bs \<longrightarrow> from_reader cb bs = Some x)"

end
