(* ===== verification/BW_Codec.thy ===== *)
theory BW_Codec
  imports BW_Prelude
begin

text \<open>
  The packet header and the frame codec of \<^verbatim>\<open>bw-protocol\<close>: \<^verbatim>\<open>error.rs\<close>,
  \<^verbatim>\<open>version.rs\<close>, \<^verbatim>\<open>header.rs\<close>, \<^verbatim>\<open>frame.rs\<close> and \<^verbatim>\<open>codec.rs\<close>.

  The header is a \<open>repr(C, align(8))\<close> structure read and written in place through the
  \<^verbatim>\<open>bytemuck\<close> crate.  That crate is a parameter (record \<open>bytemuck\<close>) with its documented
  behaviour as the hypothesis \<open>bytemuck_contract\<close>; the layout of the structure itself
  is fixed by the language on the little-endian targets the program supports.
\<close>

section \<open>Errors\<close>

datatype protocol_error =
    BufferTooSmall
  | InvalidMagic
  | InvalidVersion u16
  | InvalidPayloadLength
  | IncompatibleCapabilities
  | InvalidHandshake
  | SerializationError
  | DeserializationError
  | SessionDuplicate
  | SessionNotFound
  | InvalidRoute
  | InvalidDestination
  | WindowFull
  | EncryptionError
  | ReplayDetected
  | OversizedPayload nat nat

section \<open>Protocol version\<close>

record protocol_version =
  major :: u8
  minor :: u8

definition CURRENT_VERSION :: protocol_version where
  "CURRENT_VERSION = \<lparr>major = 1, minor = 0\<rparr>"

definition is_compatible_with :: "protocol_version \<Rightarrow> protocol_version \<Rightarrow> bool" where
  "is_compatible_with v w \<longleftrightarrow> major v = major w"

definition u16_of_version :: "protocol_version \<Rightarrow> u16" where
  "u16_of_version v = push_bit 8 (ucast (major v)) OR ucast (minor v)"

definition version_of_u16 :: "u16 \<Rightarrow> protocol_version" where
  "version_of_u16 x = \<lparr>major = ucast (drop_bit 8 x), minor = ucast (x AND 0xFF)\<rparr>"

lemma and_low_byte: "(x :: u16) AND 0xFF = take_bit 8 x"
  by (simp add: take_bit_eq_mask mask_eq_exp_minus_1)

lemma version_of_u16_of_version [simp]: "version_of_u16 (u16_of_version v) = v"
proof -
  have "ucast (drop_bit 8 (u16_of_version v)) = major v"
    by (rule bit_word_eqI) (auto simp: u16_of_version_def bit_simps dest: bit_imp_le_length)
  moreover have "ucast (u16_of_version v AND 0xFF) = minor v"
    by (rule bit_word_eqI) (auto simp: u16_of_version_def and_low_byte bit_simps)
  ultimately show ?thesis by (simp add: version_of_u16_def)
qed

lemma u16_of_version_of_u16 [simp]: "u16_of_version (version_of_u16 x) = x"
  by (rule bit_word_eqI)
    (auto simp: u16_of_version_def version_of_u16_def and_low_byte bit_simps)

section \<open>Packet header\<close>

definition PROTOCOL_MAGIC :: bytes where
  "PROTOCOL_MAGIC = [0x42, 0x57, 0x50, 0x47]"

record packet_header =
  magic :: bytes
  schema_version :: u16
  flags :: u16
  packet_type :: u16
  payload_length :: u16
  sequence_number :: u32
  session_epoch :: u64
  monotonic_timestamp :: u64

definition HEADER_SIZE :: nat where
  "HEADER_SIZE = 32"

text \<open>\<open>Default::default()\<close> of the derived implementation: every field zero.\<close>

definition default_header :: packet_header where
  "default_header = \<lparr>magic = [0, 0, 0, 0], schema_version = 0, flags = 0, packet_type = 0,
     payload_length = 0, sequence_number = 0, session_epoch = 0, monotonic_timestamp = 0\<rparr>"

text \<open>The \<open>magic\<close> field has the array type \<open>[u8; 4]\<close>.\<close>

definition wf_header :: "packet_header \<Rightarrow> bool" where
  "wf_header h \<longleftrightarrow> length (magic h) = 4"

text \<open>
  The memory image of a header: the fields in declaration order, without padding
  (4 + 2 + 2 + 2 + 2 + 4 + 8 + 8 = 32 bytes), integers little-endian.
\<close>

definition header_image :: "packet_header \<Rightarrow> bytes" where
  "header_image h = magic h @ to_le_bytes 2 (schema_version h) @ to_le_bytes 2 (flags h) @
     to_le_bytes 2 (packet_type h) @ to_le_bytes 2 (payload_length h) @
     to_le_bytes 4 (sequence_number h) @ to_le_bytes 8 (session_epoch h) @
     to_le_bytes 8 (monotonic_timestamp h)"

definition header_of_image :: "bytes \<Rightarrow> packet_header" where
  "header_of_image bs = \<lparr>magic = slice_of 0 4 bs, schema_version = from_le_bytes (slice_of 4 6 bs),
     flags = from_le_bytes (slice_of 6 8 bs), packet_type = from_le_bytes (slice_of 8 10 bs),
     payload_length = from_le_bytes (slice_of 10 12 bs),
     sequence_number = from_le_bytes (slice_of 12 16 bs),
     session_epoch = from_le_bytes (slice_of 16 24 bs),
     monotonic_timestamp = from_le_bytes (slice_of 24 32 bs)\<rparr>"

text \<open>
  The two \<^verbatim>\<open>bytemuck\<close> calls.  \<open>from_bytes\<close> casts a slice, given by its address and its
  bytes, and panics (\<open>None\<close>) when the length is not the size of the type or the address
  violates its alignment.
\<close>

record bytemuck =
  bm_from_bytes :: "nat \<Rightarrow> bytes \<Rightarrow> packet_header option"
  bm_bytes_of :: "packet_header \<Rightarrow> bytes"

definition bytemuck_contract :: "bytemuck \<Rightarrow> bool" where
  "bytemuck_contract bm \<longleftrightarrow>
     (\<forall>a bs. bm_from_bytes bm a bs =
        (if length bs = HEADER_SIZE \<and> a mod 8 = 0 then Some (header_of_image bs) else None)) \<and>
     (\<forall>h. bm_bytes_of bm h = header_image h)"

definition header_validate :: "packet_header \<Rightarrow> (unit, protocol_error) outcome" where
  "header_validate h =
     (if magic h \<noteq> PROTOCOL_MAGIC then Err InvalidMagic
      else if \<not> is_compatible_with (version_of_u16 (schema_version h)) CURRENT_VERSION
           then Err (InvalidVersion (schema_version h))
      else Ok ())"

definition try_from_bytes :: "bytemuck \<Rightarrow> nat \<Rightarrow> bytes \<Rightarrow> (packet_header, protocol_error) outcome" where
  "try_from_bytes bm a bs =
     (if length bs < HEADER_SIZE then Err BufferTooSmall
      else case bm_from_bytes bm a (slice_of 0 HEADER_SIZE bs) of
             None \<Rightarrow> Panic
           | Some h \<Rightarrow> obind (header_validate h) (\<lambda>_. Ok h))"

definition as_bytes :: "bytemuck \<Rightarrow> packet_header \<Rightarrow> bytes" where
  "as_bytes bm h = bm_bytes_of bm h"

section \<open>Frames and their codec\<close>

record protocol_frame =
  pf_header :: packet_header
  pf_payload :: bytes

type_synonym owned_protocol_frame = protocol_frame

text \<open>\<open>OwnedProtocolFrame::borrow\<close>: the same header and payload, borrowed.\<close>

definition borrow :: "owned_protocol_frame \<Rightarrow> protocol_frame" where
  "borrow f = \<lparr>pf_header = pf_header f, pf_payload = pf_payload f\<rparr>"

definition encode_frame :: "bytemuck \<Rightarrow> protocol_frame \<Rightarrow> bytes" where
  "encode_frame bm f = as_bytes bm (pf_header f) @ pf_payload f"

definition decode_frame :: "bytemuck \<Rightarrow> nat \<Rightarrow> bytes \<Rightarrow> (protocol_frame, protocol_error) outcome" where
  "decode_frame bm a bs =
     (if length bs < HEADER_SIZE then Err BufferTooSmall
      else obind (try_from_bytes bm a bs) (\<lambda>h.
        let expected_len = HEADER_SIZE + unat (payload_length h)
        in if length bs < expected_len then Err BufferTooSmall
           else if length bs > expected_len then Err InvalidPayloadLength
           else Ok \<lparr>pf_header = h, pf_payload = slice_of HEADER_SIZE expected_len bs\<rparr>))"

text \<open>
  What a decodable frame is: the header passes validation and its length field is the
  length of the payload.
\<close>

definition frame_ok :: "protocol_frame \<Rightarrow> bool" where
  "frame_ok f \<longleftrightarrow> wf_header (pf_header f) \<and> header_validate (pf_header f) = Ok () \<and>
     unat (payload_length (pf_header f)) = length (pf_payload f)"

section \<open>Lemmas\<close>

lemma borrow_id [simp]: "borrow f = f"
  by (simp add: borrow_def)

lemma length_header_image [simp]: "wf_header h \<Longrightarrow> length (header_image h) = HEADER_SIZE"
  by (simp add: header_image_def wf_header_def HEADER_SIZE_def)

lemma header_of_image_image: "wf_header h \<Longrightarrow> header_of_image (header_image h) = h"
  by (simp add: header_of_image_def header_image_def wf_header_def slice_of_def from_to_le_bytes)

lemma take_drop_slices:
  "length bs = 32 \<Longrightarrow>
     slice_of 0 4 bs @ slice_of 4 6 bs @ slice_of 6 8 bs @ slice_of 8 10 bs @ slice_of 10 12 bs @
     slice_of 12 16 bs @ slice_of 16 24 bs @ slice_of 24 32 bs = bs"
  by (simp add: slice_of_append slice_of_append2 slice_of_full)

lemma header_image_of_image:
  assumes "length bs = HEADER_SIZE"
  shows "header_image (header_of_image bs) = bs"
proof -
  from assms have "length bs = 32" by (simp add: HEADER_SIZE_def)
  then show ?thesis
    using take_drop_slices [of bs]
    by (simp add: header_image_def header_of_image_def to_from_le_bytes)
qed

lemma wf_header_of_image [wf_intros]: "length bs = HEADER_SIZE \<Longrightarrow> wf_header (header_of_image bs)"
  by (simp add: wf_header_def header_of_image_def HEADER_SIZE_def)

lemma wf_default_header [wf_intros, simp]: "wf_header default_header"
  by (simp add: wf_header_def default_header_def)

lemma length_as_bytes [simp]:
  "bytemuck_contract bm \<Longrightarrow> wf_header h \<Longrightarrow> length (as_bytes bm h) = HEADER_SIZE"
  by (simp add: as_bytes_def bytemuck_contract_def)

lemma try_from_bytes_eq:
  assumes "bytemuck_contract bm" "HEADER_SIZE \<le> length bs" "a mod 8 = 0"
  shows "try_from_bytes bm a bs =
    obind (header_validate (header_of_image (take HEADER_SIZE bs)))
      (\<lambda>_. Ok (header_of_image (take HEADER_SIZE bs)))"
  using assms by (simp add: try_from_bytes_def bytemuck_contract_def slice_of_def)

lemma try_from_bytes_encoded:
  assumes "bytemuck_contract bm" "wf_header h" "header_validate h = Ok ()" "a mod 8 = 0"
  shows "try_from_bytes bm a (as_bytes bm h @ p) = Ok h"
  using assms by (simp add: try_from_bytes_eq)
    (simp add: as_bytes_def bytemuck_contract_def header_of_image_image)

lemma decode_encode:
  assumes "bytemuck_contract bm" "frame_ok f" "a mod 8 = 0"
  shows "decode_frame bm a (encode_frame bm f) = Ok f"
  using assms unfolding frame_ok_def
  by (auto simp: decode_frame_def encode_frame_def try_from_bytes_encoded slice_of_def Let_def)

lemma decode_frame_OkD:
  assumes "bytemuck_contract bm" "decode_frame bm a bs = Ok f"
  shows "frame_ok f \<and> a mod 8 = 0 \<and> bs = encode_frame bm f"
proof -
  let ?h = "header_of_image (take HEADER_SIZE bs)"
  from assms(2) have len: "HEADER_SIZE \<le> length bs"
    by (auto simp: decode_frame_def split: if_splits)
  with assms have al: "a mod 8 = 0"
    by (auto simp: decode_frame_def try_from_bytes_def bytemuck_contract_def slice_of_def
        outcome_simps split: if_splits option.splits)
  have im: "header_image ?h = take HEADER_SIZE bs"
    using len by (simp add: header_image_of_image)
  from assms len al have ok: "header_validate ?h = Ok ()"
    and f: "pf_header f = ?h" "pf_payload f = drop HEADER_SIZE bs"
    and pl: "length bs = HEADER_SIZE + unat (payload_length ?h)"
    by (auto simp: decode_frame_def try_from_bytes_eq outcome_simps Let_def slice_of_def
        split: if_splits)
  have "wf_header ?h" using len by (auto intro: wf_intros)
  moreover have "bs = encode_frame bm f"
    using f im assms(1) by (simp add: encode_frame_def as_bytes_def bytemuck_contract_def)
  ultimately show ?thesis using ok f pl al by (simp add: frame_ok_def)
qed

lemma frame_ok_payload_bound: "frame_ok f \<Longrightarrow> length (pf_payload f) < 2 ^ 16"
  using unat_bound [of "payload_length (pf_header f)"] by (simp add: frame_ok_def)

lemma length_encode_frame:
  "bytemuck_contract bm \<Longrightarrow> wf_header (pf_header f) \<Longrightarrow>
   length (encode_frame bm f) = HEADER_SIZE + length (pf_payload f)"
  by (simp add: encode_frame_def)

lemma decode_frame_eq_Ok:
  assumes "bytemuck_contract bm" "a mod 8 = 0"
  shows "decode_frame bm a bs = Ok f \<longleftrightarrow> frame_ok f \<and> bs = encode_frame bm f"
  using assms by (auto simp: decode_encode dest: decode_frame_OkD)

section \<open>The cast of the supported targets\<close>

text \<open>
  The instance of the \<^verbatim>\<open>bytemuck\<close> parameter that its documentation describes, used to show
  that the contract can be met.
\<close>

definition bytemuck_le :: bytemuck where
  "bytemuck_le = \<lparr>bm_from_bytes = (\<lambda>a bs.
       if length bs = HEADER_SIZE \<and> a mod 8 = 0 then Some (header_of_image bs) else None),
     bm_bytes_of = header_image\<rparr>"

lemma bytemuck_contract_le [simp]: "bytemuck_contract bytemuck_le"
  by (simp add: bytemuck_contract_def bytemuck_le_def)

definition demo_header :: packet_header where
  "demo_header = default_header\<lparr>magic := PROTOCOL_MAGIC, schema_version := u16_of_version CURRENT_VERSION,
     packet_type := 2, payload_length := 3\<rparr>"

definition demo_frame :: protocol_frame where
  "demo_frame = \<lparr>pf_header = demo_header, pf_payload = [7, 8, 9]\<rparr>"

lemma demo_frame_ok [simp]: "frame_ok demo_frame"
  by (simp add: frame_ok_def demo_frame_def demo_header_def wf_header_def PROTOCOL_MAGIC_def
      header_validate_def is_compatible_with_def)

section \<open>Properties\<close>

text \<open>C33: the frame codec is a bijection between well-formed frames and the byte strings the
  decoder accepts.  On an 8-byte aligned buffer, \<open>decode_frame\<close> returns a frame exactly when
  the buffer is the encoding of that frame, the frame's header carries the protocol magic
  and a compatible version, and its length field is the payload length.\<close>

theorem decode_frame_iff:
  assumes "bytemuck_contract bm" "a mod 8 = 0"
  shows "decode_frame bm a bs = Ok f \<longleftrightarrow> frame_ok f \<and> bs = encode_frame bm f"
  using assms by (rule decode_frame_eq_Ok)

theorem decode_frame_iff_witness:
  "bytemuck_contract bytemuck_le \<and> (64 :: nat) mod 8 = 0 \<and> frame_ok demo_frame \<and>
   decode_frame bytemuck_le 64 (encode_frame bytemuck_le demo_frame) = Ok demo_frame"
  using decode_frame_iff [of bytemuck_le 64 "encode_frame bytemuck_le demo_frame" demo_frame] by simp

text \<open>decoding unwinds exactly on a misaligned buffer that is long enough to hold a header;
  shorter buffers are rejected with \<open>BufferTooSmall\<close> whatever their address.\<close>

theorem decode_frame_panic_iff:
  assumes "bytemuck_contract bm"
  shows "(decode_frame bm a bs = Panic \<longleftrightarrow> HEADER_SIZE \<le> length bs \<and> a mod 8 \<noteq> 0) \<and>
    (length bs < HEADER_SIZE \<longrightarrow> decode_frame bm a bs = Err BufferTooSmall)"
  using assms
  by (auto simp: decode_frame_def try_from_bytes_def bytemuck_contract_def slice_of_def
      header_validate_def outcome_simps Let_def split: if_splits)

theorem decode_frame_panic_iff_witness:
  "decode_frame bytemuck_le 3 (encode_frame bytemuck_le demo_frame) = Panic \<and>
   decode_frame bytemuck_le 3 [1, 2] = Err BufferTooSmall"
  using decode_frame_panic_iff [of bytemuck_le 3 "encode_frame bytemuck_le demo_frame"]
    decode_frame_panic_iff [of bytemuck_le 3 "[1, 2]"]
    length_encode_frame [of bytemuck_le demo_frame] demo_frame_ok
  by (simp add: HEADER_SIZE_def frame_ok_def)

end
