(* ===== verification/BW_Crypto.thy ===== *)
theory BW_Crypto
  imports BW_Prelude
begin

text \<open>
  The symmetric primitives of \<^verbatim>\<open>bw-crypto\<close> (\<^verbatim>\<open>symmetric.rs\<close>, \<^verbatim>\<open>error.rs\<close>).  The
  ChaCha20-Poly1305 and HKDF-SHA256 crates are the parameter \<open>crypto_lib\<close>; what the program
  relies on is stated by \<open>aead_contract\<close> and \<open>hkdf_contract\<close>.
\<close>

datatype crypto_error =
    EntropyUnavailable
  | InvalidKey
  | VerificationFailed
  | Backend
  | Unsupported
  | InvalidState
  | ResourceExhausted

type_synonym symmetric_key = bytes

text \<open>
  \<open>cl_encrypt k n m aad\<close> and \<open>cl_decrypt k n c aad\<close> are \<open>Aead::encrypt\<close> and
  \<open>Aead::decrypt\<close> (ciphertext followed by the 16-byte tag);
  \<open>cl_hkdf salt ikm info len\<close> is \<open>Hkdf::new(salt, ikm)\<close> followed by \<open>expand\<close> into \<open>len\<close> bytes.
\<close>

record crypto_lib =
  cl_encrypt :: "bytes \<Rightarrow> bytes \<Rightarrow> bytes \<Rightarrow> bytes \<Rightarrow> bytes option"
  cl_decrypt :: "bytes \<Rightarrow> bytes \<Rightarrow> bytes \<Rightarrow> bytes \<Rightarrow> bytes option"
  cl_hkdf :: "bytes option \<Rightarrow> bytes \<Rightarrow> bytes \<Rightarrow> nat \<Rightarrow> bytes option"

definition aead_contract :: "crypto_lib \<Rightarrow> bool" where
  "aead_contract C \<longleftrightarrow>
     (\<forall>k n m aad c. cl_encrypt C k n m aad = Some c \<longrightarrow>
        length c = length m + 16 \<and> cl_decrypt C k n c aad = Some m) \<and>
     (\<forall>k n m aad. length k = 32 \<longrightarrow> length n = 12 \<longrightarrow> length m < 2 ^ 32 \<longrightarrow> cl_encrypt C k n m aad \<noteq> None)"

definition hkdf_contract :: "crypto_lib \<Rightarrow> bool" where
  "hkdf_contract C \<longleftrightarrow>
     (\<forall>salt ikm info n. n \<le> 255 * 32 \<longrightarrow> (\<exists>okm. cl_hkdf C salt ikm info n = Some okm \<and> length okm = n))"

definition hkdf_derive ::
  "crypto_lib \<Rightarrow> bytes option \<Rightarrow> bytes \<Rightarrow> bytes option \<Rightarrow> (symmetric_key, crypto_error) outcome" where
  "hkdf_derive C salt ikm info =
     (case cl_hkdf C salt ikm (case info of None \<Rightarrow> [] | Some i \<Rightarrow> i) 32 of
        None \<Rightarrow> Err InvalidKey
      | Some okm \<Rightarrow> Ok okm)"

definition encrypt_aead ::
  "crypto_lib \<Rightarrow> symmetric_key \<Rightarrow> bytes \<Rightarrow> bytes \<Rightarrow> bytes \<Rightarrow> (bytes \<times> bytes, crypto_error) outcome" where
  "encrypt_aead C key nonce plaintext aad =
     (case cl_encrypt C key nonce plaintext aad of
        None \<Rightarrow> Err VerificationFailed
      | Some ct \<Rightarrow>
          if length ct < 16 then Err VerificationFailed
          else let tag_start = length ct - 16 in Ok (take tag_start ct, drop tag_start ct))"

definition decrypt_aead ::
  "crypto_lib \<Rightarrow> symmetric_key \<Rightarrow> bytes \<Rightarrow> bytes \<Rightarrow> bytes \<Rightarrow> bytes \<Rightarrow> (bytes, crypto_error) outcome" where
  "decrypt_aead C key nonce ciphertext tag aad =
     (case cl_decrypt C key nonce (ciphertext @ tag) aad of
        None \<Rightarrow> Err VerificationFailed
      | Some plaintext \<Rightarrow> Ok plaintext)"

section \<open>Lemmas\<close>

lemma hkdf_derive_ok:
  "hkdf_contract C \<Longrightarrow> \<exists>k. hkdf_derive C salt ikm info = Ok k \<and> length k = 32"
  unfolding hkdf_derive_def hkdf_contract_def
  by (erule allE [where x = salt], erule allE [where x = ikm],
      erule allE [where x = "case info of None \<Rightarrow> [] | Some i \<Rightarrow> i"], erule allE [where x = 32]) auto

lemma encrypt_aead_ok:
  assumes "aead_contract C" "length k = 32" "length n = 12" "length m < 2 ^ 32"
  shows "\<exists>ct tag. encrypt_aead C k n m aad = Ok (ct, tag) \<and> length ct = length m \<and> length tag = 16"
proof -
  from assms obtain c where "cl_encrypt C k n m aad = Some c" "length c = length m + 16"
    unfolding aead_contract_def by blast
  then show ?thesis by (simp add: encrypt_aead_def Let_def)
qed

lemma encrypt_aead_OkD:
  assumes "aead_contract C" "encrypt_aead C k n m aad = Ok (ct, tag)"
  shows "length ct = length m \<and> length tag = 16 \<and> decrypt_aead C k n ct tag aad = Ok m"
  using assms by (fastforce simp: encrypt_aead_def decrypt_aead_def aead_contract_def Let_def
      split: option.splits if_splits)

lemma crypto_no_panic [simp]:
  "hkdf_derive C salt ikm info \<noteq> Panic" "encrypt_aead C k n m aad \<noteq> Panic"
  "decrypt_aead C k n ct tag aad \<noteq> Panic"
  by (simp_all add: hkdf_derive_def encrypt_aead_def decrypt_aead_def Let_def split: option.splits)

section \<open>A library that meets the contracts\<close>

text \<open>
  A deterministic stand-in for the two crates, used where a statement with a contract as its
  hypothesis is applied to a concrete input: the ciphertext is the plaintext, the tag repeats
  the first byte of the key and the last byte of the nonce.
\<close>

definition demo_tag :: "bytes \<Rightarrow> bytes \<Rightarrow> bytes" where
  "demo_tag k n = replicate 8 (if k = [] then 0 else hd k) @ replicate 8 (if n = [] then 0 else last n)"

definition demo_crypto :: crypto_lib where
  "demo_crypto = \<lparr>
     cl_encrypt = (\<lambda>k n m aad. Some (m @ demo_tag k n)),
     cl_decrypt = (\<lambda>k n c aad.
        if length c < 16 then None
        else if drop (length c - 16) c = demo_tag k n then Some (take (length c - 16) c) else None),
     cl_hkdf = (\<lambda>salt ikm info n. if n \<le> 255 * 32
        then Some (replicate n ((if ikm = [] then 0 else hd ikm) + (if info = [] then 1 else last info)))
        else None)\<rparr>"

lemma length_demo_tag [simp]: "length (demo_tag k n) = 16"
  by (simp add: demo_tag_def)

lemma demo_crypto_contracts [simp]: "aead_contract demo_crypto" "hkdf_contract demo_crypto"
  by (simp_all add: aead_contract_def hkdf_contract_def demo_crypto_def)

end
