(* ===== verification/BW_Window.thy ===== *)
theory BW_Window
  imports BW_Prelude
begin

text \<open>
  The contract shared by the two sliding-window filters of \<^verbatim>\<open>bw-protocol\<close>:
  \<open>ReplayProtection\<close> (\<^verbatim>\<open>encryption.rs\<close>) and \<open>DuplicateFilter\<close> (\<^verbatim>\<open>reliability.rs\<close>).
  A filter keeps the highest number it accepted and which of the 64 numbers at and below
  it were accepted.  The locale states what one call does to that view; the lemmas relate
  any sequence of calls to the abstract specification, a set of accepted numbers.
\<close>

fun accepted_of :: "('s \<Rightarrow> 'i \<Rightarrow> bool) \<Rightarrow> ('s \<Rightarrow> 'i \<Rightarrow> 's) \<Rightarrow> 's \<Rightarrow> 'i list \<Rightarrow> 'i list" where
  "accepted_of acc step s [] = []"
| "accepted_of acc step s (i # is) =
     (if acc s i then i # accepted_of acc step (step s i) is else accepted_of acc step (step s i) is)"

lemma accepted_of_append:
  "accepted_of acc step s (xs @ ys) = accepted_of acc step s xs @ accepted_of acc step (foldl step s xs) ys"
  by (induction xs arbitrary: s) simp_all

lemma set_accepted_of: "set (accepted_of acc step s is) \<subseteq> set is"
  by (induction "is" arbitrary: s) (simp_all add: insert_mono subset_insertI2)

locale window_filter =
  fixes init :: 's
    and accepts :: "'s \<Rightarrow> 'i \<Rightarrow> bool"
    and track :: "'s \<Rightarrow> 'i \<Rightarrow> 's"
    and num :: "'i \<Rightarrow> nat"
    and top :: "'s \<Rightarrow> nat"
    and marked :: "'s \<Rightarrow> nat \<Rightarrow> bool"
  assumes top_init: "top init = 0"
    and marked_init: "\<not> marked init k"
    and accepts_iff: "accepts s i \<longleftrightarrow>
          top s < num i \<or> (top s - num i < 64 \<and> \<not> marked s (top s - num i))"
    and track_rejected: "\<not> accepts s i \<Longrightarrow> track s i = s"
    and track_old_top: "accepts s i \<Longrightarrow> num i \<le> top s \<Longrightarrow> top (track s i) = top s"
    and track_old_marked: "accepts s i \<Longrightarrow> num i \<le> top s \<Longrightarrow> k < 64 \<Longrightarrow>
          marked (track s i) k \<longleftrightarrow> marked s k \<or> k = top s - num i"
    and track_new_top: "top s < num i \<Longrightarrow> top (track s i) = num i"
    and track_new_marked: "top s < num i \<Longrightarrow> k < 64 \<Longrightarrow>
          marked (track s i) k \<longleftrightarrow> k = 0 \<or> (num i - top s \<le> k \<and> marked s (k - (num i - top s)))"
begin

text \<open>The abstraction relation: \<open>A\<close> is the set of all numbers accepted so far.\<close>

definition tracks :: "'s \<Rightarrow> nat set \<Rightarrow> bool" where
  "tracks s A \<longleftrightarrow> (\<forall>a\<in>A. a \<le> top s) \<and> (\<forall>k<64. k \<le> top s \<longrightarrow> (marked s k \<longleftrightarrow> top s - k \<in> A))"

abbreviation accepted :: "'s \<Rightarrow> 'i list \<Rightarrow> 'i list" where
  "accepted \<equiv> accepted_of accepts track"

abbreviation track_all :: "'s \<Rightarrow> 'i list \<Rightarrow> 's" where
  "track_all \<equiv> foldl track"

lemma tracks_init: "tracks init {}"
  by (simp add: tracks_def marked_init)

lemma tracks_accepts:
  assumes "tracks s A"
  shows "accepts s i \<longleftrightarrow> top s < num i \<or> (top s - num i < 64 \<and> num i \<notin> A)"
proof (cases "top s < num i")
  case True
  then show ?thesis by (simp add: accepts_iff)
next
  case False
  moreover from False have "top s - (top s - num i) = num i" "top s - num i \<le> top s" by simp_all
  ultimately show ?thesis using assms by (auto simp: accepts_iff tracks_def)
qed

lemma tracks_accepts_fresh: "tracks s A \<Longrightarrow> accepts s i \<Longrightarrow> num i \<notin> A"
  using tracks_accepts [of s A i] by (force simp: tracks_def)

lemma tracks_new:
  assumes t: "tracks s A" and new: "top s < num i"
  shows "tracks (track s i) (insert (num i) A)"
  unfolding tracks_def
proof (intro conjI ballI allI impI)
  fix a assume "a \<in> insert (num i) A"
  then show "a \<le> top (track s i)"
    using t new by (auto simp: tracks_def track_new_top intro: less_imp_le le_less_trans)
next
  fix k :: nat assume k: "k < 64" "k \<le> top (track s i)"
  then have kn: "k \<le> num i" using new by (simp add: track_new_top)
  let ?d = "num i - top s"
  have "marked (track s i) k \<longleftrightarrow> k = 0 \<or> (?d \<le> k \<and> marked s (k - ?d))"
    using new k(1) by (rule track_new_marked)
  also have "\<dots> \<longleftrightarrow> num i - k \<in> insert (num i) A"
  proof (cases "?d \<le> k")
    case True
    then have "k - ?d < 64" "k - ?d \<le> top s" "top s - (k - ?d) = num i - k"
      using k kn new by auto
    then have "marked s (k - ?d) \<longleftrightarrow> num i - k \<in> A" using t unfolding tracks_def by metis
    then show ?thesis using True new kn by auto
  next
    case False
    then have "top s < num i - k" using new by simp
    then have "num i - k \<notin> A" using t by (auto simp: tracks_def)
    then show ?thesis using False kn new by auto
  qed
  finally show "marked (track s i) k \<longleftrightarrow> top (track s i) - k \<in> insert (num i) A"
    using new by (simp add: track_new_top)
qed

lemma tracks_old:
  assumes t: "tracks s A" and acc: "accepts s i" and old: "num i \<le> top s"
  shows "tracks (track s i) (insert (num i) A)"
  unfolding tracks_def
proof (intro conjI ballI allI impI)
  fix a assume "a \<in> insert (num i) A"
  then show "a \<le> top (track s i)" using t acc old by (auto simp: tracks_def track_old_top)
next
  fix k :: nat assume k: "k < 64" "k \<le> top (track s i)"
  then have "k \<le> top s" using acc old by (simp add: track_old_top)
  moreover from this have "k = top s - num i \<longleftrightarrow> top s - k = num i" using old by auto
  ultimately show "marked (track s i) k \<longleftrightarrow> top (track s i) - k \<in> insert (num i) A"
    using t k acc old by (auto simp: tracks_def track_old_top track_old_marked)
qed

lemma tracks_track: "tracks s A \<Longrightarrow> tracks (track s i) (if accepts s i then insert (num i) A else A)"
  using tracks_new [of s A i] tracks_old [of s A i]
  by (cases "num i \<le> top s") (auto simp: track_rejected)

lemma tracks_track_all:
  "tracks s A \<Longrightarrow> tracks (track_all s is) (A \<union> num ` set (accepted s is))"
proof (induction "is" arbitrary: s A)
  case Nil
  then show ?case by simp
next
  case (Cons i "is")
  then have "tracks (track s i) (if accepts s i then insert (num i) A else A)"
    by (intro tracks_track)
  from Cons.IH [OF this] show ?case by (simp split: if_splits)
qed

lemma accepted_fresh: "tracks s A \<Longrightarrow> i \<in> set (accepted s is) \<Longrightarrow> num i \<notin> A"
proof (induction "is" arbitrary: s A)
  case Nil
  then show ?case by simp
next
  case (Cons j js)
  have head: "num j \<notin> A" if "accepts s j"
    using that tracks_accepts [OF Cons.prems(1), of j] Cons.prems(1) by (force simp: tracks_def)
  from tracks_track [OF Cons.prems(1), of j]
  have "num i \<notin> (if accepts s j then insert (num j) A else A)" if "i \<in> set (accepted (track s j) js)"
    using that by (rule Cons.IH)
  then show ?case using Cons.prems(2) head by (auto split: if_splits)
qed

text \<open>No number is accepted twice, whatever arrives.\<close>

lemma accepted_distinct: "tracks s A \<Longrightarrow> distinct (map num (accepted s is))"
proof (induction "is" arbitrary: s A)
  case Nil
  then show ?case by simp
next
  case (Cons j js)
  note t = tracks_track [OF Cons.prems, of j]
  then have "distinct (map num (accepted (track s j) js))" by (rule Cons.IH)
  moreover have "num j \<notin> num ` set (accepted (track s j) js)" if "accepts s j"
    using accepted_fresh [OF t, of _ js] that by force
  ultimately show ?case by simp
qed

text \<open>The filter state after any history implements the set specification.\<close>

lemma accepts_after:
  "accepts (track_all init is) i \<longleftrightarrow>
     top (track_all init is) < num i \<or>
     (top (track_all init is) - num i < 64 \<and> num i \<notin> num ` set (accepted init is))"
  using tracks_accepts [OF tracks_track_all [OF tracks_init]] by simp

lemma top_track_all_ge: "top s \<le> top (track_all s is)"
proof (induction "is" arbitrary: s)
  case Nil
  then show ?case by simp
next
  case (Cons i "is")
  have "top s \<le> top (track s i)"
    by (cases "accepts s i"; cases "num i \<le> top s")
      (auto simp: track_rejected track_old_top track_new_top)
  then show ?case using Cons.IH [of "track s i"] by simp
qed

lemma top_track_all:
  "top (track_all s is) = Max (insert (top s) (num ` set (accepted s is)))"
proof (induction "is" arbitrary: s)
  case Nil
  then show ?case by simp
next
  case (Cons i "is")
  consider "\<not> accepts s i" | "accepts s i" "num i \<le> top s" | "accepts s i" "top s < num i"
    by linarith
  then show ?case
  proof cases
    case 1
    then show ?thesis using Cons.IH [of s] by (simp add: track_rejected)
  next
      case 2
    then show ?thesis using Cons.IH [of "track s i"]
      by (simp add: track_old_top Max_insert_absorb del: Max_insert)
  next
    case 3
    then show ?thesis using Cons.IH [of "track s i"]
      by (simp add: track_new_top Max_insert_absorb insert_commute [of "top s"] less_imp_le del: Max_insert)
  qed
qed

text \<open>A number that arrives less than 64 behind everything before it is accepted, then or earlier.\<close>

lemma accepted_complete:
  assumes "\<forall>j \<in> set xs. num j < num i + 64"
  shows "num i \<in> num ` set (accepted init (xs @ i # ys))"
proof (cases "num i \<in> num ` set (accepted init xs)")
  case True
  then show ?thesis by (auto simp: accepted_of_append)
next
  case False
  have "num ` set (accepted init xs) \<subseteq> {..<num i + 64}"
    using assms set_accepted_of [of accepts track init xs] by auto
  then have "top (track_all init xs) < num i + 64"
    by (subst top_track_all) (auto simp: top_init)
  with False have "accepts (track_all init xs) i"
    using accepts_after [of xs i] by auto
  then show ?thesis by (simp add: accepted_of_append)
qed

lemma num_le_top_track: "num i \<le> top (track s i)"
  using track_rejected [of s i] track_old_top [of s i] track_new_top [of s i] accepts_iff [of s i]
  by (cases "num i \<le> top s") (cases "accepts s i"; auto)+

lemma num_le_top: "i \<in> set xs \<Longrightarrow> num i \<le> top (track_all s xs)"
proof (induction xs arbitrary: s)
  case (Cons x xs)
  then show ?case
    using num_le_top_track [of x s] top_track_all_ge [of "track s x" xs] by auto
qed simp

lemma accepted_from_top:
  assumes "tracks s A" "num i \<notin> A" "num i + 64 \<le> top s"
  shows "num i \<notin> num ` set (accepted s ys)"
  using assms
proof (induction ys arbitrary: s A)
  case (Cons y ys)
  have "num y \<noteq> num i" if "accepts s y"
    using that Cons.prems accepts_iff [of s y] by auto
  moreover have "num i + 64 \<le> top (track s y)"
    using Cons.prems(3) top_track_all_ge [of s "[y]"] by simp
  ultimately show ?case
    using Cons.IH [OF tracks_track [OF Cons.prems(1), of y]] Cons.prems(2) by (auto split: if_splits)
qed simp

text \<open>A number missed until one 64 or more ahead has arrived is never accepted again.\<close>

lemma accepted_never:
  assumes "num i \<notin> num ` set xs" "m \<in> set xs" "num i + 64 \<le> num m"
  shows "num i \<notin> num ` set (accepted init (xs @ ys))"
proof -
  have a: "num i \<notin> num ` set (accepted init xs)"
    using assms(1) set_accepted_of [of accepts track init xs] by auto
  moreover have "num i \<notin> num ` set (accepted (track_all init xs) ys)"
    using accepted_from_top [OF tracks_track_all [OF tracks_init], of i xs ys] a
      num_le_top [OF assms(2), of init] assms(3) by simp
  ultimately show ?thesis by (auto simp: accepted_of_append)
qed

end

end
