(* ===== verification/BW_Encryption.thy ===== *)
theory BW_Encryption
  imports BW_Codec BW_Crypto BW_Window
begin

text \<open>
  The frame encryption pipeline of \<^verbatim>\<open>bw-protocol\<close> (\<^verbatim>\<open>encryption.rs\<close>): nonces, replay
  protection, the frame encryptor and decryptor with their key rotation, and the context
  that combines them.  Every operation that takes \<open>&mut self\<close> returns its result together
  with the state it leaves behind, on the error branches too.  The address at which the
  allocator places a decrypted plaintext is the argument \<open>a\<close> of the decrypting operations.
\<close>

section \<open>Nonces\<close>

datatype nonce = Nonce (nonce_bytes: bytes)

definition nonce_new :: "u32 \<Rightarrow> u64 \<Rightarrow> nonce" where
  "nonce_new epoch counter = Nonce (to_be_bytes 4 epoch @ to_be_bytes 8 counter)"

definition nonce_epoch :: "nonce \<Rightarrow> u32" where
  "nonce_epoch n = from_be_bytes (slice_of 0 4 (nonce_bytes n))"

definition nonce_counter :: "nonce \<Rightarrow> u64" where
  "nonce_counter n = from_be_bytes (slice_of 4 12 (nonce_bytes n))"

lemma nonce_epoch_new [simp]: "nonce_epoch (nonce_new e c) = e"
  by (simp add: nonce_epoch_def nonce_new_def slice_of_def from_to_be_bytes)

lemma nonce_counter_new [simp]: "nonce_counter (nonce_new e c) = c"
  by (simp add: nonce_counter_def nonce_new_def slice_of_def from_to_be_bytes)

lemma length_nonce_new [simp]: "length (nonce_bytes (nonce_new e c)) = 12"
  by (simp add: nonce_new_def)

lemma nonce_new_inject [simp]: "nonce_new e c = nonce_new e' c' \<longleftrightarrow> e = e' \<and> c = c'"
  by (metis nonce_epoch_new nonce_counter_new)

section \<open>Encrypted frames\<close>

record encrypted_frame =
  ef_epoch :: u32
  ef_nonce :: nonce
  ef_ciphertext :: bytes
  ef_tag :: bytes

definition EF_MAX_DESER_SIZE :: nat where
  "EF_MAX_DESER_SIZE = 4 * 1024 * 1024"

definition ef_serialize :: "encrypted_frame cbor \<Rightarrow> encrypted_frame \<Rightarrow> (bytes, protocol_error) outcome" where
  "ef_serialize cb f = ok_or (into_writer cb f) SerializationError"

definition ef_deserialize :: "encrypted_frame cbor \<Rightarrow> bytes \<Rightarrow> (encrypted_frame, protocol_error) outcome" where
  "ef_deserialize cb bs =
     (if length bs > EF_MAX_DESER_SIZE then Err (OversizedPayload (length bs) EF_MAX_DESER_SIZE)
      else ok_or (from_reader cb bs) DeserializationError)"

record session_keys =
  sk_send_key :: symmetric_key
  sk_recv_key :: symmetric_key
  sk_epoch :: u32

section \<open>Replay protection\<close>

record replay_protection =
  max_counter :: u64
  received_mask :: u64

definition replay_new :: replay_protection where
  "replay_new = \<lparr>max_counter = 0, received_mask = 0\<rparr>"

definition protect_replay ::
  "replay_protection \<Rightarrow> nonce \<Rightarrow> (unit, protocol_error) outcome \<times> replay_protection" where
  "protect_replay r n =
     (let val = nonce_counter n in
      if val \<le> max_counter r then
        let diff = max_counter r - val in
        if diff \<ge> 64 then (Err ReplayDetected, r)
        else let b = push_bit (unat diff) 1 in
             if received_mask r AND b \<noteq> 0 then (Err ReplayDetected, r)
             else (Ok (), r\<lparr>received_mask := received_mask r OR b\<rparr>)
      else
        let diff = val - max_counter r;
            m = (if diff \<ge> 64 then 1 else push_bit (unat diff) (received_mask r) OR 1)
        in (Ok (), r\<lparr>received_mask := m, max_counter := val\<rparr>))"

definition replay_accepts :: "replay_protection \<Rightarrow> nonce \<Rightarrow> bool" where
  "replay_accepts r n \<longleftrightarrow> fst (protect_replay r n) = Ok ()"

definition replay_track :: "replay_protection \<Rightarrow> nonce \<Rightarrow> replay_protection" where
  "replay_track r n = snd (protect_replay r n)"

lemma protect_replay_accepts:
  "replay_accepts r n \<Longrightarrow> protect_replay r n = (Ok (), replay_track r n)"
  by (simp add: replay_accepts_def replay_track_def prod_eq_iff)

lemma protect_replay_results:
  "fst (protect_replay r n) = (if replay_accepts r n then Ok () else Err ReplayDetected)"
  by (simp add: replay_accepts_def protect_replay_def Let_def)

interpretation rp: window_filter replay_new replay_accepts replay_track
  "\<lambda>n. unat (nonce_counter n)" "\<lambda>r. unat (max_counter r)" "\<lambda>r k. bit (received_mask r) k"
proof
  fix r :: replay_protection and n and k :: nat
  let ?v = "nonce_counter n"
  show "unat (max_counter replay_new) = 0" "\<not> bit (received_mask replay_new) k"
    by (simp_all add: replay_new_def)
  have old: "unat (max_counter r - ?v) = unat (max_counter r) - unat ?v" if "?v \<le> max_counter r"
    using that by (rule word_leD_diff)
  have new: "unat (?v - max_counter r) = unat ?v - unat (max_counter r)" if "\<not> ?v \<le> max_counter r"
    using that by (intro word_leD_diff) simp
  show acc: "replay_accepts r n \<longleftrightarrow> unat (max_counter r) < unat ?v \<or>
      (unat (max_counter r) - unat ?v < 64 \<and>
       \<not> bit (received_mask r) (unat (max_counter r) - unat ?v))"
    using old by (auto simp: replay_accepts_def protect_replay_def Let_def word_le_nat_alt bit_mask_test)
  show "\<not> replay_accepts r n \<Longrightarrow> replay_track r n = r"
    by (auto simp: replay_accepts_def replay_track_def protect_replay_def Let_def split: if_splits)
  show "replay_accepts r n \<Longrightarrow> unat ?v \<le> unat (max_counter r) \<Longrightarrow>
      unat (max_counter (replay_track r n)) = unat (max_counter r)"
    by (auto simp: replay_accepts_def replay_track_def protect_replay_def Let_def word_le_nat_alt
        split: if_splits)
  show "replay_accepts r n \<Longrightarrow> unat ?v \<le> unat (max_counter r) \<Longrightarrow> k < 64 \<Longrightarrow>
      bit (received_mask (replay_track r n)) k \<longleftrightarrow>
      bit (received_mask r) k \<or> k = unat (max_counter r) - unat ?v"
    using old by (auto simp: replay_accepts_def replay_track_def protect_replay_def Let_def
        word_le_nat_alt bit_mask_set split: if_splits)
  show "unat (max_counter r) < unat ?v \<Longrightarrow> unat (max_counter (replay_track r n)) = unat ?v"
    by (auto simp: replay_track_def protect_replay_def Let_def word_le_nat_alt)
  assume lt: "unat (max_counter r) < unat ?v" and k: "k < 64"
  have nle: "\<not> ?v \<le> max_counter r" using lt by (simp add: word_le_nat_alt)
  show "bit (received_mask (replay_track r n)) k \<longleftrightarrow> k = 0 \<or>
      (unat ?v - unat (max_counter r) \<le> k \<and>
       bit (received_mask r) (k - (unat ?v - unat (max_counter r))))"
    using k nle new [OF nle]
    by (auto simp: replay_track_def protect_replay_def Let_def word_le_nat_alt bit_mask_shift bit_simps)
qed

section \<open>Encryptor\<close>

datatype key_rotation_policy = Manual | Counter u64

record frame_encryptor =
  fe_send_key :: symmetric_key
  fe_epoch :: u32
  fe_counter :: u64

definition encryptor_new :: "symmetric_key \<Rightarrow> u32 \<Rightarrow> frame_encryptor" where
  "encryptor_new k e = \<lparr>fe_send_key = k, fe_epoch = e, fe_counter = 0\<rparr>"

definition generate_nonce :: "frame_encryptor \<Rightarrow> nonce" where
  "generate_nonce s = nonce_new (fe_epoch s) (fe_counter s)"

definition fe_encrypt_frame ::
  "bytemuck \<Rightarrow> crypto_lib \<Rightarrow> frame_encryptor \<Rightarrow> owned_protocol_frame \<Rightarrow>
     (encrypted_frame, protocol_error) outcome \<times> frame_encryptor" where
  "fe_encrypt_frame bm C s frame =
     (let plaintext = encode_frame bm (borrow frame);
          nonce = generate_nonce s
      in case encrypt_aead C (fe_send_key s) (nonce_bytes nonce) plaintext [] of
           Err _ \<Rightarrow> (Err EncryptionError, s)
         | Panic \<Rightarrow> (Panic, s)
         | Ok (ciphertext, tag_bytes) \<Rightarrow>
             (Ok \<lparr>ef_epoch = fe_epoch s, ef_nonce = nonce, ef_ciphertext = ciphertext, ef_tag = tag_bytes\<rparr>,
              s\<lparr>fe_counter := fe_counter s + 1\<rparr>))"

definition epoch_info :: "u32 \<Rightarrow> bytes" where
  "epoch_info e = ascii ''epoch-'' @ dec_digits (unat e)"

definition fe_rotate_keys ::
  "crypto_lib \<Rightarrow> frame_encryptor \<Rightarrow> (unit, protocol_error) outcome \<times> frame_encryptor" where
  "fe_rotate_keys C s =
     (let s1 = s\<lparr>fe_epoch := fe_epoch s + 1\<rparr>
      in case hkdf_derive C None (fe_send_key s1) (Some (epoch_info (fe_epoch s1))) of
           Err _ \<Rightarrow> (Err EncryptionError, s1)
         | Panic \<Rightarrow> (Panic, s1)
         | Ok new_key \<Rightarrow> (Ok (), s1\<lparr>fe_send_key := new_key, fe_counter := 0\<rparr>))"

section \<open>Decryptor\<close>

record frame_decryptor =
  fd_recv_key :: symmetric_key
  fd_epoch :: u32
  fd_replay :: replay_protection

definition decryptor_new :: "symmetric_key \<Rightarrow> u32 \<Rightarrow> frame_decryptor" where
  "decryptor_new k e = \<lparr>fd_recv_key = k, fd_epoch = e, fd_replay = replay_new\<rparr>"

definition fd_decrypt_frame ::
  "bytemuck \<Rightarrow> crypto_lib \<Rightarrow> nat \<Rightarrow> frame_decryptor \<Rightarrow> encrypted_frame \<Rightarrow>
     (owned_protocol_frame, protocol_error) outcome \<times> frame_decryptor" where
  "fd_decrypt_frame bm C a d enc =
     (if ef_epoch enc = fd_epoch d then
        (case protect_replay (fd_replay d) (ef_nonce enc) of
           (Err e, r) \<Rightarrow> (Err e, d\<lparr>fd_replay := r\<rparr>)
         | (Panic, r) \<Rightarrow> (Panic, d\<lparr>fd_replay := r\<rparr>)
         | (Ok _, r) \<Rightarrow>
             let d1 = d\<lparr>fd_replay := r\<rparr> in
             (case decrypt_aead C (fd_recv_key d1) (nonce_bytes (ef_nonce enc))
                     (ef_ciphertext enc) (ef_tag enc) [] of
                Err _ \<Rightarrow> (Err EncryptionError, d1)
              | Panic \<Rightarrow> (Panic, d1)
              | Ok plaintext \<Rightarrow>
                  (obind (decode_frame bm a plaintext)
                     (\<lambda>f. Ok \<lparr>pf_header = pf_header f, pf_payload = pf_payload f\<rparr>), d1)))
      else if ef_epoch enc = fd_epoch d + 1 then
        (let candidate_epoch = fd_epoch d + 1
         in case hkdf_derive C None (fd_recv_key d) (Some (epoch_info candidate_epoch)) of
              Err _ \<Rightarrow> (Err EncryptionError, d)
            | Panic \<Rightarrow> (Panic, d)
            | Ok candidate_key \<Rightarrow>
                (case protect_replay replay_new (ef_nonce enc) of
                   (Err e, _) \<Rightarrow> (Err e, d)
                 | (Panic, _) \<Rightarrow> (Panic, d)
                 | (Ok _, candidate_replay) \<Rightarrow>
                     (case decrypt_aead C candidate_key (nonce_bytes (ef_nonce enc))
                             (ef_ciphertext enc) (ef_tag enc) [] of
                        Err _ \<Rightarrow> (Err EncryptionError, d)
                      | Panic \<Rightarrow> (Panic, d)
                      | Ok plaintext \<Rightarrow>
                          (obind (decode_frame bm a plaintext)
                             (\<lambda>f. Ok \<lparr>pf_header = pf_header f, pf_payload = pf_payload f\<rparr>),
                           d\<lparr>fd_epoch := candidate_epoch, fd_recv_key := candidate_key,
                             fd_replay := candidate_replay\<rparr>))))
      else (Err EncryptionError, d))"

definition verify_tag ::
  "crypto_lib \<Rightarrow> frame_decryptor \<Rightarrow> encrypted_frame \<Rightarrow> (unit, protocol_error) outcome" where
  "verify_tag C d enc =
     (if ef_epoch enc \<noteq> fd_epoch d then Err EncryptionError
      else obind (map_err (\<lambda>_. EncryptionError)
                    (decrypt_aead C (fd_recv_key d) (nonce_bytes (ef_nonce enc))
                       (ef_ciphertext enc) (ef_tag enc) []))
             (\<lambda>_. Ok ()))"

definition fd_rotate_keys ::
  "crypto_lib \<Rightarrow> frame_decryptor \<Rightarrow> (unit, protocol_error) outcome \<times> frame_decryptor" where
  "fd_rotate_keys C d =
     (let d1 = d\<lparr>fd_epoch := fd_epoch d + 1\<rparr>
      in case hkdf_derive C None (fd_recv_key d1) (Some (epoch_info (fd_epoch d1))) of
           Err _ \<Rightarrow> (Err EncryptionError, d1)
         | Panic \<Rightarrow> (Panic, d1)
         | Ok new_key \<Rightarrow> (Ok (), d1\<lparr>fd_recv_key := new_key, fd_replay := replay_new\<rparr>))"

definition fd_protect_replay ::
  "frame_decryptor \<Rightarrow> nonce \<Rightarrow> (unit, protocol_error) outcome \<times> frame_decryptor" where
  "fd_protect_replay d n = (case protect_replay (fd_replay d) n of (res, r) \<Rightarrow> (res, d\<lparr>fd_replay := r\<rparr>))"

section \<open>Context\<close>

record encryption_context =
  encryptor :: frame_encryptor
  decryptor :: frame_decryptor
  rotation_policy :: key_rotation_policy

definition context_new :: "session_keys \<Rightarrow> key_rotation_policy \<Rightarrow> encryption_context" where
  "context_new keys pol = \<lparr>encryptor = encryptor_new (sk_send_key keys) (sk_epoch keys),
     decryptor = decryptor_new (sk_recv_key keys) (sk_epoch keys), rotation_policy = pol\<rparr>"

definition rotate_keys ::
  "crypto_lib \<Rightarrow> encryption_context \<Rightarrow> (unit, protocol_error) outcome \<times> encryption_context" where
  "rotate_keys C ctx =
     (case fe_rotate_keys C (encryptor ctx) of
        (Err e, s) \<Rightarrow> (Err e, ctx\<lparr>encryptor := s\<rparr>)
      | (Panic, s) \<Rightarrow> (Panic, ctx\<lparr>encryptor := s\<rparr>)
      | (Ok _, s) \<Rightarrow>
          (case fd_rotate_keys C (decryptor ctx) of
             (Err e, d) \<Rightarrow> (Err e, ctx\<lparr>encryptor := s, decryptor := d\<rparr>)
           | (Panic, d) \<Rightarrow> (Panic, ctx\<lparr>encryptor := s, decryptor := d\<rparr>)
           | (Ok _, d) \<Rightarrow> (Ok (), ctx\<lparr>encryptor := s, decryptor := d\<rparr>)))"

definition rotation_due :: "encryption_context \<Rightarrow> bool" where
  "rotation_due ctx \<longleftrightarrow>
     (case rotation_policy ctx of Manual \<Rightarrow> False | Counter limit \<Rightarrow> fe_counter (encryptor ctx) \<ge> limit)"

definition encrypt_frame ::
  "bytemuck \<Rightarrow> crypto_lib \<Rightarrow> encryption_context \<Rightarrow> owned_protocol_frame \<Rightarrow>
     (encrypted_frame, protocol_error) outcome \<times> encryption_context" where
  "encrypt_frame bm C ctx frame =
     (case fe_encrypt_frame bm C (encryptor ctx) frame of
        (Err e, s) \<Rightarrow> (Err e, ctx\<lparr>encryptor := s\<rparr>)
      | (Panic, s) \<Rightarrow> (Panic, ctx\<lparr>encryptor := s\<rparr>)
      | (Ok encrypted, s) \<Rightarrow>
          let ctx1 = ctx\<lparr>encryptor := s\<rparr> in
          if rotation_due ctx1 then
            (case rotate_keys C ctx1 of
               (Err e, ctx2) \<Rightarrow> (Err e, ctx2)
             | (Panic, ctx2) \<Rightarrow> (Panic, ctx2)
             | (Ok _, ctx2) \<Rightarrow> (Ok encrypted, ctx2))
          else (Ok encrypted, ctx1))"

definition decrypt_frame ::
  "bytemuck \<Rightarrow> crypto_lib \<Rightarrow> nat \<Rightarrow> encryption_context \<Rightarrow> encrypted_frame \<Rightarrow>
     (owned_protocol_frame, protocol_error) outcome \<times> encryption_context" where
  "decrypt_frame bm C a ctx enc =
     (case fd_decrypt_frame bm C a (decryptor ctx) enc of (res, d) \<Rightarrow> (res, ctx\<lparr>decryptor := d\<rparr>))"

definition current_key_epoch :: "encryption_context \<Rightarrow> u32" where
  "current_key_epoch ctx = fe_epoch (encryptor ctx)"

section \<open>The replay window\<close>

lemma replay_new_accepts [simp]: "replay_accepts replay_new n"
  by (simp add: replay_accepts_def protect_replay_def replay_new_def Let_def)

lemma replay_in_order:
  assumes "r = replay_new \<or> max_counter r < nonce_counter n"
  shows "replay_accepts r n \<and> max_counter (replay_track r n) = nonce_counter n"
proof (cases "max_counter r < nonce_counter n")
  case True
  then have "\<not> nonce_counter n \<le> max_counter r" by simp
  then show ?thesis by (simp add: replay_accepts_def replay_track_def protect_replay_def Let_def)
next
  case False
  with assms have r: "r = replay_new" by simp
  with False have "nonce_counter n = 0" by (simp add: replay_new_def word_gt_0)
  then have "max_counter (replay_track replay_new n) = nonce_counter n"
    by (simp add: replay_track_def protect_replay_def replay_new_def Let_def)
  with r show ?thesis by simp
qed

lemma replay_far_behind:
  assumes "unat (nonce_counter n) + 64 \<le> unat (max_counter r)"
  shows "protect_replay r n = (Err ReplayDetected, r)"
proof -
  have "nonce_counter n \<le> max_counter r" using assms by (simp add: word_le_nat_alt)
  moreover from this have "unat (max_counter r - nonce_counter n) \<ge> 64"
    using assms by (simp add: word_leD_diff)
  ultimately show ?thesis by (simp add: protect_replay_def Let_def word_le_nat_alt)
qed

lemma replay_top_ge: "replay_accepts r n \<Longrightarrow> unat (nonce_counter n) \<le> unat (max_counter (replay_track r n))"
  using rp.track_old_top [of r n] rp.track_new_top [of r n] by (cases "unat (max_counter r) < unat (nonce_counter n)") auto

text \<open>C13: The 64-bit replay window refines the set of all counters it ever accepted: after
  any sequence of nonces the filter accepts a further nonce exactly when its counter is above
  the largest accepted one, or lies less than 64 below it and was not accepted before; and
  no counter is ever accepted twice.\<close>
theorem replay_window_exact:
  "let acc = accepted_of replay_accepts replay_track replay_new ns;
       A = (\<lambda>m. unat (nonce_counter m)) ` set acc;
       top = Max (insert 0 A)
   in (replay_accepts (foldl replay_track replay_new ns) n \<longleftrightarrow>
         top < unat (nonce_counter n) \<or> (top - unat (nonce_counter n) < 64 \<and> unat (nonce_counter n) \<notin> A))
      \<and> distinct (map (\<lambda>m. unat (nonce_counter m)) acc)"
  using rp.accepts_after [of ns n] rp.accepted_distinct [OF rp.tracks_init, of ns]
    rp.top_track_all [of replay_new ns]
  by (simp add: Let_def rp.top_init)

section \<open>One decryption\<close>

text \<open>The three ways a call of \<open>decrypt_frame\<close> can end: it stays in the epoch and tracks the nonce,
  it moves to the next epoch with the derived key, or it leaves the state alone and fails.\<close>

definition authentic :: "crypto_lib \<Rightarrow> symmetric_key \<Rightarrow> encrypted_frame \<Rightarrow> bool" where
  "authentic C k enc \<longleftrightarrow>
     is_ok (decrypt_aead C k (nonce_bytes (ef_nonce enc)) (ef_ciphertext enc) (ef_tag enc) [])"

lemma fd_decrypt_cases:
  obtains
    (same) "ef_epoch enc = fd_epoch d"
      "snd (fd_decrypt_frame bm C a d enc) = d\<lparr>fd_replay := replay_track (fd_replay d) (ef_nonce enc)\<rparr>"
      "is_ok (fst (fd_decrypt_frame bm C a d enc)) \<Longrightarrow>
         replay_accepts (fd_replay d) (ef_nonce enc) \<and> authentic C (fd_recv_key d) enc"
  | (next_epoch) k where "ef_epoch enc = fd_epoch d + 1"
      "hkdf_derive C None (fd_recv_key d) (Some (epoch_info (fd_epoch d + 1))) = Ok k"
      "authentic C k enc"
      "snd (fd_decrypt_frame bm C a d enc) = d\<lparr>fd_epoch := fd_epoch d + 1, fd_recv_key := k,
         fd_replay := replay_track replay_new (ef_nonce enc)\<rparr>"
  | (rejected) "ef_epoch enc \<noteq> fd_epoch d" "snd (fd_decrypt_frame bm C a d enc) = d"
      "\<not> is_ok (fst (fd_decrypt_frame bm C a d enc))"
proof (cases "ef_epoch enc = fd_epoch d")
  case True
  show ?thesis
  proof (rule same [OF True])
    show "snd (fd_decrypt_frame bm C a d enc) = d\<lparr>fd_replay := replay_track (fd_replay d) (ef_nonce enc)\<rparr>"
      using True by (auto simp: fd_decrypt_frame_def replay_track_def Let_def split: outcome.splits prod.splits)
    show "is_ok (fst (fd_decrypt_frame bm C a d enc)) \<Longrightarrow>
         replay_accepts (fd_replay d) (ef_nonce enc) \<and> authentic C (fd_recv_key d) enc"
      using True by (auto simp: fd_decrypt_frame_def replay_accepts_def authentic_def Let_def
          split: outcome.splits prod.splits)
  qed
next
  case ne: False
  have acc: "fst (protect_replay replay_new (ef_nonce enc)) = Ok ()"
    by (simp add: protect_replay_results)
  show ?thesis
  proof (cases "\<exists>k. ef_epoch enc = fd_epoch d + 1 \<and> authentic C k enc \<and>
      hkdf_derive C None (fd_recv_key d) (Some (epoch_info (fd_epoch d + 1))) = Ok k")
    case True
    then obtain k where k: "ef_epoch enc = fd_epoch d + 1" "authentic C k enc"
      "hkdf_derive C None (fd_recv_key d) (Some (epoch_info (fd_epoch d + 1))) = Ok k" by blast
    show ?thesis
      by (rule next_epoch [OF k(1,3,2)])
        (use k ne acc in \<open>auto simp: fd_decrypt_frame_def replay_track_def authentic_def Let_def
          split: outcome.splits prod.splits\<close>)
  next
    case False
    then show ?thesis
      by (intro rejected [OF ne])
        (use ne acc in \<open>auto simp: fd_decrypt_frame_def authentic_def Let_def
          split: outcome.splits prod.splits\<close>)
  qed
qed

section \<open>No frame is delivered twice\<close>

definition fd_delivers :: "bytemuck \<Rightarrow> crypto_lib \<Rightarrow> frame_decryptor \<Rightarrow> nat \<times> encrypted_frame \<Rightarrow> bool" where
  "fd_delivers bm C d i = is_ok (fst (fd_decrypt_frame bm C (fst i) d (snd i)))"

definition fd_after :: "bytemuck \<Rightarrow> crypto_lib \<Rightarrow> frame_decryptor \<Rightarrow> nat \<times> encrypted_frame \<Rightarrow> frame_decryptor" where
  "fd_after bm C d i = snd (fd_decrypt_frame bm C (fst i) d (snd i))"

definition frame_id :: "nat \<times> encrypted_frame \<Rightarrow> u32 \<times> nat" where
  "frame_id i = (ef_epoch (snd i), unat (nonce_counter (ef_nonce (snd i))))"

definition remembers :: "frame_decryptor \<Rightarrow> (u32 \<times> nat) set \<Rightarrow> bool" where
  "remembers d A \<longleftrightarrow> (\<forall>(e, c) \<in> A. unat e \<le> unat (fd_epoch d)) \<and>
     (\<exists>T. rp.tracks (fd_replay d) T \<and> {c. (fd_epoch d, c) \<in> A} \<subseteq> T)"

lemma remembers_new: "remembers (decryptor_new k e) {}"
  using rp.tracks_init by (auto simp: remembers_def decryptor_new_def)

lemma remembers_step:
  assumes R: "remembers d A" and ov: "unat (fd_epoch d) + 1 < 2 ^ 32"
  shows "unat (fd_epoch (fd_after bm C d i)) \<le> unat (fd_epoch d) + 1 \<and>
    (fd_delivers bm C d i \<longrightarrow> frame_id i \<notin> A) \<and>
    remembers (fd_after bm C d i) (if fd_delivers bm C d i then insert (frame_id i) A else A)"
proof -
  obtain a enc where i: "i = (a, enc)" by (cases i)
  let ?n = "ef_nonce enc"
  have suc: "unat (fd_epoch d + 1) = unat (fd_epoch d) + 1"
    using ov by (simp add: unat_Suc_no_overflow)
  from R obtain T where T: "rp.tracks (fd_replay d) T" "{c. (fd_epoch d, c) \<in> A} \<subseteq> T"
    and old: "\<forall>(e, c) \<in> A. unat e \<le> unat (fd_epoch d)" by (auto simp: remembers_def)
  show ?thesis
  proof (cases rule: fd_decrypt_cases [of enc d bm C a])
    case same
    obtain T' where T': "rp.tracks (replay_track (fd_replay d) ?n) T'" "T \<subseteq> T'"
      "replay_accepts (fd_replay d) ?n \<longrightarrow> unat (nonce_counter ?n) \<in> T'"
      using rp.tracks_track [OF T(1), of ?n] by (auto split: if_splits)
    moreover have "fd_delivers bm C d i \<Longrightarrow> frame_id i \<notin> A"
      using same T rp.tracks_accepts_fresh [OF T(1), of ?n]
      by (auto simp: fd_delivers_def frame_id_def i)
    moreover have "{c. (fd_epoch d, c) \<in> A} \<subseteq> T'" using T T' by blast
    ultimately show ?thesis using same old
      by (auto simp: remembers_def fd_after_def fd_delivers_def frame_id_def i)
  next
    case (next_epoch k)
    have "rp.tracks (replay_track replay_new ?n) {unat (nonce_counter ?n)}"
      using rp.tracks_track [OF rp.tracks_init, of ?n] by simp
    moreover have "\<And>c. (fd_epoch d + 1, c) \<notin> A" using old suc by fastforce
    ultimately show ?thesis using next_epoch old suc
      by (auto simp: remembers_def fd_after_def fd_delivers_def frame_id_def i)
  next
    case rejected
    then show ?thesis using R by (simp add: fd_after_def fd_delivers_def i)
  qed
qed

lemma delivered_fresh:
  "remembers d A \<Longrightarrow> unat (fd_epoch d) + length is < 2 ^ 32 \<Longrightarrow>
   distinct (map frame_id (accepted_of (fd_delivers bm C) (fd_after bm C) d is)) \<and>
   frame_id ` set (accepted_of (fd_delivers bm C) (fd_after bm C) d is) \<inter> A = {}"
proof (induction "is" arbitrary: d A)
  case Nil
  then show ?case by simp
next
  case (Cons i "is")
  let ?d = "fd_after bm C d i" and ?A = "if fd_delivers bm C d i then insert (frame_id i) A else A"
  from Cons.prems have st: "unat (fd_epoch ?d) \<le> unat (fd_epoch d) + 1"
    "fd_delivers bm C d i \<longrightarrow> frame_id i \<notin> A" "remembers ?d ?A"
    using remembers_step [of d A bm C i] by auto
  have "unat (fd_epoch ?d) + length is < 2 ^ 32" using st(1) Cons.prems(2) by simp
  from Cons.IH [OF st(3) this] st(2) show ?case by (auto split: if_splits)
qed

text \<open>C10: Whatever an attacker sends to a fresh decryptor, in any order and any number of times
  (up to the exhaustion of the 32-bit epoch), the frames it delivers have pairwise distinct
  epoch and counter: no frame is ever delivered twice, also across key rotations.\<close>
theorem decryptor_at_most_once:
  assumes "unat e + length is < 2 ^ 32"
  shows "distinct (map frame_id
           (accepted_of (fd_delivers bm C) (fd_after bm C) (decryptor_new k e) is))"
  using delivered_fresh [OF remembers_new, of k e "is" bm C] assms by (simp add: decryptor_new_def)

theorem decryptor_at_most_once_witness:
  "let i = (0, \<lparr>ef_epoch = 0, ef_nonce = nonce_new 0 0, ef_ciphertext = encode_frame bytemuck_le demo_frame,
              ef_tag = demo_tag [5] (nonce_bytes (nonce_new 0 0))\<rparr>)
   in fd_delivers bytemuck_le demo_crypto (decryptor_new [5] 0) i \<and>
      distinct (map frame_id (accepted_of (fd_delivers bytemuck_le demo_crypto) (fd_after bytemuck_le demo_crypto)
        (decryptor_new [5] 0) [i, i, i]))"
  unfolding Let_def
proof (intro conjI decryptor_at_most_once)
  show "fd_delivers bytemuck_le demo_crypto (decryptor_new [5] 0)
     (0, \<lparr>ef_epoch = 0, ef_nonce = nonce_new 0 0, ef_ciphertext = encode_frame bytemuck_le demo_frame,
        ef_tag = demo_tag [5] (nonce_bytes (nonce_new 0 0))\<rparr>)"
    using decode_encode [OF bytemuck_contract_le demo_frame_ok, of 0]
    by (simp add: fd_delivers_def fd_decrypt_frame_def decryptor_new_def protect_replay_accepts
        decrypt_aead_def demo_crypto_def)
qed simp

end
