(* ===== verification/BW_Channel.thy ===== *)
theory BW_Channel
  imports BW_Encryption
begin

text \<open>
  The properties of the encrypted channel between an \<open>EncryptionContext\<close> and the peer's
  decryptor (\<^verbatim>\<open>encryption.rs\<close>): every frame sent arrives in order across automatic key
  rotations, no nonce is used twice, the rotation schedule, and what forged frames can do.
\<close>

section \<open>One encryption\<close>

lemma fe_encrypt_ok:
  assumes "bytemuck_contract bm" "aead_contract C" "frame_ok f" "length (fe_send_key s) = 32"
  shows "\<exists>ct tag. fe_encrypt_frame bm C s f =
      (Ok \<lparr>ef_epoch = fe_epoch s, ef_nonce = generate_nonce s, ef_ciphertext = ct, ef_tag = tag\<rparr>,
       s\<lparr>fe_counter := fe_counter s + 1\<rparr>) \<and>
    decrypt_aead C (fe_send_key s) (nonce_bytes (generate_nonce s)) ct tag [] = Ok (encode_frame bm f)"
proof -
  let ?n = "nonce_bytes (generate_nonce s)"
  have "length (encode_frame bm f) < 2 ^ 32"
    using assms(1,3) frame_ok_payload_bound [OF assms(3)]
    by (simp add: length_encode_frame frame_ok_def HEADER_SIZE_def)
  moreover have "length ?n = 12" by (simp add: generate_nonce_def)
  ultimately obtain ct tag where "encrypt_aead C (fe_send_key s) ?n (encode_frame bm f) [] = Ok (ct, tag)"
    using encrypt_aead_ok assms by blast
  then show ?thesis
    using encrypt_aead_OkD [OF assms(2)] by (fastforce simp: fe_encrypt_frame_def Let_def)
qed

lemma fe_rotate_ok:
  assumes "hkdf_contract C"
  shows "\<exists>k. hkdf_derive C None (fe_send_key s) (Some (epoch_info (fe_epoch s + 1))) = Ok k \<and> length k = 32 \<and>
    fe_rotate_keys C s = (Ok (), \<lparr>fe_send_key = k, fe_epoch = fe_epoch s + 1, fe_counter = 0\<rparr>)"
proof -
  obtain k where "hkdf_derive C None (fe_send_key s) (Some (epoch_info (fe_epoch s + 1))) = Ok k" "length k = 32"
    using hkdf_derive_ok [OF assms] by blast
  then show ?thesis by (simp add: fe_rotate_keys_def Let_def)
qed

lemma fd_rotate_ok: "hkdf_contract C \<Longrightarrow> \<exists>d'. fd_rotate_keys C d = (Ok (), d') \<and> fd_epoch d' = fd_epoch d + 1"
  using hkdf_derive_ok [of C None "fd_recv_key d" "Some (epoch_info (fd_epoch d + 1))"]
  by (auto simp: fd_rotate_keys_def Let_def)

lemma rotate_keys_ok:
  assumes "hkdf_contract C"
  shows "\<exists>ctx'. rotate_keys C ctx = (Ok (), ctx') \<and> encryptor ctx' = snd (fe_rotate_keys C (encryptor ctx)) \<and>
    fd_epoch (decryptor ctx') = fd_epoch (decryptor ctx) + 1 \<and> rotation_policy ctx' = rotation_policy ctx"
  using fe_rotate_ok [OF assms, of "encryptor ctx"] fd_rotate_ok [OF assms, of "decryptor ctx"]
  by (auto simp: rotate_keys_def)

lemma encrypt_frame_ok:
  assumes "bytemuck_contract bm" "aead_contract C" "hkdf_contract C" "frame_ok f"
    "length (fe_send_key (encryptor ctx)) = 32"
  obtains ct tag ctx' where
    "encrypt_frame bm C ctx f = (Ok \<lparr>ef_epoch = fe_epoch (encryptor ctx), ef_nonce = generate_nonce (encryptor ctx),
       ef_ciphertext = ct, ef_tag = tag\<rparr>, ctx')"
    "decrypt_aead C (fe_send_key (encryptor ctx)) (nonce_bytes (generate_nonce (encryptor ctx))) ct tag [] =
       Ok (encode_frame bm f)"
    "rotation_policy ctx' = rotation_policy ctx"
    "encryptor ctx' = (let s = encryptor ctx; s1 = s\<lparr>fe_counter := fe_counter s + 1\<rparr>
       in if rotation_due (ctx\<lparr>encryptor := s1\<rparr>) then snd (fe_rotate_keys C s1) else s1)"
    "fd_epoch (decryptor ctx') = (let s = encryptor ctx; s1 = s\<lparr>fe_counter := fe_counter s + 1\<rparr>
       in if rotation_due (ctx\<lparr>encryptor := s1\<rparr>) then fd_epoch (decryptor ctx) + 1 else fd_epoch (decryptor ctx))"
proof -
  let ?s = "encryptor ctx"
  let ?s1 = "?s\<lparr>fe_counter := fe_counter ?s + 1\<rparr>"
  let ?c1 = "ctx\<lparr>encryptor := ?s1\<rparr>"
  obtain ct tag where e: "fe_encrypt_frame bm C ?s f =
      (Ok \<lparr>ef_epoch = fe_epoch ?s, ef_nonce = generate_nonce ?s, ef_ciphertext = ct, ef_tag = tag\<rparr>, ?s1)"
    "decrypt_aead C (fe_send_key ?s) (nonce_bytes (generate_nonce ?s)) ct tag [] = Ok (encode_frame bm f)"
    using fe_encrypt_ok [OF assms(1,2,4,5)] by blast
  obtain ctx2 where r: "rotate_keys C ?c1 = (Ok (), ctx2)" "encryptor ctx2 = snd (fe_rotate_keys C ?s1)"
    "fd_epoch (decryptor ctx2) = fd_epoch (decryptor ctx) + 1" "rotation_policy ctx2 = rotation_policy ctx"
    using rotate_keys_ok [OF assms(3), of ?c1] by auto
  show thesis
    by (rule that [of ct tag "if rotation_due ?c1 then ctx2 else ?c1"])
      (use e r in \<open>simp_all add: encrypt_frame_def Let_def\<close>)
qed

section \<open>In-order delivery across rotations\<close>

text \<open>
  The peer's decryptor follows the encryptor: in the same epoch it holds the same key and has
  seen only smaller counters; or it is one epoch behind and the derivation it will do yields
  the encryptor's key.
\<close>

definition synced :: "crypto_lib \<Rightarrow> frame_encryptor \<Rightarrow> frame_decryptor \<Rightarrow> bool" where
  "synced C s d \<longleftrightarrow> length (fe_send_key s) = 32 \<and>
     (fe_epoch s = fd_epoch d \<and> fe_send_key s = fd_recv_key d \<and>
        (fd_replay d = replay_new \<or> max_counter (fd_replay d) < fe_counter s)
    \<or> fe_epoch s = fd_epoch d + 1 \<and>
        hkdf_derive C None (fd_recv_key d) (Some (epoch_info (fd_epoch d + 1))) = Ok (fe_send_key s))"

lemma synced_decrypt:
  assumes c: "bytemuck_contract bm" "frame_ok f" "a mod 8 = 0" and y: "synced C s d"
    and dec: "decrypt_aead C (fe_send_key s) (nonce_bytes (generate_nonce s)) ct tag [] = Ok (encode_frame bm f)"
    and ov: "unat (fe_counter s) + 1 < 2 ^ 64"
  shows "\<exists>d'. fd_decrypt_frame bm C a d \<lparr>ef_epoch = fe_epoch s, ef_nonce = generate_nonce s,
       ef_ciphertext = ct, ef_tag = tag\<rparr> = (Ok f, d') \<and>
     fd_epoch d' = fe_epoch s \<and> fd_recv_key d' = fe_send_key s \<and> max_counter (fd_replay d') < fe_counter s + 1"
proof -
  let ?n = "generate_nonce s"
  have cnt: "nonce_counter ?n = fe_counter s" by (simp add: generate_nonce_def)
  have lt: "fe_counter s < fe_counter s + 1"
    using ov by (simp add: word_less_nat_alt unat_Suc_no_overflow)
  have dec': "decode_frame bm a (encode_frame bm f) = Ok f" using c by (simp add: decode_encode)
  from y consider
      (same) "fe_epoch s = fd_epoch d" "fe_send_key s = fd_recv_key d"
        "fd_replay d = replay_new \<or> max_counter (fd_replay d) < nonce_counter ?n"
    | (nxt) "fe_epoch s = fd_epoch d + 1"
        "hkdf_derive C None (fd_recv_key d) (Some (epoch_info (fd_epoch d + 1))) = Ok (fe_send_key s)"
    unfolding synced_def cnt by blast
  then show ?thesis
  proof cases
    case same
    have "protect_replay (fd_replay d) ?n = (Ok (), replay_track (fd_replay d) ?n)"
      using replay_in_order [OF same(3)] by (simp add: protect_replay_accepts)
    with same dec dec' lt replay_in_order [OF same(3)] show ?thesis
      by (simp add: fd_decrypt_frame_def cnt)
  next
    case nxt
    have "protect_replay replay_new ?n = (Ok (), replay_track replay_new ?n)"
      by (simp add: protect_replay_accepts)
    with nxt dec dec' lt replay_in_order [of replay_new ?n] show ?thesis
      by (simp add: fd_decrypt_frame_def Let_def cnt)
  qed
qed

lemma synced_step:
  assumes c: "bytemuck_contract bm" "aead_contract C" "hkdf_contract C" "frame_ok f" "a mod 8 = 0"
    and y: "synced C (encryptor ctx) d" and ov: "unat (fe_counter (encryptor ctx)) + 1 < 2 ^ 64"
  shows "\<exists>enc ctx' d'. encrypt_frame bm C ctx f = (Ok enc, ctx') \<and> fd_decrypt_frame bm C a d enc = (Ok f, d') \<and>
     synced C (encryptor ctx') d' \<and> unat (fe_counter (encryptor ctx')) \<le> unat (fe_counter (encryptor ctx)) + 1"
proof -
  let ?s = "encryptor ctx"
  let ?s1 = "?s\<lparr>fe_counter := fe_counter ?s + 1\<rparr>"
  have len: "length (fe_send_key ?s) = 32" using y by (simp add: synced_def)
  obtain ct tag ctx' where e: "encrypt_frame bm C ctx f = (Ok \<lparr>ef_epoch = fe_epoch ?s, ef_nonce = generate_nonce ?s,
       ef_ciphertext = ct, ef_tag = tag\<rparr>, ctx')"
    "decrypt_aead C (fe_send_key ?s) (nonce_bytes (generate_nonce ?s)) ct tag [] = Ok (encode_frame bm f)"
    "encryptor ctx' = (if rotation_due (ctx\<lparr>encryptor := ?s1\<rparr>) then snd (fe_rotate_keys C ?s1) else ?s1)"
    by (rule encrypt_frame_ok [OF c(1-4) len]) (auto simp: Let_def)
  obtain d' where d: "fd_decrypt_frame bm C a d \<lparr>ef_epoch = fe_epoch ?s, ef_nonce = generate_nonce ?s,
       ef_ciphertext = ct, ef_tag = tag\<rparr> = (Ok f, d')" "fd_epoch d' = fe_epoch ?s"
     "fd_recv_key d' = fe_send_key ?s" "max_counter (fd_replay d') < fe_counter ?s + 1"
    using synced_decrypt [OF c(1,4,5) y e(2) ov] by blast
  obtain k where k: "hkdf_derive C None (fe_send_key ?s1) (Some (epoch_info (fe_epoch ?s1 + 1))) = Ok k"
    "length k = 32" "fe_rotate_keys C ?s1 = (Ok (), \<lparr>fe_send_key = k, fe_epoch = fe_epoch ?s1 + 1, fe_counter = 0\<rparr>)"
    using fe_rotate_ok [OF c(3)] by blast
  have "synced C (encryptor ctx') d'" using e(3) d k len by (auto simp: synced_def)
  moreover have "unat (fe_counter (encryptor ctx')) \<le> unat (fe_counter ?s) + 1"
    using e(3) k ov by (simp add: unat_Suc_no_overflow)
  ultimately show ?thesis using e(1) d(1) by blast
qed

definition decrypt_all ::
  "bytemuck \<Rightarrow> crypto_lib \<Rightarrow> frame_decryptor \<Rightarrow> (nat \<times> encrypted_frame) list \<Rightarrow>
     (owned_protocol_frame, protocol_error) outcome list" where
  "decrypt_all bm C d is = fst (run_all (\<lambda>d (a, enc). fd_decrypt_frame bm C a d enc) d is)"

lemma channel_synced:
  "bytemuck_contract bm \<Longrightarrow> aead_contract C \<Longrightarrow> hkdf_contract C \<Longrightarrow>
   (\<forall>f \<in> set fs. frame_ok f) \<Longrightarrow> length as = length fs \<Longrightarrow> (\<forall>a \<in> set as. a mod 8 = 0) \<Longrightarrow>
   synced C (encryptor ctx) d \<Longrightarrow> unat (fe_counter (encryptor ctx)) + length fs < 2 ^ 64 \<Longrightarrow>
   \<exists>encs. fst (run_all (encrypt_frame bm C) ctx fs) = map Ok encs \<and>
          decrypt_all bm C d (zip as encs) = map Ok fs"
proof (induction fs arbitrary: as ctx d)
  case Nil
  then show ?case by (simp add: decrypt_all_def)
next
  case (Cons f fs)
  from Cons.prems(5) obtain a as' where as: "as = a # as'" "length as' = length fs" by (cases as) auto
  obtain enc ctx' d' where st: "encrypt_frame bm C ctx f = (Ok enc, ctx')" "fd_decrypt_frame bm C a d enc = (Ok f, d')"
    "synced C (encryptor ctx') d'" "unat (fe_counter (encryptor ctx')) \<le> unat (fe_counter (encryptor ctx)) + 1"
    using synced_step [of bm C f a ctx d] Cons.prems as by auto
  obtain encs where "fst (run_all (encrypt_frame bm C) ctx' fs) = map Ok encs"
      "decrypt_all bm C d' (zip as' encs) = map Ok fs"
    using Cons.IH [of as' ctx' d'] Cons.prems as st by auto
  with st as show ?case
    by (intro exI [of _ "enc # encs"]) (simp add: run_all_Cons decrypt_all_def del: run_all.simps(2))
qed

text \<open>C4: Every frame sent through an encryption context is delivered, in order and unchanged, by the
  peer's decryptor, for either rotation policy and across all the automatic key rotations the
  policy triggers on the way: encryption succeeds on every frame and decryption returns exactly
  the frames sent.\<close>
theorem channel_roundtrip:
  assumes "bytemuck_contract bm" "aead_contract C" "hkdf_contract C"
    and "\<forall>f \<in> set fs. frame_ok f" "length as = length fs" "\<forall>a \<in> set as. a mod 8 = 0"
    and "length (sk_send_key keys) = 32" "length fs < 2 ^ 64"
  shows "\<exists>encs. fst (run_all (encrypt_frame bm C) (context_new keys pol) fs) = map Ok encs \<and>
     decrypt_all bm C (decryptor_new (sk_send_key keys) (sk_epoch keys)) (zip as encs) = map Ok fs"
  by (rule channel_synced) (use assms in \<open>simp_all add: context_new_def encryptor_new_def decryptor_new_def synced_def\<close>)

definition demo_keys :: session_keys where
  "demo_keys = \<lparr>sk_send_key = replicate 32 5, sk_recv_key = replicate 32 6, sk_epoch = 0\<rparr>"

theorem channel_roundtrip_witness:
  "\<exists>encs. fst (run_all (encrypt_frame bytemuck_le demo_crypto) (context_new demo_keys (Counter 2))
        [demo_frame, demo_frame, demo_frame]) = map Ok encs \<and>
     decrypt_all bytemuck_le demo_crypto (decryptor_new (sk_send_key demo_keys) (sk_epoch demo_keys))
        (zip [0, 8, 16] encs) = map Ok [demo_frame, demo_frame, demo_frame]"
  by (rule channel_roundtrip) (simp_all add: demo_keys_def)

section \<open>Nonces are never reused\<close>

datatype context_op = OpEncrypt owned_protocol_frame | OpDecrypt nat encrypted_frame | OpRotate

text \<open>The frames one call puts on the wire, and the context after it.\<close>

fun context_step :: "bytemuck \<Rightarrow> crypto_lib \<Rightarrow> encryption_context \<Rightarrow> context_op \<Rightarrow>
    encrypted_frame list \<times> encryption_context" where
  "context_step bm C ctx (OpEncrypt f) =
     (case encrypt_frame bm C ctx f of (res, ctx') \<Rightarrow> (oks [res], ctx'))"
| "context_step bm C ctx (OpDecrypt a enc) = ([], snd (decrypt_frame bm C a ctx enc))"
| "context_step bm C ctx OpRotate = ([], snd (rotate_keys C ctx))"

definition emitted :: "bytemuck \<Rightarrow> crypto_lib \<Rightarrow> encryption_context \<Rightarrow> context_op list \<Rightarrow> encrypted_frame list" where
  "emitted bm C ctx ops = concat (fst (run_all (context_step bm C) ctx ops))"

definition nonce_rank :: "nonce \<Rightarrow> nat" where
  "nonce_rank n = unat (nonce_epoch n) * 2 ^ 64 + unat (nonce_counter n)"

abbreviation ctx_rank :: "encryption_context \<Rightarrow> nat" where
  "ctx_rank ctx \<equiv> nonce_rank (generate_nonce (encryptor ctx))"

lemma fe_encrypt_cases:
  obtains (ok) enc where "fe_encrypt_frame bm C s f = (Ok enc, s\<lparr>fe_counter := fe_counter s + 1\<rparr>)"
      "ef_nonce enc = generate_nonce s"
  | (err) "fe_encrypt_frame bm C s f = (Err EncryptionError, s)"
  by (cases "encrypt_aead C (fe_send_key s) (nonce_bytes (generate_nonce s)) (encode_frame bm f) []")
    (auto simp: fe_encrypt_frame_def Let_def)

lemma rotate_keys_encryptor: "encryptor (snd (rotate_keys C ctx)) = snd (fe_rotate_keys C (encryptor ctx))"
  by (auto simp: rotate_keys_def split: prod.splits outcome.splits)

lemma fe_rotate_state:
  "fe_epoch (snd (fe_rotate_keys C s)) = fe_epoch s + 1 \<and>
   (fe_counter (snd (fe_rotate_keys C s)) = 0 \<or> fe_counter (snd (fe_rotate_keys C s)) = fe_counter s)"
  by (auto simp: fe_rotate_keys_def Let_def split: outcome.splits)

lemma rank_rotate:
  assumes "unat (fe_epoch s) + 1 < 2 ^ 32"
  shows "nonce_rank (generate_nonce s) < nonce_rank (generate_nonce (snd (fe_rotate_keys C s)))"
proof -
  have "unat (fe_epoch s + 1) = unat (fe_epoch s) + 1" using assms by (simp add: unat_Suc_no_overflow)
  then show ?thesis
    using fe_rotate_state [of C s] unat_bound [of "fe_counter s"]
    by (auto simp: nonce_rank_def generate_nonce_def)
qed

lemma rank_count:
  assumes "unat (fe_counter s) + 1 < 2 ^ 64"
  shows "nonce_rank (generate_nonce s) < nonce_rank (generate_nonce (s\<lparr>fe_counter := fe_counter s + 1\<rparr>))"
  using assms by (simp add: nonce_rank_def generate_nonce_def unat_Suc_no_overflow)

lemma encrypt_frame_encryptor:
  obtains (plain) enc where "fst (encrypt_frame bm C ctx f) = Ok enc" "ef_nonce enc = generate_nonce (encryptor ctx)"
      "encryptor (snd (encrypt_frame bm C ctx f)) = (encryptor ctx)\<lparr>fe_counter := fe_counter (encryptor ctx) + 1\<rparr>"
  | (rotated) "\<forall>enc. fst (encrypt_frame bm C ctx f) = Ok enc \<longrightarrow> ef_nonce enc = generate_nonce (encryptor ctx)"
      "encryptor (snd (encrypt_frame bm C ctx f)) =
         snd (fe_rotate_keys C ((encryptor ctx)\<lparr>fe_counter := fe_counter (encryptor ctx) + 1\<rparr>))"
  | (err) "fst (encrypt_frame bm C ctx f) = Err EncryptionError" "snd (encrypt_frame bm C ctx f) = ctx"
proof (cases rule: fe_encrypt_cases [of bm C "encryptor ctx" f])
  case (ok enc)
  let ?c1 = "ctx\<lparr>encryptor := (encryptor ctx)\<lparr>fe_counter := fe_counter (encryptor ctx) + 1\<rparr>\<rparr>"
  have r: "encryptor (snd (rotate_keys C ?c1)) = snd (fe_rotate_keys C (encryptor ?c1))"
    by (rule rotate_keys_encryptor)
  show ?thesis
  proof (cases "rotation_due ?c1")
    case True
    then show ?thesis
      by (intro rotated) (use ok r in \<open>auto simp: encrypt_frame_def Let_def split: prod.splits outcome.splits\<close>)
  next
    case False
    then show ?thesis by (intro plain [of enc]) (use ok in \<open>simp_all add: encrypt_frame_def Let_def\<close>)
  qed
next
  case err
  then show ?thesis by (intro that(3)) (simp_all add: encrypt_frame_def)
qed

text \<open>Room left before an epoch or counter field would wrap.\<close>

abbreviation room :: "nat \<Rightarrow> encryption_context \<Rightarrow> bool" where
  "room n ctx \<equiv> unat (fe_epoch (encryptor ctx)) + n < 2 ^ 32 \<and> unat (fe_counter (encryptor ctx)) + n < 2 ^ 64"

lemma room_rotate: "room (Suc n) ctx \<Longrightarrow> encryptor ctx' = snd (fe_rotate_keys C s) \<Longrightarrow>
    fe_epoch s = fe_epoch (encryptor ctx) \<Longrightarrow> unat (fe_counter s) \<le> unat (fe_counter (encryptor ctx)) + 1 \<Longrightarrow>
    room n ctx'"
  using fe_rotate_state [of C s] by (auto simp: unat_Suc_no_overflow)

lemma context_step_rank:
  assumes r: "room (Suc n) ctx"
  shows "room n (snd (context_step bm C ctx op)) \<and>
    (\<forall>e \<in> set (fst (context_step bm C ctx op)). nonce_rank (ef_nonce e) = ctx_rank ctx \<and>
       ctx_rank ctx < ctx_rank (snd (context_step bm C ctx op))) \<and>
    ctx_rank ctx \<le> ctx_rank (snd (context_step bm C ctx op)) \<and>
    length (fst (context_step bm C ctx op)) \<le> 1"
proof (cases op)
  case (OpEncrypt f)
  let ?s1 = "(encryptor ctx)\<lparr>fe_counter := fe_counter (encryptor ctx) + 1\<rparr>"
  have c: "ctx_rank ctx < nonce_rank (generate_nonce ?s1)" "unat (fe_counter ?s1) = unat (fe_counter (encryptor ctx)) + 1"
    using r rank_count [of "encryptor ctx"] by (simp_all add: unat_Suc_no_overflow)
  have k: "nonce_rank (generate_nonce ?s1) < nonce_rank (generate_nonce (snd (fe_rotate_keys C ?s1)))"
    by (rule rank_rotate) (use r in simp)
  obtain res ctx' where e: "encrypt_frame bm C ctx f = (res, ctx')" by fastforce
  show ?thesis
  proof (cases rule: encrypt_frame_encryptor [of bm C ctx f])
    case plain
    then show ?thesis using OpEncrypt e c r by auto
  next
    case rotated
    moreover have "room n ctx'"
      using rotated(2) e c(2) by (intro room_rotate [OF r, where C = C and s = ?s1]) auto
    ultimately show ?thesis using OpEncrypt e c k by (cases res) auto
  next
    case err
    then show ?thesis using OpEncrypt e r by auto
  qed
next
  case (OpDecrypt a enc)
  then show ?thesis using r by (auto simp: decrypt_frame_def split: prod.splits)
next
  case OpRotate
  then show ?thesis
    using rank_rotate [of "encryptor ctx" C] room_rotate [OF r rotate_keys_encryptor [of C ctx]] r
    by (simp add: rotate_keys_encryptor)
qed

lemma emitted_ranks:
  "room (length ops) ctx \<Longrightarrow>
   distinct (map ef_nonce (emitted bm C ctx ops)) \<and> (\<forall>e \<in> set (emitted bm C ctx ops). ctx_rank ctx \<le> nonce_rank (ef_nonce e))"
proof (induction ops arbitrary: ctx)
  case Nil
  then show ?case by (simp add: emitted_def)
next
  case (Cons op ops)
  obtain es ctx' where st: "context_step bm C ctx op = (es, ctx')" by fastforce
  have em: "emitted bm C ctx (op # ops) = es @ emitted bm C ctx' ops"
    using st by (simp add: emitted_def run_all_Cons del: run_all.simps(2))
  from context_step_rank [of ctx "length ops" bm C op] Cons.prems st
  have s: "room (length ops) ctx'" "\<forall>e \<in> set es. nonce_rank (ef_nonce e) = ctx_rank ctx \<and> ctx_rank ctx < ctx_rank ctx'"
    "ctx_rank ctx \<le> ctx_rank ctx'" "length es \<le> 1" by auto
  have ih: "distinct (map ef_nonce (emitted bm C ctx' ops))"
    "\<forall>e \<in> set (emitted bm C ctx' ops). ctx_rank ctx' \<le> nonce_rank (ef_nonce e)"
    using Cons.IH [OF s(1)] by auto
  from s(4) consider "es = []" | e where "es = [e]" by (cases es) auto
  then show ?case using em s ih by cases (fastforce dest: le_trans)+
qed

text \<open>C11: However encryptions, decryptions and manual rotations are interleaved, whatever frames
  arrive and even when a derivation fails, no two frames a context emits carry the same nonce,
  as long as fewer than \<open>2\<^sup>3\<^sup>2\<close> calls are made: the epoch and the counter cannot wrap.  In
  particular no key and nonce pair is ever used for two frames.\<close>
theorem nonces_never_reused:
  assumes "unat (sk_epoch keys) + length ops < 2 ^ 32"
  shows "distinct (map ef_nonce (emitted bm C (context_new keys pol) ops))"
  using emitted_ranks [of "context_new keys pol" ops bm C] assms
  by (simp add: context_new_def encryptor_new_def)

theorem nonces_never_reused_witness:
  "distinct (map ef_nonce (emitted bytemuck_le demo_crypto (context_new demo_keys (Counter 1))
     [OpEncrypt demo_frame, OpRotate, OpEncrypt demo_frame, OpEncrypt demo_frame]))"
  by (rule nonces_never_reused) (simp add: demo_keys_def)

section \<open>The rotation schedule\<close>

lemma schedule_step:
  assumes c: "bytemuck_contract bm" "aead_contract C" "hkdf_contract C" "frame_ok f"
    and len: "length (fe_send_key (encryptor ctx)) = 32"
    and pol: "rotation_policy ctx = Counter limit" "0 < limit"
    and st: "unat (fe_counter (encryptor ctx)) = n mod unat limit" "fe_epoch (encryptor ctx) = e + of_nat (n div unat limit)"
  shows "\<exists>enc ctx'. encrypt_frame bm C ctx f = (Ok enc, ctx') \<and>
     ef_nonce enc = nonce_new (e + of_nat (n div unat limit)) (of_nat (n mod unat limit)) \<and>
     length (fe_send_key (encryptor ctx')) = 32 \<and> rotation_policy ctx' = Counter limit \<and>
     unat (fe_counter (encryptor ctx')) = Suc n mod unat limit \<and>
     fe_epoch (encryptor ctx') = e + of_nat (Suc n div unat limit)"
proof -
  let ?s = "encryptor ctx"
  let ?s1 = "?s\<lparr>fe_counter := fe_counter ?s + 1\<rparr>"
  have l0: "0 < unat limit" using pol(2) by (simp add: word_less_nat_alt)
  have cnt: "fe_counter ?s = of_nat (n mod unat limit)" by (simp flip: st(1))
  have lt: "unat (fe_counter ?s) < unat limit" using st(1) l0 by simp
  have sc: "unat (fe_counter ?s + 1) = unat (fe_counter ?s) + 1"
    using lt unat_bound [of limit] by (intro unat_Suc_no_overflow) simp
  have due: "rotation_due (ctx\<lparr>encryptor := ?s1\<rparr>) \<longleftrightarrow> Suc n mod unat limit = 0"
    using pol(1) sc st(1) mod_less_divisor [OF l0, of n] by (auto simp: rotation_due_def word_le_nat_alt mod_Suc)
  obtain ct tag ctx' where e: "encrypt_frame bm C ctx f = (Ok \<lparr>ef_epoch = fe_epoch ?s, ef_nonce = generate_nonce ?s,
       ef_ciphertext = ct, ef_tag = tag\<rparr>, ctx')" "rotation_policy ctx' = rotation_policy ctx"
    "encryptor ctx' = (if rotation_due (ctx\<lparr>encryptor := ?s1\<rparr>) then snd (fe_rotate_keys C ?s1) else ?s1)"
    by (rule encrypt_frame_ok [OF c len]) (auto simp: Let_def)
  obtain k where k: "length k = 32"
    "fe_rotate_keys C ?s1 = (Ok (), \<lparr>fe_send_key = k, fe_epoch = fe_epoch ?s1 + 1, fe_counter = 0\<rparr>)"
    using fe_rotate_ok [OF c(3)] by blast
  have "unat (fe_counter (encryptor ctx')) = Suc n mod unat limit"
    using e(3) k due sc st(1) by (auto simp: mod_Suc)
  moreover have "fe_epoch (encryptor ctx') = e + of_nat (Suc n div unat limit)"
    using e(3) k due st(2) by (auto simp: div_Suc)
  ultimately show ?thesis using e k len pol st(2) cnt
    by (auto simp: generate_nonce_def)
qed

lemma schedule_run:
  assumes c: "bytemuck_contract bm" "aead_contract C" "hkdf_contract C" and "0 < limit"
  shows "(\<forall>f \<in> set fs. frame_ok f) \<Longrightarrow> length (fe_send_key (encryptor ctx)) = 32 \<Longrightarrow>
    rotation_policy ctx = Counter limit \<Longrightarrow> unat (fe_counter (encryptor ctx)) = n mod unat limit \<Longrightarrow>
    fe_epoch (encryptor ctx) = e + of_nat (n div unat limit) \<Longrightarrow>
    map ef_nonce (oks (fst (run_all (encrypt_frame bm C) ctx fs))) =
      map (\<lambda>i. nonce_new (e + of_nat (i div unat limit)) (of_nat (i mod unat limit))) [n..<n + length fs]"
proof (induction fs arbitrary: ctx n)
  case Nil
  then show ?case by simp
next
  case (Cons f fs)
  obtain enc ctx' where st: "encrypt_frame bm C ctx f = (Ok enc, ctx')"
     "ef_nonce enc = nonce_new (e + of_nat (n div unat limit)) (of_nat (n mod unat limit))"
     "length (fe_send_key (encryptor ctx')) = 32" "rotation_policy ctx' = Counter limit"
     "unat (fe_counter (encryptor ctx')) = Suc n mod unat limit"
     "fe_epoch (encryptor ctx') = e + of_nat (Suc n div unat limit)"
    using schedule_step [OF c, of f ctx limit n e] Cons.prems assms(4) by auto
  have up: "[n..<Suc (n + length fs)] = n # [Suc n..<Suc (n + length fs)]" by (simp add: upt_conv_Cons del: upt_Suc)
  show ?case
    using Cons.IH [of ctx' "Suc n"] Cons.prems st
    by (simp add: up run_all_Cons del: run_all.simps(2) upt_Suc)
qed

text \<open>C29: Under the policy \<open>Counter(limit)\<close> the i-th frame of a context is sent under epoch
  \<open>e + i div limit\<close> with counter \<open>i mod limit\<close>: every key encrypts exactly \<open>limit\<close> frames.\<close>
theorem rotation_schedule:
  assumes "bytemuck_contract bm" "aead_contract C" "hkdf_contract C" "0 < limit"
    and "\<forall>f \<in> set fs. frame_ok f" "length (sk_send_key keys) = 32"
  shows "map ef_nonce (oks (fst (run_all (encrypt_frame bm C) (context_new keys (Counter limit)) fs))) =
    map (\<lambda>i. nonce_new (sk_epoch keys + of_nat (i div unat limit)) (of_nat (i mod unat limit))) [0..<length fs]"
  using schedule_run [OF assms(1-5), of "context_new keys (Counter limit)" 0 "sk_epoch keys"] assms(6)
  by (simp add: context_new_def encryptor_new_def)

theorem rotation_schedule_witness:
  "map ef_nonce (oks (fst (run_all (encrypt_frame bytemuck_le demo_crypto)
      (context_new demo_keys (Counter 2)) (replicate 3 demo_frame)))) =
    map (\<lambda>i. nonce_new (sk_epoch demo_keys + of_nat (i div unat (2::u64))) (of_nat (i mod unat (2::u64))))
      [0..<length (replicate 3 demo_frame)]"
  by (rule rotation_schedule) (simp_all add: demo_keys_def)

section \<open>Forged frames\<close>

text \<open>C22: A frame authentic under neither the decryptor's key nor the key its next epoch would
  derive is not delivered and leaves the epoch and the key as they are; and unless it names
  the current epoch it changes nothing at all.\<close>
theorem forged_frame_cannot_rotate:
  assumes "\<not> authentic C (fd_recv_key d) enc"
    and "\<forall>k. hkdf_derive C None (fd_recv_key d) (Some (epoch_info (fd_epoch d + 1))) = Ok k \<longrightarrow> \<not> authentic C k enc"
  shows "\<not> is_ok (fst (fd_decrypt_frame bm C a d enc)) \<and>
    fd_epoch (snd (fd_decrypt_frame bm C a d enc)) = fd_epoch d \<and>
    fd_recv_key (snd (fd_decrypt_frame bm C a d enc)) = fd_recv_key d \<and>
    (ef_epoch enc \<noteq> fd_epoch d \<longrightarrow> snd (fd_decrypt_frame bm C a d enc) = d)"
  by (cases rule: fd_decrypt_cases [of enc d bm C a]) (use assms in auto)

definition demo_forged :: "u32 \<Rightarrow> u64 \<Rightarrow> encrypted_frame" where
  "demo_forged e c = \<lparr>ef_epoch = e, ef_nonce = nonce_new e c, ef_ciphertext = [1, 2, 3], ef_tag = replicate 16 0\<rparr>"

lemma demo_not_authentic:
  assumes "k \<noteq> []" "hd k \<noteq> 0"
  shows "\<not> authentic demo_crypto k (demo_forged e c)"
  using assms by (auto simp: authentic_def decrypt_aead_def demo_crypto_def demo_forged_def demo_tag_def
      dest!: arg_cong [where f = hd])

theorem forged_frame_cannot_rotate_witness:
  "\<not> is_ok (fst (fd_decrypt_frame bytemuck_le demo_crypto 0 (decryptor_new [5] 0) (demo_forged 1 0))) \<and>
    fd_epoch (snd (fd_decrypt_frame bytemuck_le demo_crypto 0 (decryptor_new [5] 0) (demo_forged 1 0))) = 0 \<and>
    snd (fd_decrypt_frame bytemuck_le demo_crypto 0 (decryptor_new [5] 0) (demo_forged 1 0)) = decryptor_new [5] 0"
proof -
  have "hkdf_derive demo_crypto None [5] (Some (epoch_info 1)) = Ok (replicate 32 54)"
    by (simp add: hkdf_derive_def demo_crypto_def epoch_info_def dec_digits.simps)
  then show ?thesis
    using forged_frame_cannot_rotate [of demo_crypto "decryptor_new [5] 0" "demo_forged 1 0" bytemuck_le 0]
      demo_not_authentic
    by (simp add: decryptor_new_def demo_forged_def)
qed

text \<open>A forged frame that names the current epoch and a counter 64 or more ahead of a genuine
  frame makes the decryptor reject the genuine frame: on the same-epoch path the replay window
  advances before the frame is authenticated.\<close>
theorem forged_frame_blocks_genuine:
  assumes "ef_epoch forged = fd_epoch d" "ef_epoch genuine = fd_epoch d"
    and "replay_accepts (fd_replay d) (ef_nonce forged)"
    and "unat (nonce_counter (ef_nonce genuine)) + 64 \<le> unat (nonce_counter (ef_nonce forged))"
  shows "fst (fd_decrypt_frame bm C a' (snd (fd_decrypt_frame bm C a d forged)) genuine) = Err ReplayDetected"
proof (cases rule: fd_decrypt_cases [of forged d bm C a])
  case same
  have "unat (nonce_counter (ef_nonce genuine)) + 64 \<le> unat (max_counter (replay_track (fd_replay d) (ef_nonce forged)))"
    using replay_top_ge [OF assms(3)] assms(4) by simp
  from replay_far_behind [OF this] show ?thesis
    using same assms(2) by (simp add: fd_decrypt_frame_def)
qed (use assms in auto)

theorem forged_frame_blocks_genuine_witness:
  "\<not> authentic demo_crypto [5] (demo_forged 0 64) \<and>
   fst (fd_decrypt_frame bytemuck_le demo_crypto 0 (decryptor_new [5] 0)
      (demo_forged 0 0\<lparr>ef_ciphertext := encode_frame bytemuck_le demo_frame,
         ef_tag := demo_tag [5] (nonce_bytes (nonce_new 0 0))\<rparr>)) = Ok demo_frame \<and>
   fst (fd_decrypt_frame bytemuck_le demo_crypto 0
      (snd (fd_decrypt_frame bytemuck_le demo_crypto 0 (decryptor_new [5] 0) (demo_forged 0 64)))
      (demo_forged 0 0\<lparr>ef_ciphertext := encode_frame bytemuck_le demo_frame,
         ef_tag := demo_tag [5] (nonce_bytes (nonce_new 0 0))\<rparr>)) = Err ReplayDetected"
proof (intro conjI)
  show "\<not> authentic demo_crypto [5] (demo_forged 0 64)" by (rule demo_not_authentic) simp_all
  show "fst (fd_decrypt_frame bytemuck_le demo_crypto 0 (decryptor_new [5] 0)
      (demo_forged 0 0\<lparr>ef_ciphertext := encode_frame bytemuck_le demo_frame,
         ef_tag := demo_tag [5] (nonce_bytes (nonce_new 0 0))\<rparr>)) = Ok demo_frame"
    using decode_encode [OF bytemuck_contract_le demo_frame_ok, of 0]
    by (simp add: fd_decrypt_frame_def decryptor_new_def demo_forged_def protect_replay_accepts
        decrypt_aead_def demo_crypto_def)
qed (rule forged_frame_blocks_genuine; simp add: decryptor_new_def demo_forged_def)

section \<open>Both directions of a context\<close>

text \<open>When a context's own send limit is reached, the automatic rotation advances its receive
  key as well: every frame the peer still sends in the epoch both sides shared is then
  rejected, until the peer has rotated too.\<close>
theorem send_limit_rejects_peer:
  assumes "bytemuck_contract bm" "aead_contract C" "hkdf_contract C" "frame_ok f"
    and "length (fe_send_key (encryptor ctx)) = 32"
    and "rotation_policy ctx = Counter limit" "limit \<le> fe_counter (encryptor ctx) + 1"
    and "ef_epoch enc = fd_epoch (decryptor ctx)"
  shows "\<exists>sent ctx'. encrypt_frame bm C ctx f = (Ok sent, ctx') \<and>
    decrypt_frame bm C a ctx' enc = (Err EncryptionError, ctx')"
proof -
  let ?s1 = "(encryptor ctx)\<lparr>fe_counter := fe_counter (encryptor ctx) + 1\<rparr>"
  have due: "rotation_due (ctx\<lparr>encryptor := ?s1\<rparr>)" using assms(6,7) by (simp add: rotation_due_def)
  obtain sent ctx' where e: "encrypt_frame bm C ctx f = (Ok sent, ctx')"
    "fd_epoch (decryptor ctx') = fd_epoch (decryptor ctx) + 1"
    by (rule encrypt_frame_ok [OF assms(1-5)]) (use due in \<open>auto simp: Let_def\<close>)
  have "fd_epoch (decryptor ctx) \<noteq> fd_epoch (decryptor ctx) + 1 + 1"
    by (simp add: add.assoc)
  with e assms(8) show ?thesis by (simp add: decrypt_frame_def fd_decrypt_frame_def)
qed

theorem send_limit_rejects_peer_witness:
  "\<exists>sent ctx'. encrypt_frame bytemuck_le demo_crypto (context_new demo_keys (Counter 1)) demo_frame = (Ok sent, ctx') \<and>
    decrypt_frame bytemuck_le demo_crypto 0 ctx' (demo_forged 0 0) = (Err EncryptionError, ctx')"
  by (rule send_limit_rejects_peer [where limit = 1])
    (simp_all add: context_new_def encryptor_new_def decryptor_new_def demo_keys_def demo_forged_def)

end
