(* ===== verification/BW_Reliability.thy ===== *)
theory BW_Reliability
  imports BW_Codec BW_Window "HOL-Library.Finite_Map" "HOL-Library.Sublist"
begin

text \<open>
  The reliable delivery subsystem of \<^verbatim>\<open>bw-protocol\<close> (\<^verbatim>\<open>reliability.rs\<close>): sequence numbers,
  the sliding send window with its retransmission queue, the duplicate filter, and the
  ordered assembler.  Instants and durations are natural numbers of one clock unit;
  \<open>Instant::now()\<close> is the argument \<open>now\<close> of the operation that reads the clock.
\<close>

section \<open>Frames and policies\<close>

type_synonym sequence_number = u64

definition seq_next :: "sequence_number \<Rightarrow> sequence_number" where
  "seq_next s = s + 1"

record ack_frame =
  acked_seq :: sequence_number
  ack_bits :: u64

record reliable_frame =
  rf_seq :: sequence_number
  rf_payload :: bytes

datatype delivery_state = Pending | Acked | TimedOut

record timeout_policy =
  rto :: nat
  max_retransmissions :: u32

record retransmission_entry =
  re_frame :: reliable_frame
  re_sent_at :: nat
  re_retransmissions :: u32
  re_state :: delivery_state

section \<open>Sliding window\<close>

record sliding_window =
  sw_base :: sequence_number
  sw_next_seq :: sequence_number
  sw_window_size :: u32

definition sliding_window_new :: "u32 \<Rightarrow> sliding_window" where
  "sliding_window_new n = \<lparr>sw_base = 0, sw_next_seq = 0, sw_window_size = n\<rparr>"

definition window_available :: "sliding_window \<Rightarrow> u32" where
  "window_available w =
     (let unacked = saturating_sub (sw_next_seq w) (sw_base w)
      in ucast (saturating_sub (ucast (sw_window_size w) :: u64) unacked))"

section \<open>Duplicate filter\<close>

record duplicate_filter =
  max_received :: u64
  df_received_mask :: u64

definition duplicate_filter_new :: duplicate_filter where
  "duplicate_filter_new = \<lparr>max_received = 0, df_received_mask = 0\<rparr>"

definition check_and_track :: "duplicate_filter \<Rightarrow> sequence_number \<Rightarrow> bool \<times> duplicate_filter" where
  "check_and_track d seq =
     (let val = seq in
      if val \<le> max_received d then
        let diff = max_received d - val in
        if diff \<ge> 64 then (True, d)
        else let b = push_bit (unat diff) 1 in
             if df_received_mask d AND b \<noteq> 0 then (True, d)
             else (False, d\<lparr>df_received_mask := df_received_mask d OR b\<rparr>)
      else
        let diff = val - max_received d;
            m = (if diff \<ge> 64 then 1 else push_bit (unat diff) (df_received_mask d) OR 1)
        in (False, d\<lparr>df_received_mask := m, max_received := val\<rparr>))"

definition df_accepts :: "duplicate_filter \<Rightarrow> sequence_number \<Rightarrow> bool" where
  "df_accepts d s \<longleftrightarrow> \<not> fst (check_and_track d s)"

definition df_track :: "duplicate_filter \<Rightarrow> sequence_number \<Rightarrow> duplicate_filter" where
  "df_track d s = snd (check_and_track d s)"

lemma check_and_track_eq: "check_and_track d s = (\<not> df_accepts d s, df_track d s)"
  by (simp add: df_accepts_def df_track_def)

lemmas df_defs = df_accepts_def df_track_def check_and_track_def Let_def word_le_nat_alt

interpretation df: window_filter duplicate_filter_new df_accepts df_track
  unat "\<lambda>d. unat (max_received d)" "\<lambda>d k. bit (df_received_mask d) k"
proof
  fix d :: duplicate_filter and v :: u64 and k :: nat
  show "unat (max_received duplicate_filter_new) = 0" "\<not> bit (df_received_mask duplicate_filter_new) k"
    by (simp_all add: duplicate_filter_new_def)
  have old: "unat (max_received d - v) = unat (max_received d) - unat v" if "unat v \<le> unat (max_received d)"
    using that by (intro word_leD_diff) (simp add: word_le_nat_alt)
  have new: "unat (v - max_received d) = unat v - unat (max_received d)" if "unat (max_received d) < unat v"
    using that by (intro word_leD_diff) (simp add: word_le_nat_alt)
  show "df_accepts d v \<longleftrightarrow> unat (max_received d) < unat v \<or>
      (unat (max_received d) - unat v < 64 \<and> \<not> bit (df_received_mask d) (unat (max_received d) - unat v))"
    using old by (auto simp: df_defs bit_mask_test)
  show "\<not> df_accepts d v \<Longrightarrow> df_track d v = d"
    by (auto simp: df_defs split: if_splits)
  show "df_accepts d v \<Longrightarrow> unat v \<le> unat (max_received d) \<Longrightarrow>
      unat (max_received (df_track d v)) = unat (max_received d)"
    by (auto simp: df_defs split: if_splits)
  show "df_accepts d v \<Longrightarrow> unat v \<le> unat (max_received d) \<Longrightarrow> k < 64 \<Longrightarrow>
      bit (df_received_mask (df_track d v)) k \<longleftrightarrow> bit (df_received_mask d) k \<or> k = unat (max_received d) - unat v"
    using old by (auto simp: df_defs bit_mask_set split: if_splits)
  show "unat (max_received d) < unat v \<Longrightarrow> unat (max_received (df_track d v)) = unat v"
    by (auto simp: df_defs)
  show "unat (max_received d) < unat v \<Longrightarrow> k < 64 \<Longrightarrow>
      bit (df_received_mask (df_track d v)) k \<longleftrightarrow> k = 0 \<or>
      (unat v - unat (max_received d) \<le> k \<and> bit (df_received_mask d) (k - (unat v - unat (max_received d))))"
    using new by (auto simp: df_defs bit_mask_shift bit_simps)
qed

section \<open>Ordered assembly\<close>

record ordered_assembler =
  oa_next_expected :: sequence_number
  oa_buffer :: "(sequence_number, reliable_frame) fmap"

definition assembler_new :: ordered_assembler where
  "assembler_new = \<lparr>oa_next_expected = 0, oa_buffer = fmempty\<rparr>"

definition assembler_insert :: "ordered_assembler \<Rightarrow> reliable_frame \<Rightarrow> ordered_assembler" where
  "assembler_insert a f =
     (if rf_seq f \<ge> oa_next_expected a then a\<lparr>oa_buffer := fmupd (rf_seq f) f (oa_buffer a)\<rparr> else a)"

function assemble :: "ordered_assembler \<Rightarrow> bytes list \<times> ordered_assembler" where
  "assemble a =
     (case fmlookup (oa_buffer a) (oa_next_expected a) of
        None \<Rightarrow> ([], a)
      | Some f \<Rightarrow>
          let (ready, a') = assemble (a\<lparr>oa_buffer := fmdrop (oa_next_expected a) (oa_buffer a),
                                        oa_next_expected := seq_next (oa_next_expected a)\<rparr>)
          in (rf_payload f # ready, a'))"
  by pat_completeness auto
termination
proof (relation "measure (\<lambda>a. fcard (fmdom (oa_buffer a)))")
  fix a :: ordered_assembler and f
  assume "fmlookup (oa_buffer a) (oa_next_expected a) = Some f"
  then have m: "oa_next_expected a |\<in>| fmdom (oa_buffer a)" by (rule fmdomI)
  then have "0 < fcard (fmdom (oa_buffer a))" by (metis fcard_0_eq fempty_iff gr0I)
  with m show "(a\<lparr>oa_buffer := fmdrop (oa_next_expected a) (oa_buffer a),
       oa_next_expected := seq_next (oa_next_expected a)\<rparr>, a)
      \<in> measure (\<lambda>a. fcard (fmdom (oa_buffer a)))"
    by simp
qed simp

declare assemble.simps [simp del]

section \<open>Sender\<close>

record reliable_sender =
  rs_window :: sliding_window
  rs_queue :: "retransmission_entry list"
  rs_policy :: timeout_policy

definition sender_new :: "u32 \<Rightarrow> timeout_policy \<Rightarrow> reliable_sender" where
  "sender_new n p = \<lparr>rs_window = sliding_window_new n, rs_queue = [], rs_policy = p\<rparr>"

definition send :: "nat \<Rightarrow> reliable_sender \<Rightarrow> bytes \<Rightarrow> (reliable_frame, protocol_error) outcome \<times> reliable_sender" where
  "send now s payload =
     (if window_available (rs_window s) = 0 then (Err WindowFull, s)
      else
        let seq = sw_next_seq (rs_window s);
            frame = \<lparr>rf_seq = seq, rf_payload = payload\<rparr>;
            entry = \<lparr>re_frame = frame, re_sent_at = now, re_retransmissions = 0, re_state = Pending\<rparr>
        in (Ok frame, s\<lparr>rs_window := (rs_window s)\<lparr>sw_next_seq := seq_next seq\<rparr>,
                        rs_queue := rs_queue s @ [entry]\<rparr>))"

text \<open>\<open>mark_delivered\<close>: the first entry with the sequence number, if there is one.\<close>

fun mark_delivered :: "sequence_number \<Rightarrow> retransmission_entry list \<Rightarrow> retransmission_entry list" where
  "mark_delivered seq [] = []"
| "mark_delivered seq (e # es) =
     (if rf_seq (re_frame e) = seq then e\<lparr>re_state := Acked\<rparr> # es else e # mark_delivered seq es)"

text \<open>The loop of \<open>ack\<close> over the selective bits, and the one that slides the window base.\<close>

definition mark_bits :: "ack_frame \<Rightarrow> retransmission_entry list \<Rightarrow> retransmission_entry list" where
  "mark_bits a q = fold (\<lambda>i q. if ack_bits a AND push_bit i 1 \<noteq> 0
                               then mark_delivered (acked_seq a - (of_nat i + 1)) q else q) [0..<64] q"

fun slide_base :: "sliding_window \<Rightarrow> retransmission_entry list \<Rightarrow> sliding_window \<times> retransmission_entry list" where
  "slide_base w [] = (w, [])"
| "slide_base w (e # es) =
     (if re_state e = Acked then slide_base (w\<lparr>sw_base := seq_next (rf_seq (re_frame e))\<rparr>) es
      else (w, e # es))"

definition ack :: "reliable_sender \<Rightarrow> ack_frame \<Rightarrow> (unit, protocol_error) outcome \<times> reliable_sender" where
  "ack s a =
     (let q = mark_bits a (mark_delivered (acked_seq a) (rs_queue s));
          (w, q') = slide_base (rs_window s) q
      in (Ok (), s\<lparr>rs_window := w, rs_queue := q'\<rparr>))"

fun timeout_entry :: "nat \<Rightarrow> nat \<Rightarrow> retransmission_entry \<Rightarrow> bool" where
  "timeout_entry now r e \<longleftrightarrow> re_state e = Pending \<and> now - re_sent_at e \<ge> r"

definition mark_timeout :: "nat \<Rightarrow> reliable_sender \<Rightarrow> sequence_number list \<times> reliable_sender" where
  "mark_timeout now s =
     (let due = timeout_entry now (rto (rs_policy s))
      in (map (rf_seq \<circ> re_frame) (filter due (rs_queue s)),
          s\<lparr>rs_queue := map (\<lambda>e. if due e then e\<lparr>re_state := TimedOut\<rparr> else e) (rs_queue s)\<rparr>))"

definition retransmit :: "nat \<Rightarrow> reliable_sender \<Rightarrow> reliable_frame list \<times> reliable_sender" where
  "retransmit now s =
     (let due = (\<lambda>e. re_state e = TimedOut \<and> re_retransmissions e < max_retransmissions (rs_policy s))
      in (map re_frame (filter due (rs_queue s)),
          s\<lparr>rs_queue := map (\<lambda>e. if due e then e\<lparr>re_retransmissions := re_retransmissions e + 1,
                                                  re_sent_at := now, re_state := Pending\<rparr> else e)
                            (rs_queue s)\<rparr>))"

definition unacked :: "retransmission_entry \<Rightarrow> bool" where
  "unacked e \<longleftrightarrow> re_state e = Pending \<or> re_state e = TimedOut"

definition queue_depth :: "reliable_sender \<Rightarrow> nat" where
  "queue_depth s = length (filter unacked (rs_queue s))"

definition pending_frames :: "reliable_sender \<Rightarrow> reliable_frame list" where
  "pending_frames s = map re_frame (filter unacked (rs_queue s))"

section \<open>Receiver\<close>

record reliable_receiver =
  rr_assembler :: ordered_assembler
  rr_filter :: duplicate_filter

definition receiver_new :: reliable_receiver where
  "receiver_new = \<lparr>rr_assembler = assembler_new, rr_filter = duplicate_filter_new\<rparr>"

definition receive ::
  "reliable_receiver \<Rightarrow> reliable_frame \<Rightarrow> (bytes list, protocol_error) outcome \<times> reliable_receiver" where
  "receive r f =
     (case check_and_track (rr_filter r) (rf_seq f) of
        (True, d) \<Rightarrow> (Ok [], r\<lparr>rr_filter := d\<rparr>)
      | (False, d) \<Rightarrow>
          let (ready, a) = assemble (assembler_insert (rr_assembler r) f)
          in (Ok ready, r\<lparr>rr_filter := d, rr_assembler := a\<rparr>))"

definition rr_next_expected :: "reliable_receiver \<Rightarrow> sequence_number" where
  "rr_next_expected r = oa_next_expected (rr_assembler r)"

section \<open>The receiver delivers each payload once, in order\<close>

text \<open>The frame that carries the \<open>i\<close>-th payload of a stream.\<close>

definition stream_frame :: "(nat \<Rightarrow> bytes) \<Rightarrow> nat \<Rightarrow> reliable_frame" where
  "stream_frame P i = \<lparr>rf_seq = of_nat i, rf_payload = P i\<rparr>"

lemma stream_frame_simps [simp]: "rf_seq (stream_frame P i) = of_nat i" "rf_payload (stream_frame P i) = P i"
  by (simp_all add: stream_frame_def)

lemma unat_seq [simp]: "i < 2 ^ 64 \<Longrightarrow> unat (of_nat i :: u64) = i"
  by (simp add: unat_of_nat take_bit_nat_eq_self)

lemma seq_eq_iff: "i < 2 ^ 64 \<Longrightarrow> (s :: u64) = of_nat i \<longleftrightarrow> unat s = i"
  using unat_seq [of i] by auto

text \<open>What the assembler holds when the numbers in \<open>A\<close> have arrived and \<open>k\<close> is next.\<close>

definition holds :: "(nat \<Rightarrow> bytes) \<Rightarrow> nat set \<Rightarrow> nat \<Rightarrow> ordered_assembler \<Rightarrow> bool" where
  "holds P A k a \<longleftrightarrow> oa_next_expected a = of_nat k \<and> k < 2 ^ 64 \<and> (\<forall>i \<in> A. i < 2 ^ 64 - 1) \<and>
     (\<forall>s. fmlookup (oa_buffer a) s =
        (if unat s \<in> A \<and> k \<le> unat s then Some (stream_frame P (unat s)) else None))"

lemma holds_drop:
  assumes "holds P A k a" "k \<in> A"
  shows "holds P A (Suc k) (a\<lparr>oa_buffer := fmdrop (oa_next_expected a) (oa_buffer a),
           oa_next_expected := seq_next (oa_next_expected a)\<rparr>)"
proof -
  have k: "k < 2 ^ 64 - 1" "oa_next_expected a = of_nat k" using assms by (auto simp: holds_def)
  then have "s = of_nat k \<longleftrightarrow> unat s = k" for s :: u64 by (intro seq_eq_iff) simp
  then show ?thesis using assms k by (auto simp: holds_def seq_next_def)
qed

lemma assemble_holds:
  "holds P A k a \<Longrightarrow>
   \<exists>k' a'. assemble a = (map P [k..<k'], a') \<and> k \<le> k' \<and> {k..<k'} \<subseteq> A \<and> k' \<notin> A \<and> holds P A k' a'"
proof (induction a arbitrary: k rule: assemble.induct)
  case (1 a)
  have lk: "fmlookup (oa_buffer a) (oa_next_expected a) = (if k \<in> A then Some (stream_frame P k) else None)"
    using "1.prems" by (simp add: holds_def)
  show ?case
  proof (cases "k \<in> A")
    case False
    then show ?thesis using "1.prems" lk by (subst assemble.simps) (auto intro!: exI [of _ k])
  next
    case True
    let ?a = "a\<lparr>oa_buffer := fmdrop (oa_next_expected a) (oa_buffer a), oa_next_expected := seq_next (oa_next_expected a)\<rparr>"
    obtain k' a' where r: "assemble ?a = (map P [Suc k..<k'], a')" "Suc k \<le> k'" "{Suc k..<k'} \<subseteq> A" "k' \<notin> A" "holds P A k' a'"
      using "1.IH" [OF _ holds_drop [OF "1.prems" True]] lk True by auto
    have low: "{k..<k'} = insert k {Suc k..<k'}" using r(2) by auto
    have "[k..<k'] = k # [Suc k..<k']" using r(2) by (simp add: upt_conv_Cons)
    moreover have "{k..<k'} \<subseteq> A" using r(2,3) True by (simp add: low)
    ultimately show ?thesis using r True lk
      by (subst assemble.simps) (auto intro!: exI [of _ k'])
  qed
qed

definition receiver_inv :: "(nat \<Rightarrow> bytes) \<Rightarrow> nat set \<Rightarrow> nat \<Rightarrow> reliable_receiver \<Rightarrow> bool" where
  "receiver_inv P A k r \<longleftrightarrow> df.tracks (rr_filter r) A \<and> holds P A k (rr_assembler r) \<and> {0..<k} \<subseteq> A \<and> k \<notin> A"

lemma receiver_inv_new: "receiver_inv P {} 0 receiver_new"
  using df.tracks_init by (simp add: receiver_inv_def receiver_new_def holds_def assembler_new_def)

lemma rr_filter_new [simp]: "rr_filter receiver_new = duplicate_filter_new"
  by (simp add: receiver_new_def)

lemma receive_step:
  assumes inv: "receiver_inv P A k r" and i: "i < 2 ^ 64 - 1"
  shows "\<exists>k' r'. receive r (stream_frame P i) = (Ok (map P [k..<k']), r') \<and> k \<le> k' \<and>
    rr_filter r' = df_track (rr_filter r) (of_nat i) \<and>
    receiver_inv P (if df_accepts (rr_filter r) (of_nat i) then insert i A else A) k' r'"
proof (cases "df_accepts (rr_filter r) (of_nat i)")
  case False
  then have "df_track (rr_filter r) (of_nat i) = rr_filter r" by (rule df.track_rejected)
  then show ?thesis using inv False
    by (intro exI [of _ k] exI [of _ r]) (simp add: receive_def check_and_track_eq)
next
  case True
  have u: "unat (of_nat i :: u64) = i" using i by simp
  have t: "df.tracks (df_track (rr_filter r) (of_nat i)) (insert i A)"
    using df.tracks_track [of "rr_filter r" A "of_nat i"] inv True u by (simp add: receiver_inv_def)
  have "i \<notin> A" using df.tracks_accepts_fresh [of "rr_filter r" A "of_nat i"] inv True u
    by (simp add: receiver_inv_def)
  then have ki: "k \<le> i" using inv by (simp add: receiver_inv_def subset_iff) (meson not_le)
  have k: "k < 2 ^ 64" "oa_next_expected (rr_assembler r) = of_nat k"
    using inv by (auto simp: receiver_inv_def holds_def)
  have eq: "s = of_nat i \<longleftrightarrow> unat s = i" for s :: u64 using i by (intro seq_eq_iff) simp
  have "holds P (insert i A) k (assembler_insert (rr_assembler r) (stream_frame P i))"
    using inv i k ki by (auto simp: receiver_inv_def holds_def assembler_insert_def word_le_nat_alt eq)
  from assemble_holds [OF this] obtain k' a' where a:
    "assemble (assembler_insert (rr_assembler r) (stream_frame P i)) = (map P [k..<k'], a')"
    "k \<le> k'" "{k..<k'} \<subseteq> insert i A" "k' \<notin> insert i A" "holds P (insert i A) k' a'" by blast
  have "{0..<k'} \<subseteq> insert i A"
  proof
    fix j assume "j \<in> {0..<k'}"
    then show "j \<in> insert i A" using inv a(3) by (cases "j < k") (auto simp: receiver_inv_def subset_iff)
  qed
  then show ?thesis using True t a by (auto simp: receive_def check_and_track_eq receiver_inv_def)
qed

lemma receive_run:
  "receiver_inv P A k r \<Longrightarrow> \<forall>i \<in> set is. i < 2 ^ 64 - 1 \<Longrightarrow>
   \<exists>outs k' r'. run_all receive r (map (stream_frame P) is) = (map Ok outs, r') \<and> k \<le> k' \<and>
     concat outs = map P [k..<k'] \<and>
     receiver_inv P (A \<union> unat ` set (accepted_of df_accepts df_track (rr_filter r) (map of_nat is))) k' r'"
proof (induction "is" arbitrary: A k r)
  case Nil
  then show ?case by (auto intro!: exI [of _ k] exI [of _ "[]"])
next
  case (Cons i "is")
  let ?A = "if df_accepts (rr_filter r) (of_nat i) then insert i A else A"
  obtain k1 r1 where s: "receive r (stream_frame P i) = (Ok (map P [k..<k1]), r1)" "k \<le> k1"
     "rr_filter r1 = df_track (rr_filter r) (of_nat i)" "receiver_inv P ?A k1 r1"
    using receive_step [OF Cons.prems(1), of i] Cons.prems(2) by auto
  obtain outs k' r' where t: "run_all receive r1 (map (stream_frame P) is) = (map Ok outs, r')" "k1 \<le> k'"
     "concat outs = map P [k1..<k']"
     "receiver_inv P (?A \<union> unat ` set (accepted_of df_accepts df_track (rr_filter r1) (map of_nat is))) k' r'"
    using Cons.IH [OF s(4)] Cons.prems(2) by auto
  have "map P [k..<k1] @ map P [k1..<k'] = map P [k..<k']"
    using s(2) t(2) by (metis le_iff_add map_append upt_add_eq_append)
  moreover have "?A \<union> unat ` set (accepted_of df_accepts df_track (rr_filter r1) (map of_nat is)) =
      A \<union> unat ` set (accepted_of df_accepts df_track (rr_filter r) (map of_nat (i # is)))"
    using Cons.prems(2) s(3) by auto
  ultimately show ?case using s t
    by (intro exI [of _ "map P [k..<k1] # outs"] exI [of _ k'] exI [of _ r'])
      (simp add: run_all_Cons del: run_all.simps(2))
qed

lemma mex_unique: "{0..<k} \<subseteq> A \<Longrightarrow> k \<notin> A \<Longrightarrow> k = (LEAST n. n \<notin> (A :: nat set))"
  by (rule Least_equality [symmetric]) (auto simp: not_less [symmetric])

text \<open>Feed a fresh receiver any finite sequence of frames of a stream, reordered, repeated and with
  losses: every call succeeds, and the payloads it hands out, concatenated, are exactly the
  stream's first \<open>k\<close> payloads in order, each once, where \<open>k\<close> is the least number the
  duplicate filter has not accepted.\<close>
theorem receiver_delivers_prefix:
  assumes "\<forall>i \<in> set is. i < 2 ^ 64 - 1"
  shows "\<exists>outs. fst (run_all receive receiver_new (map (stream_frame P) is)) = map Ok outs \<and>
    concat outs = map P [0..<LEAST n. n \<notin>
      unat ` set (accepted_of df_accepts df_track duplicate_filter_new (map of_nat is))]"
proof -
  let ?A = "unat ` set (accepted_of df_accepts df_track duplicate_filter_new (map of_nat is))"
  obtain outs k r where o: "run_all receive receiver_new (map (stream_frame P) is) = (map Ok outs, r)"
    "concat outs = map P [0..<k]" "receiver_inv P ?A k r"
    using receive_run [OF receiver_inv_new [of P] assms] by auto
  then have "k = (LEAST n. n \<notin> ?A)" by (intro mex_unique) (auto simp: receiver_inv_def)
  with o show ?thesis by auto
qed

theorem receiver_delivers_prefix_witness:
  "\<exists>outs. fst (run_all receive receiver_new (map (stream_frame (\<lambda>i. [of_nat i])) [1, 0, 1, 3])) = map Ok outs \<and>
    concat outs = map (\<lambda>i. [of_nat i]) [0..<LEAST n. n \<notin>
      unat ` set (accepted_of df_accepts df_track duplicate_filter_new (map of_nat [1, 0, 1, 3]))]"
  by (rule receiver_delivers_prefix) simp

lemma seqs_exact: "\<forall>i \<in> A. i < 2 ^ 64 - 1 \<Longrightarrow> i \<in> A \<Longrightarrow> unat (of_nat i :: u64) = i"
  by (rule unat_seq) (drule (1) bspec, simp)

lemma numbers_of_accepted:
  assumes "\<forall>i \<in> set is. i < 2 ^ 64"
  shows "unat ` set (accepted_of df_accepts df_track duplicate_filter_new (map of_nat is)) \<subseteq> set is"
  using set_accepted_of [of df_accepts df_track duplicate_filter_new "map of_nat is"] assms by fastforce

text \<open>C16: No payload is lost when every frame of the stream arrives at least once before any frame 64 or
  more ahead of it: the receiver then hands out the whole stream.\<close>
theorem receiver_complete:
  assumes "n \<le> 2 ^ 64 - 1" "set is \<subseteq> {0..<n}"
    and "\<forall>i < n. \<exists>xs ys. is = xs @ i # ys \<and> (\<forall>j \<in> set xs. j < i + 64)"
  shows "\<exists>outs. fst (run_all receive receiver_new (map (stream_frame P) is)) = map Ok outs \<and>
    concat outs = map P [0..<n]"
proof -
  let ?A = "unat ` set (accepted_of df_accepts df_track duplicate_filter_new (map of_nat is))"
  have b: "\<forall>i \<in> set is. i < 2 ^ 64 - 1" using assms(1,2) by force
  obtain outs k r where o: "run_all receive receiver_new (map (stream_frame P) is) = (map Ok outs, r)"
    "concat outs = map P [0..<k]" "receiver_inv P ?A k r"
    using receive_run [OF receiver_inv_new [of P] b] by auto
  have "i \<in> ?A" if i: "i < n" for i
  proof -
    from assms(3) i obtain xs ys where x: "is = xs @ i # ys" "\<forall>j \<in> set xs. j < i + 64" by blast
    have "\<forall>j \<in> set (i # xs). unat (of_nat j :: u64) = j" using seqs_exact [OF b] x(1) by simp
    then show ?thesis
      using df.accepted_complete [of "map of_nat xs" "of_nat i" "map of_nat ys"] x by auto
  qed
  moreover have "?A \<subseteq> {0..<n}" using numbers_of_accepted [of "is"] b assms(2) by fastforce
  ultimately have A: "?A = {0..<n}" by (intro subset_antisym subsetI) auto
  have "{0..<k} \<subseteq> {0..<n}" "k \<notin> {0..<n}" using o(3) unfolding A receiver_inv_def by blast+
  then have "k = n" by (cases "k = 0") (auto simp: atLeastLessThan_subset_iff)
  with o show ?thesis by auto
qed

theorem receiver_complete_witness:
  "\<exists>outs. fst (run_all receive receiver_new (map (stream_frame (\<lambda>i. [of_nat i])) [1, 0, 1])) = map Ok outs \<and>
    concat outs = map (\<lambda>i. [of_nat i]) [0..<2]"
proof (rule receiver_complete)
  show "\<forall>i < 2. \<exists>xs ys. [1, 0, 1 :: nat] = xs @ i # ys \<and> (\<forall>j \<in> set xs. j < i + 64)"
  proof (intro allI impI)
    fix i :: nat assume "i < 2"
    then consider "i = 0" | "i = 1" by linarith
    then show "\<exists>xs ys. [1, 0, 1 :: nat] = xs @ i # ys \<and> (\<forall>j \<in> set xs. j < i + 64)"
    proof cases
      case 1
      then show ?thesis by (intro exI [of _ "[1]"] exI [of _ "[1]"]) simp
    next
      case 2
      then show ?thesis by (intro exI [of _ "[]"] exI [of _ "[0, 1]"]) simp
    qed
  qed
qed auto

text \<open>A frame that is overtaken by one 64 or more ahead of it is lost for good: however often it is
  retransmitted, the duplicate filter discards it, and the receiver never hands out its payload nor any
  later one.\<close>
theorem receiver_stuck:
  assumes "\<forall>i \<in> set (is @ js). i < 2 ^ 64 - 1" "k \<notin> set is" "m \<in> set is" "k + 64 \<le> m"
  shows "\<exists>outs. fst (run_all receive receiver_new (map (stream_frame P) (is @ js))) = map Ok outs \<and>
    length (concat outs) \<le> k"
proof -
  let ?A = "unat ` set (accepted_of df_accepts df_track duplicate_filter_new (map of_nat (is @ js)))"
  obtain outs k' r where o: "run_all receive receiver_new (map (stream_frame P) (is @ js)) = (map Ok outs, r)"
    "concat outs = map P [0..<k']" "receiver_inv P ?A k' r"
    using receive_run [OF receiver_inv_new [of P] assms(1)] by auto
  have "m < 2 ^ 64 - 1" using assms(1,3) by simp
  with assms(4) have "k < 2 ^ 64" by simp
  then have u: "\<forall>i \<in> insert k (set is). unat (of_nat i :: u64) = i"
    using seqs_exact [OF assms(1)] by simp
  then have "unat (of_nat k :: u64) \<notin> unat ` set (map of_nat is :: u64 list)" using assms(2) by auto
  then have "k \<notin> ?A"
    using df.accepted_never [of "of_nat k" "map of_nat is" "of_nat m" "map of_nat js"] u assms(3,4) by simp
  then have "k' \<le> k" using o(3) by (simp add: receiver_inv_def subset_iff) (meson not_le)
  with o show ?thesis by auto
qed

theorem receiver_stuck_witness:
  "\<exists>outs. fst (run_all receive receiver_new (map (stream_frame (\<lambda>i. [of_nat i])) ([64] @ [0, 0, 0]))) = map Ok outs \<and>
    length (concat outs) \<le> 0"
  by (rule receiver_stuck [where m = 64]) simp_all

section \<open>The sender\<close>

text \<open>
  The queue of a sender that accepted the payloads \<open>ps\<close> holds the frames from the window
  base on, consecutively numbered.
\<close>

abbreviation payload_stream :: "bytes list \<Rightarrow> nat \<Rightarrow> reliable_frame" where
  "payload_stream ps \<equiv> stream_frame ((!) ps)"

definition sender_inv :: "bytes list \<Rightarrow> reliable_sender \<Rightarrow> bool" where
  "sender_inv ps s \<longleftrightarrow> (\<exists>b \<le> length ps. length ps < 2 ^ 64 \<and>
     sw_base (rs_window s) = of_nat b \<and> sw_next_seq (rs_window s) = of_nat (length ps) \<and>
     map re_frame (rs_queue s) = map (payload_stream ps) [b..<length ps] \<and>
     length ps - b \<le> unat (sw_window_size (rs_window s)))"

lemma sender_inv_new: "sender_inv [] (sender_new n p)"
  by (simp add: sender_inv_def sender_new_def sliding_window_new_def)

lemma sender_inv_available:
  assumes "sender_inv ps s"
  shows "unat (window_available (rs_window s)) = unat (sw_window_size (rs_window s)) - length (rs_queue s)"
    and "length (rs_queue s) \<le> unat (sw_window_size (rs_window s))"
proof -
  from assms obtain b where b: "b \<le> length ps" "length ps < 2 ^ 64" "sw_base (rs_window s) = of_nat b"
    "sw_next_seq (rs_window s) = of_nat (length ps)" "map re_frame (rs_queue s) = map (payload_stream ps) [b..<length ps]"
    "length ps - b \<le> unat (sw_window_size (rs_window s))" unfolding sender_inv_def by blast
  have l: "length (rs_queue s) = length ps - b" using b(5) by (metis length_map length_upt)
  have bd: "unat (sw_window_size (rs_window s)) - length (rs_queue s) < 2 ^ 32"
    using unat_bound [of "sw_window_size (rs_window s)"] by (simp add: less_imp_diff_less)
  show "unat (window_available (rs_window s)) = unat (sw_window_size (rs_window s)) - length (rs_queue s)"
    using b l bd by (simp add: window_available_def Let_def unat_ucast_mod [where 'b = 32] unat_saturating_sub)
  show "length (rs_queue s) \<le> unat (sw_window_size (rs_window s))" using l b(6) by simp
qed

lemma send_cases:
  assumes "sender_inv ps s" "length ps + 1 < 2 ^ 64"
  shows "(if length (rs_queue s) = unat (sw_window_size (rs_window s)) then send now s p = (Err WindowFull, s)
          else \<exists>s'. send now s p = (Ok (payload_stream (ps @ [p]) (length ps)), s') \<and> sender_inv (ps @ [p]) s' \<and>
            rs_queue s' = rs_queue s @ [\<lparr>re_frame = payload_stream (ps @ [p]) (length ps), re_sent_at = now,
               re_retransmissions = 0, re_state = Pending\<rparr>] \<and> rs_policy s' = rs_policy s)"
proof -
  note av = sender_inv_available [OF assms(1)]
  have z: "window_available (rs_window s) = 0 \<longleftrightarrow> length (rs_queue s) = unat (sw_window_size (rs_window s))"
    using av by (metis diff_diff_cancel diff_is_0_eq' diff_zero le_refl unat_eq_zero)
  from assms(1) obtain b where b: "b \<le> length ps" "length ps < 2 ^ 64" "sw_base (rs_window s) = of_nat b"
    "sw_next_seq (rs_window s) = of_nat (length ps)" "map re_frame (rs_queue s) = map (payload_stream ps) [b..<length ps]"
    "length ps - b \<le> unat (sw_window_size (rs_window s))" unfolding sender_inv_def by blast
  have l: "length (rs_queue s) = length ps - b" using b(5) by (metis length_map length_upt)
  have q: "map (payload_stream (ps @ [p])) [b..<Suc (length ps)] =
      map re_frame (rs_queue s) @ [\<lparr>rf_seq = of_nat (length ps), rf_payload = p\<rparr>]"
    using b(1,5) by (simp add: stream_frame_def nth_append)
  show ?thesis
    using z b l q av(2) assms(2)
    by (auto simp: send_def Let_def sender_inv_def seq_next_def stream_frame_def intro!: exI [of _ b])
qed

lemma mark_delivered_frames [simp]: "map re_frame (mark_delivered seq q) = map re_frame q"
  by (induction q) simp_all

lemma mark_bits_frames [simp]: "map re_frame (mark_bits a q) = map re_frame q"
proof -
  have "map re_frame (fold (\<lambda>i q. if ack_bits a AND push_bit i 1 \<noteq> 0
           then mark_delivered (acked_seq a - (of_nat i + 1)) q else q) is q) = map re_frame q" for "is"
    by (induction "is" arbitrary: q) (simp_all del: push_bit_of_1)
  then show ?thesis by (simp add: mark_bits_def)
qed

lemma slide_base_queue: "snd (slide_base w q) = dropWhile (\<lambda>e. re_state e = Acked) q"
  by (induction q arbitrary: w) simp_all

lemma slide_base_frames:
  "map re_frame q = map (stream_frame P) [b..<n] \<Longrightarrow> sw_base w = of_nat b \<Longrightarrow> b \<le> n \<Longrightarrow>
   \<exists>b'. b \<le> b' \<and> b' \<le> n \<and> map re_frame (snd (slide_base w q)) = map (stream_frame P) [b'..<n] \<and>
     fst (slide_base w q) = w\<lparr>sw_base := of_nat b'\<rparr>"
proof (induction q arbitrary: w b)
  case Nil
  then show ?case by (auto intro!: exI [of _ b])
next
  case (Cons e es)
  from Cons.prems have lt: "b < n" by (cases "b < n") auto
  then have up: "[b..<n] = b # [Suc b..<n]" by (simp add: upt_conv_Cons)
  with Cons.prems(1) have e: "re_frame e = stream_frame P b" "map re_frame es = map (stream_frame P) [Suc b..<n]" by auto
  show ?case
  proof (cases "re_state e = Acked")
    case True
    obtain b' where "Suc b \<le> b'" "b' \<le> n"
      "map re_frame (snd (slide_base (w\<lparr>sw_base := seq_next (of_nat b)\<rparr>) es)) = map (stream_frame P) [b'..<n]"
      "fst (slide_base (w\<lparr>sw_base := seq_next (of_nat b)\<rparr>) es) = w\<lparr>sw_base := of_nat b'\<rparr>"
      using Cons.IH [OF e(2), of "w\<lparr>sw_base := seq_next (of_nat b)\<rparr>"] lt by (auto simp: seq_next_def)
    then show ?thesis using True e(1) by (auto intro!: exI [of _ b'])
  next
    case False
    then show ?thesis using Cons.prems by (auto intro!: exI [of _ b])
  qed
qed

lemma ack_inv [inv_intros]:
  assumes "sender_inv ps s"
  shows "sender_inv ps (snd (ack s a))"
proof -
  from assms obtain b where b: "b \<le> length ps" "length ps < 2 ^ 64" "sw_base (rs_window s) = of_nat b"
    "sw_next_seq (rs_window s) = of_nat (length ps)" "map re_frame (rs_queue s) = map (payload_stream ps) [b..<length ps]"
    "length ps - b \<le> unat (sw_window_size (rs_window s))" unfolding sender_inv_def by blast
  let ?q = "mark_bits a (mark_delivered (acked_seq a) (rs_queue s))"
  obtain b' where "b \<le> b'" "b' \<le> length ps"
    "map re_frame (snd (slide_base (rs_window s) ?q)) = map (payload_stream ps) [b'..<length ps]"
    "fst (slide_base (rs_window s) ?q) = (rs_window s)\<lparr>sw_base := of_nat b'\<rparr>"
    using slide_base_frames [of ?q "(!) ps" b "length ps" "rs_window s"] b by auto
  with b show ?thesis
    by (auto simp: ack_def sender_inv_def Let_def case_prod_beta intro!: exI [of _ b'])
qed

lemma sender_inv_cong: "sender_inv ps s \<Longrightarrow> rs_window s' = rs_window s \<Longrightarrow>
    map re_frame (rs_queue s') = map re_frame (rs_queue s) \<Longrightarrow> sender_inv ps s'"
  by (simp add: sender_inv_def)

lemma mark_timeout_inv [inv_intros]: "sender_inv ps s \<Longrightarrow> sender_inv ps (snd (mark_timeout now s))"
  by (erule sender_inv_cong) (simp_all add: mark_timeout_def Let_def)

lemma retransmit_inv [inv_intros]: "sender_inv ps s \<Longrightarrow> sender_inv ps (snd (retransmit now s))"
  by (erule sender_inv_cong) (simp_all add: retransmit_def Let_def)

section \<open>Sender runs\<close>

datatype sender_op = SendOp nat bytes | AckOp ack_frame | TimeoutOp nat | RetransmitOp nat

text \<open>The frames a call puts on the wire, the payloads it accepts, and the sender after it.\<close>

fun sender_step :: "reliable_sender \<Rightarrow> sender_op \<Rightarrow> (reliable_frame list \<times> bytes list) \<times> reliable_sender" where
  "sender_step s (SendOp now p) =
     (case send now s p of (Ok f, s') \<Rightarrow> (([f], [p]), s') | (_, s') \<Rightarrow> (([], []), s'))"
| "sender_step s (AckOp a) = (([], []), snd (ack s a))"
| "sender_step s (TimeoutOp now) = (([], []), snd (mark_timeout now s))"
| "sender_step s (RetransmitOp now) = (case retransmit now s of (fs, s') \<Rightarrow> ((fs, []), s'))"

definition sender_frames :: "reliable_sender \<Rightarrow> sender_op list \<Rightarrow> reliable_frame list" where
  "sender_frames s ops = concat (map fst (fst (run_all sender_step s ops)))"

definition sender_payloads :: "reliable_sender \<Rightarrow> sender_op list \<Rightarrow> bytes list" where
  "sender_payloads s ops = concat (map snd (fst (run_all sender_step s ops)))"

definition sender_after :: "reliable_sender \<Rightarrow> sender_op list \<Rightarrow> reliable_sender" where
  "sender_after s ops = snd (run_all sender_step s ops)"

lemma sender_run_Cons:
  "sender_frames s (op # ops) = fst (fst (sender_step s op)) @ sender_frames (snd (sender_step s op)) ops"
  "sender_payloads s (op # ops) = snd (fst (sender_step s op)) @ sender_payloads (snd (sender_step s op)) ops"
  "sender_after s (op # ops) = sender_after (snd (sender_step s op)) ops"
  by (simp_all add: sender_frames_def sender_payloads_def sender_after_def run_all_Cons del: run_all.simps(2))

lemma sender_run_Nil [simp]: "sender_frames s [] = []" "sender_payloads s [] = []" "sender_after s [] = s"
  by (simp_all add: sender_frames_def sender_payloads_def sender_after_def)

lemma policy_window_kept:
  "rs_policy (snd (sender_step s op)) = rs_policy s \<and>
   sw_window_size (rs_window (snd (sender_step s op))) = sw_window_size (rs_window s)"
proof -
  have "sw_window_size (fst (slide_base w q)) = sw_window_size w" for w q
    by (induction q arbitrary: w) simp_all
  then show ?thesis
    by (cases op) (auto simp: send_def ack_def mark_timeout_def retransmit_def Let_def case_prod_beta)
qed

lemma queue_frames_sent: "sender_inv ps s \<Longrightarrow> e \<in> set (rs_queue s) \<Longrightarrow> \<exists>i < length ps. re_frame e = payload_stream ps i"
proof -
  assume "sender_inv ps s" "e \<in> set (rs_queue s)"
  then obtain b where "re_frame e \<in> set (map (payload_stream ps) [b..<length ps])"
    unfolding sender_inv_def by (metis image_eqI image_set)
  then show ?thesis by auto
qed

lemma sender_step_inv:
  assumes "sender_inv ps s" "length ps + 1 < 2 ^ 64"
  shows "sender_inv (ps @ snd (fst (sender_step s op))) (snd (sender_step s op)) \<and>
    (\<forall>f \<in> set (fst (fst (sender_step s op))). \<exists>i < length (ps @ snd (fst (sender_step s op))).
        f = payload_stream (ps @ snd (fst (sender_step s op))) i) \<and>
    length (snd (fst (sender_step s op))) \<le> 1"
proof (cases op)
  case (SendOp now p)
  show ?thesis
    using send_cases [OF assms, of now p] assms(1) SendOp
    by (auto split: if_splits simp: less_Suc_eq)
next
  case (RetransmitOp now)
  then show ?thesis
    using retransmit_inv [OF assms(1), of now] queue_frames_sent [OF assms(1)]
    by (auto simp: retransmit_def Let_def)
qed (use assms in \<open>auto intro: inv_intros\<close>)

lemma payload_stream_append: "i < length ps \<Longrightarrow> payload_stream (ps @ qs) i = payload_stream ps i"
  by (simp add: stream_frame_def nth_append)

lemma sender_run_inv:
  "sender_inv ps s \<Longrightarrow> length ps + length ops < 2 ^ 64 \<Longrightarrow>
   sender_inv (ps @ sender_payloads s ops) (sender_after s ops) \<and>
   (\<forall>f \<in> set (sender_frames s ops). \<exists>i < length (ps @ sender_payloads s ops).
      f = payload_stream (ps @ sender_payloads s ops) i)"
proof (induction ops arbitrary: ps s)
  case Nil
  then show ?case by simp
next
  case (Cons op ops)
  let ?s = "snd (sender_step s op)" and ?ps = "ps @ snd (fst (sender_step s op))"
  from sender_step_inv [OF Cons.prems(1), of op] Cons.prems(2)
  have st: "sender_inv ?ps ?s" "\<forall>f \<in> set (fst (fst (sender_step s op))). \<exists>i < length ?ps. f = payload_stream ?ps i"
    "length ?ps + length ops < 2 ^ 64" by auto
  from Cons.IH [OF st(1,3)] have ih: "sender_inv (?ps @ sender_payloads ?s ops) (sender_after ?s ops)"
    "\<forall>f \<in> set (sender_frames ?s ops). \<exists>i < length (?ps @ sender_payloads ?s ops). f = payload_stream (?ps @ sender_payloads ?s ops) i"
    by auto
  have "\<exists>i < length (?ps @ sender_payloads ?s ops). f = payload_stream (?ps @ sender_payloads ?s ops) i"
    if "f \<in> set (fst (fst (sender_step s op)))" for f
    using st(2) that payload_stream_append [of _ ?ps "sender_payloads ?s ops"]
    by (metis length_append trans_less_add1)
  with ih show ?case by (auto simp: sender_run_Cons)
qed

lemma length_sender_payloads: "length (sender_payloads s ops) \<le> length ops"
proof (induction ops arbitrary: s)
  case (Cons op ops)
  have "length (snd (fst (sender_step s op))) \<le> 1" by (cases op) (auto split: outcome.splits prod.splits)
  with Cons.IH [of "snd (sender_step s op)"] show ?case by (simp add: sender_run_Cons)
qed simp

text \<open>C8: End to end: run any sequence of sends, acknowledgements (genuine or not), time-outs and
  retransmissions on a fresh sender, and deliver the frames it ever emitted to a fresh receiver in any
  order, any number of times, with any losses.  The receiver's output is a prefix of the sequence of
  payloads the sender accepted: no payload is duplicated, reordered, skipped or altered.\<close>
theorem reliable_stream_prefix:
  assumes "length ops < 2 ^ 64 - 1" "set fs \<subseteq> set (sender_frames (sender_new n p) ops)"
  shows "\<exists>outs. fst (run_all receive receiver_new fs) = map Ok outs \<and>
    prefix (concat outs) (sender_payloads (sender_new n p) ops)"
proof -
  let ?ps = "sender_payloads (sender_new n p) ops"
  have inv: "sender_inv ?ps (sender_after (sender_new n p) ops)"
    "\<forall>f \<in> set fs. \<exists>i < length ?ps. f = payload_stream ?ps i"
    using sender_run_inv [OF sender_inv_new, of ops n p] assms by auto
  have "length ?ps \<le> length ops" by (rule length_sender_payloads)
  moreover from inv(2) obtain g where g: "\<forall>f \<in> set fs. g f < length ?ps \<and> f = payload_stream ?ps (g f)" by metis
  ultimately have b: "\<forall>i \<in> set (map g fs). i < 2 ^ 64 - 1" using assms(1) by auto
  have fs: "map (payload_stream ?ps) (map g fs) = fs" using g by (simp add: map_idI)
  let ?A = "unat ` set (accepted_of df_accepts df_track duplicate_filter_new (map of_nat (map g fs)))"
  obtain outs k r where o: "run_all receive receiver_new fs = (map Ok outs, r)"
    "concat outs = map ((!) ?ps) [0..<k]" "receiver_inv ((!) ?ps) ?A k r"
    using receive_run [OF receiver_inv_new b, of "(!) ?ps"] unfolding fs by auto
  have "\<forall>i \<in> set (map g fs). i < 2 ^ 64" by (meson b diff_le_self less_le_trans)
  from numbers_of_accepted [OF this] have "?A \<subseteq> {0..<length ?ps}" using g by auto
  moreover have "{0..<k} \<subseteq> ?A" using o(3) by (simp add: receiver_inv_def)
  ultimately have "{0..<k} \<subseteq> {0..<length ?ps}" by blast
  then have "k \<le> length ?ps" by (simp add: atLeastLessThan_subset_iff) auto
  then have "concat outs = take k ?ps" unfolding o(2) by (intro nth_equalityI) auto
  with o(1) show ?thesis by (auto simp: take_is_prefix)
qed

definition demo_policy :: timeout_policy where
  "demo_policy = \<lparr>rto = 10, max_retransmissions = 3\<rparr>"

lemma demo_send [simp]: "fst (fst (sender_step (sender_new 4 demo_policy) (SendOp 0 [7]))) = [\<lparr>rf_seq = 0, rf_payload = [7]\<rparr>]"
  by (simp add: sender_new_def sliding_window_new_def send_def window_available_def saturating_sub_def Let_def)

theorem reliable_stream_prefix_witness:
  "\<exists>outs. fst (run_all receive receiver_new (replicate 2 \<lparr>rf_seq = 0, rf_payload = [7]\<rparr>)) = map Ok outs \<and>
    prefix (concat outs) (sender_payloads (sender_new 4 demo_policy) [SendOp 0 [7], TimeoutOp 20, RetransmitOp 20])"
  by (rule reliable_stream_prefix) (simp_all add: sender_run_Cons(1) [of _ "SendOp 0 [7]"] del: sender_step.simps)

section \<open>Flow control\<close>

text \<open>After any run, the slots the window reports as available and the frames awaiting
  acknowledgement in order add up to the configured window size, and \<open>send\<close> is refused with
  \<open>WindowFull\<close>, leaving the sender as it is, exactly when that many frames are outstanding; otherwise the
  frame carries the next consecutive sequence number.\<close>
theorem sender_window:
  assumes "length ops + 1 < 2 ^ 64"
  shows "let s = sender_after (sender_new n p) ops; sent = length (sender_payloads (sender_new n p) ops)
    in unat (window_available (rs_window s)) + length (rs_queue s) = unat n \<and>
       (if length (rs_queue s) = unat n then send now s b = (Err WindowFull, s)
        else fst (send now s b) = Ok \<lparr>rf_seq = of_nat sent, rf_payload = b\<rparr>)"
proof -
  let ?s = "sender_after (sender_new n p) ops" and ?ps = "sender_payloads (sender_new n p) ops"
  have inv: "sender_inv ?ps ?s" using sender_run_inv [OF sender_inv_new, of ops n p] assms by simp
  have "sw_window_size (rs_window (sender_after s xs)) = sw_window_size (rs_window s)" for s xs
    by (induction xs arbitrary: s) (simp_all add: sender_run_Cons policy_window_kept)
  then have w: "sw_window_size (rs_window ?s) = n" by (simp add: sender_new_def sliding_window_new_def)
  have "length ?ps + 1 < 2 ^ 64" using length_sender_payloads [of "sender_new n p" ops] assms by simp
  from send_cases [OF inv this, of now b] sender_inv_available [OF inv] w show ?thesis
    by (auto simp: Let_def stream_frame_def)
qed

theorem sender_window_witness:
  "let s = sender_after (sender_new 4 demo_policy) [SendOp 0 [7]];
       sent = length (sender_payloads (sender_new 4 demo_policy) [SendOp 0 [7]])
    in unat (window_available (rs_window s)) + length (rs_queue s) = unat (4 :: u32) \<and>
       (if length (rs_queue s) = unat (4 :: u32) then send 1 s [8] = (Err WindowFull, s)
        else fst (send 1 s [8]) = Ok \<lparr>rf_seq = of_nat sent, rf_payload = [8]\<rparr>)"
  by (rule sender_window) simp

section \<open>Acknowledgements\<close>

text \<open>The numbers an acknowledgement covers: its base and, for each set bit, an earlier number.\<close>

definition ack_covers :: "ack_frame \<Rightarrow> sequence_number \<Rightarrow> bool" where
  "ack_covers a q \<longleftrightarrow> q = acked_seq a \<or>
     list_ex (\<lambda>i. bit (ack_bits a) i \<and> q = acked_seq a - (of_nat i + 1)) [0..<64]"

abbreviation seqs_of :: "retransmission_entry list \<Rightarrow> sequence_number list" where
  "seqs_of q \<equiv> map (\<lambda>e. rf_seq (re_frame e)) q"

abbreviation acknowledge :: "(sequence_number \<Rightarrow> bool) \<Rightarrow> retransmission_entry \<Rightarrow> retransmission_entry" where
  "acknowledge S e \<equiv> (if S (rf_seq (re_frame e)) then e\<lparr>re_state := Acked\<rparr> else e)"

lemma mark_delivered_map: "distinct (seqs_of q) \<Longrightarrow> mark_delivered x q = map (acknowledge (\<lambda>y. y = x)) q"
proof (induction q)
  case (Cons e q)
  have "map (acknowledge (\<lambda>y. y = rf_seq (re_frame e))) q = q"
    using Cons.prems by (intro map_idI) (auto simp: image_iff)
  with Cons show ?case by auto
qed simp

lemma seqs_of_acknowledge [simp]: "seqs_of (map (acknowledge S) q) = seqs_of q"
  by (induction q) simp_all

lemma acknowledge_twice: "map (acknowledge S) (map (acknowledge T) q) = map (acknowledge (\<lambda>y. S y \<or> T y)) q"
  by (induction q) simp_all

lemma mark_delivered_acknowledge:
  assumes "distinct (seqs_of q)"
  shows "mark_delivered x (map (acknowledge S) q) = map (acknowledge (\<lambda>y. y = x \<or> S y)) q"
proof -
  have "distinct (seqs_of (map (acknowledge S) q))" using assms by (simp only: seqs_of_acknowledge)
  from mark_delivered_map [OF this] show ?thesis
    using acknowledge_twice [of "\<lambda>y. y = x" S q] by simp
qed

lemma mark_bits_map:
  assumes "distinct (seqs_of q)"
  shows "mark_bits a (mark_delivered (acked_seq a) q) = map (acknowledge (ack_covers a)) q"
proof -
  let ?f = "\<lambda>i q. if ack_bits a AND push_bit i 1 \<noteq> 0 then mark_delivered (acked_seq a - (of_nat i + 1)) q else q"
  have step: "fold ?f is (map (acknowledge S) q) =
      map (acknowledge (\<lambda>y. S y \<or> list_ex (\<lambda>i. bit (ack_bits a) i \<and> y = acked_seq a - (of_nat i + 1)) is)) q"
    if "\<forall>i \<in> set is. i < 64" for "is" S
    using that
  proof (induction "is" arbitrary: S)
    case (Cons i "is")
    have "?f i (map (acknowledge S) q) =
        map (acknowledge (\<lambda>y. (bit (ack_bits a) i \<and> y = acked_seq a - (of_nat i + 1)) \<or> S y)) q"
      using Cons.prems mark_delivered_acknowledge [OF assms, of _ S]
      by (simp add: bit_mask_test)
    then show ?case
      using Cons.IH [of "\<lambda>y. (bit (ack_bits a) i \<and> y = acked_seq a - (of_nat i + 1)) \<or> S y"] Cons.prems
      by (simp add: disj_ac)
  qed simp
  have "mark_bits a (map (acknowledge (\<lambda>y. y = acked_seq a)) q) = map (acknowledge (ack_covers a)) q"
    unfolding mark_bits_def ack_covers_def by (rule step) simp
  then show ?thesis by (simp add: mark_delivered_map assms)
qed

lemma sender_inv_distinct: "sender_inv ps s \<Longrightarrow> distinct (seqs_of (rs_queue s))"
proof -
  assume "sender_inv ps s"
  then obtain b where b: "map re_frame (rs_queue s) = map (payload_stream ps) [b..<length ps]" "length ps < 2 ^ 64"
    unfolding sender_inv_def by blast
  have "seqs_of (rs_queue s) = map rf_seq (map re_frame (rs_queue s))" by simp
  also have "\<dots> = map of_nat [b..<length ps]" unfolding b(1) by simp
  finally show ?thesis using b(2) by (auto simp: distinct_map inj_on_def seq_eq_iff)
qed

text \<open>An acknowledgement removes from the sender's unacknowledged frames exactly the ones it
  covers, in any order and with any repetition, and never one it does not cover.\<close>
theorem ack_exact:
  assumes "length ops < 2 ^ 64"
  shows "let s = sender_after (sender_new n p) ops
    in pending_frames (snd (ack s a)) = filter (\<lambda>f. \<not> ack_covers a (rf_seq f)) (pending_frames s)"
proof -
  let ?s = "sender_after (sender_new n p) ops"
  have inv: "sender_inv (sender_payloads (sender_new n p) ops) ?s"
    using sender_run_inv [OF sender_inv_new, of ops n p] assms by simp
  have drop: "filter unacked (dropWhile (\<lambda>e. re_state e = Acked) q) = filter unacked q" for q
    by (induction q) (auto simp: unacked_def)
  have "filter unacked (map (acknowledge S) q) = filter (\<lambda>e. \<not> S (rf_seq (re_frame e))) (filter unacked q)" for S q
    by (induction q) (auto simp: unacked_def)
  then show ?thesis
    using sender_inv_distinct [OF inv]
    by (simp add: Let_def pending_frames_def ack_def case_prod_beta slide_base_queue drop mark_bits_map filter_map o_def)
qed

theorem ack_exact_witness:
  "let s = sender_after (sender_new 4 demo_policy) [SendOp 0 [7], SendOp 1 [8]]
    in pending_frames (snd (ack s \<lparr>acked_seq = 1, ack_bits = 0\<rparr>)) =
       filter (\<lambda>f. \<not> ack_covers \<lparr>acked_seq = 1, ack_bits = 0\<rparr> (rf_seq f)) (pending_frames s)"
  by (rule ack_exact) simp

section \<open>Retransmissions\<close>

text \<open>How often a frame can still be emitted: the retries its queue entry has left, and for a
  number not yet used the first transmission with a full budget.\<close>

definition emissions_left :: "bytes list \<Rightarrow> reliable_sender \<Rightarrow> reliable_frame \<Rightarrow> nat" where
  "emissions_left ps s f =
     (if length ps \<le> unat (rf_seq f) then Suc (unat (max_retransmissions (rs_policy s))) else 0) +
     sum_list (map (\<lambda>e. if re_frame e = f
        then unat (max_retransmissions (rs_policy s)) - unat (re_retransmissions e) else 0) (rs_queue s))"

lemma retransmit_sum:
  fixes m :: u32
  shows "count_list (map re_frame (filter (\<lambda>e. re_state e = TimedOut \<and> re_retransmissions e < m) q)) f +
     sum_list (map (\<lambda>e. if re_frame e = f then unat m - unat (re_retransmissions e) else 0)
       (map (\<lambda>e. if re_state e = TimedOut \<and> re_retransmissions e < m
          then e\<lparr>re_retransmissions := re_retransmissions e + 1, re_sent_at := now, re_state := Pending\<rparr> else e) q))
   = sum_list (map (\<lambda>e. if re_frame e = f then unat m - unat (re_retransmissions e) else 0) q)"
proof (induction q)
  case (Cons e q)
  have "unat (re_retransmissions e + 1) = Suc (unat (re_retransmissions e))" "unat (re_retransmissions e) < unat m"
    if "re_retransmissions e < m"
    using that unat_bound [of m] by (simp_all add: word_less_nat_alt unat_Suc_no_overflow)
  with Cons.IH show ?case by auto
qed simp

lemma drop_sum: "sum_list (map g (dropWhile P q)) \<le> (sum_list (map g q) :: nat)"
  by (induction q) auto

lemma mark_delivered_counts:
  "map (\<lambda>e. (re_frame e, re_retransmissions e)) (mark_delivered x q) = map (\<lambda>e. (re_frame e, re_retransmissions e)) q"
  by (induction q) simp_all

lemma mark_bits_counts:
  "map (\<lambda>e. (re_frame e, re_retransmissions e)) (mark_bits a q) = map (\<lambda>e. (re_frame e, re_retransmissions e)) q"
proof -
  have "map (\<lambda>e. (re_frame e, re_retransmissions e)) (fold (\<lambda>i q. if ack_bits a AND push_bit i 1 \<noteq> 0
           then mark_delivered (acked_seq a - (of_nat i + 1)) q else q) is q) =
        map (\<lambda>e. (re_frame e, re_retransmissions e)) q" for "is"
    by (induction "is" arbitrary: q) (simp_all add: mark_delivered_counts del: push_bit_of_1)
  then show ?thesis by (simp add: mark_bits_def)
qed

lemma ack_sum:
  "sum_list (map (\<lambda>e. if re_frame e = f then m - unat (re_retransmissions e) else 0) (rs_queue (snd (ack s a))))
   \<le> sum_list (map (\<lambda>e. if re_frame e = f then m - unat (re_retransmissions e) else 0) (rs_queue s))"
proof -
  let ?h = "\<lambda>e. if re_frame e = f then m - unat (re_retransmissions e) else 0"
  let ?g = "\<lambda>(fr, n). if fr = f then m - unat (n :: u32) else 0"
  let ?c = "\<lambda>e. (re_frame e, re_retransmissions e)"
  let ?q = "mark_bits a (mark_delivered (acked_seq a) (rs_queue s))"
  have "sum_list (map ?g (map ?c ?q)) = sum_list (map ?g (map ?c (rs_queue s)))"
    by (simp only: mark_bits_counts mark_delivered_counts)
  then have "sum_list (map ?h ?q) = sum_list (map ?h (rs_queue s))" by (simp add: o_def)
  moreover have "rs_queue (snd (ack s a)) = dropWhile (\<lambda>e. re_state e = Acked) ?q"
    by (simp add: ack_def Let_def case_prod_beta slide_base_queue)
  ultimately show ?thesis using drop_sum [of ?h "\<lambda>e. re_state e = Acked" ?q] by simp
qed

lemma emissions_step:
  assumes inv: "sender_inv ps s" and len: "length ps + 1 < 2 ^ 64"
  shows "count_list (fst (fst (sender_step s op))) f +
      emissions_left (ps @ snd (fst (sender_step s op))) (snd (sender_step s op)) f \<le> emissions_left ps s f"
proof (cases op)
  case (SendOp now p)
  have none: "sum_list (map (\<lambda>e. if re_frame e = f then m - unat (re_retransmissions e) else 0) (rs_queue s)) = 0"
    if "length ps \<le> unat (rf_seq f)" for m
  proof -
    have "re_frame e \<noteq> f" if e: "e \<in> set (rs_queue s)" for e
      using queue_frames_sent [OF inv e] \<open>length ps \<le> unat (rf_seq f)\<close> len by auto
    then show ?thesis by (auto intro!: sum_list_0)
  qed
  have u: "unat (of_nat (length ps) :: u64) = length ps" using len by simp
  show ?thesis
  proof (cases "length (rs_queue s) = unat (sw_window_size (rs_window s))")
    case True
    then have "sender_step s op = (([], []), s)" using send_cases [OF inv len, of now p] SendOp by simp
    then show ?thesis by simp
  next
    case False
    then obtain s' where s': "sender_step s op = (([payload_stream (ps @ [p]) (length ps)], [p]), s')"
      "rs_queue s' = rs_queue s @ [\<lparr>re_frame = payload_stream (ps @ [p]) (length ps), re_sent_at = now,
         re_retransmissions = 0, re_state = Pending\<rparr>]" "rs_policy s' = rs_policy s"
      using send_cases [OF inv len, of now p] SendOp by auto
    show ?thesis
      using none u by (cases "f = payload_stream (ps @ [p]) (length ps)")
        (auto simp: emissions_left_def s'(1-3) simp del: sender_step.simps cong: if_cong)
  qed
next
  case (AckOp a)
  then show ?thesis using ack_sum [of f "unat (max_retransmissions (rs_policy s))" s a] policy_window_kept [of s op]
    by (simp add: emissions_left_def cong: if_cong)
next
  case (TimeoutOp now)
  then show ?thesis by (simp add: emissions_left_def mark_timeout_def Let_def o_def if_distrib cong: if_cong)
next
  case (RetransmitOp now)
  then show ?thesis using retransmit_sum [of "max_retransmissions (rs_policy s)" "rs_queue s" f now]
    by (simp add: emissions_left_def retransmit_def Let_def o_def cong: if_cong)
qed

lemma emissions_run:
  "sender_inv ps s \<Longrightarrow> length ps + length ops < 2 ^ 64 \<Longrightarrow> count_list (sender_frames s ops) f \<le> emissions_left ps s f"
proof (induction ops arbitrary: ps s)
  case (Cons op ops)
  have l: "length ps + 1 < 2 ^ 64" using Cons.prems(2) by simp
  have "length (ps @ snd (fst (sender_step s op))) + length ops < 2 ^ 64"
    using sender_step_inv [OF Cons.prems(1) l, of op] Cons.prems(2) by simp
  with Cons.IH [of "ps @ snd (fst (sender_step s op))" "snd (sender_step s op)"]
    sender_step_inv [OF Cons.prems(1) l, of op] emissions_step [OF Cons.prems(1) l, of op f]
  show ?case by (simp add: sender_run_Cons count_list_append)
qed simp

text \<open>Over any run of a fresh sender, every frame is put on the wire at most
  \<open>1 + max_retransmissions\<close> times: the first transmission and the policy's retry budget.\<close>
theorem retransmission_budget:
  assumes "length ops < 2 ^ 64"
  shows "count_list (sender_frames (sender_new n p) ops) f \<le> Suc (unat (max_retransmissions p))"
  using emissions_run [OF sender_inv_new, of ops n p f] assms
  by (simp add: emissions_left_def sender_new_def)

theorem retransmission_budget_witness:
  "count_list (sender_frames (sender_new 4 demo_policy)
     [SendOp 0 [7], TimeoutOp 20, RetransmitOp 20, TimeoutOp 40, RetransmitOp 40]) \<lparr>rf_seq = 0, rf_payload = [7]\<rparr>
   \<le> Suc (unat (max_retransmissions demo_policy))"
  by (rule retransmission_budget) simp

end
