(* ===== verification/BW_Scheduler.thy ===== *)
theory BW_Scheduler
  imports BW_Prelude
begin

text \<open>
  The deficit round robin scheduler of \<^verbatim>\<open>bw-protocol\<close> (\<^verbatim>\<open>scheduler.rs\<close>).  The arrays over the
  seven streams are lists of length seven; the loop of \<open>dequeue_next\<close> is a partial function, so
  that not returning is the value \<open>None\<close>.
\<close>

definition NUM_STREAMS :: nat where
  "NUM_STREAMS = 7"

definition NUM_DRR_STREAMS :: nat where
  "NUM_DRR_STREAMS = NUM_STREAMS - 1"

definition DEFAULT_QUANTUM :: u64 where
  "DEFAULT_QUANTUM = 1500"

definition DEFAULT_WEIGHTS :: "u64 list" where
  "DEFAULT_WEIGHTS = [0, 6, 5, 3, 4, 2, 1]"

datatype scheduler_error = InvalidStreamId u8

record drr_scheduler =
  ds_queues :: "bytes list list"
  ds_deficits :: "u64 list"
  ds_weights :: "u64 list"
  ds_quantum :: u64
  ds_cursor :: nat
  ds_round_start :: nat
  ds_round :: u64
  ds_credited :: "u64 list"

definition with_quantum :: "u64 \<Rightarrow> drr_scheduler" where
  "with_quantum quantum = \<lparr>ds_queues = replicate NUM_STREAMS [], ds_deficits = replicate NUM_STREAMS 0,
     ds_weights = DEFAULT_WEIGHTS, ds_quantum = quantum, ds_cursor = 0, ds_round_start = 0, ds_round = 0,
     ds_credited = replicate NUM_STREAMS (- 1)\<rparr>"

definition scheduler_new :: drr_scheduler where
  "scheduler_new = with_quantum DEFAULT_QUANTUM"

definition stream_index :: "u8 \<Rightarrow> (nat, scheduler_error) outcome" where
  "stream_index stream_id =
     (let idx = unat stream_id in if idx \<ge> NUM_STREAMS then Err (InvalidStreamId stream_id) else Ok idx)"

definition enqueue :: "drr_scheduler \<Rightarrow> u8 \<Rightarrow> bytes \<Rightarrow> (unit, scheduler_error) outcome \<times> drr_scheduler" where
  "enqueue d stream_id data =
     (case stream_index stream_id of
        Ok idx \<Rightarrow> (Ok (), d\<lparr>ds_queues := (ds_queues d)[idx := ds_queues d ! idx @ [data]]\<rparr>)
      | Err e \<Rightarrow> (Err e, d)
      | Panic \<Rightarrow> (Panic, d))"

text \<open>
  One turn of the loop: the stream under the cursor is credited once per round and either
  serves its front packet or passes; a pass advances the cursor and, after a full circuit, the
  round.
\<close>

datatype turn = Served "u8 \<times> bytes" drr_scheduler | Passed drr_scheduler

definition drr_credit :: "drr_scheduler \<Rightarrow> nat \<Rightarrow> drr_scheduler" where
  "drr_credit d s =
     (if ds_credited d ! s \<noteq> ds_round d
      then d\<lparr>ds_deficits := (ds_deficits d)[s := ds_deficits d ! s + ds_weights d ! s * ds_quantum d],
             ds_credited := (ds_credited d)[s := ds_round d]\<rparr>
      else d)"

definition drr_turn :: "drr_scheduler \<Rightarrow> turn" where
  "drr_turn d =
     (let s = ds_cursor d + 1 in
      case ds_queues d ! s of
        [] \<Rightarrow> Passed (d\<lparr>ds_deficits := (ds_deficits d)[s := 0]\<rparr>)
      | data # rest \<Rightarrow>
          let d1 = drr_credit d s;
              front_len = of_nat (length data)
          in if front_len \<le> ds_deficits d1 ! s
             then Served (of_nat s, data)
                    (d1\<lparr>ds_queues := (ds_queues d1)[s := rest],
                        ds_deficits := (ds_deficits d1)[s := ds_deficits d1 ! s - front_len]\<rparr>)
             else Passed d1)"

definition drr_advance :: "drr_scheduler \<Rightarrow> drr_scheduler" where
  "drr_advance d =
     (let c = (ds_cursor d + 1) mod NUM_DRR_STREAMS
      in if c = ds_round_start d
         then d\<lparr>ds_cursor := c, ds_round := ds_round d + 1, ds_round_start := c\<rparr>
         else d\<lparr>ds_cursor := c\<rparr>)"

definition drr_idle :: "drr_scheduler \<Rightarrow> bool" where
  "drr_idle d \<longleftrightarrow> list_all (\<lambda>q. q = []) (drop 1 (ds_queues d))"

partial_function (option) drr_loop :: "drr_scheduler \<Rightarrow> ((u8 \<times> bytes) option \<times> drr_scheduler) option" where
  "drr_loop d =
     (case drr_turn d of
        Served r d' \<Rightarrow> Some (Some r, d')
      | Passed d' \<Rightarrow>
          let d2 = drr_advance d'
          in if drr_idle d2 then Some (None, d2) else drr_loop d2)"

definition dequeue_next :: "drr_scheduler \<Rightarrow> ((u8 \<times> bytes) option \<times> drr_scheduler) option" where
  "dequeue_next d =
     (case ds_queues d ! 0 of
        data # rest \<Rightarrow> Some (Some (0, data), d\<lparr>ds_queues := (ds_queues d)[0 := rest]\<rparr>)
      | [] \<Rightarrow> drr_loop d)"

definition sched_is_empty :: "drr_scheduler \<Rightarrow> bool" where
  "sched_is_empty d \<longleftrightarrow> list_all (\<lambda>q. q = []) (ds_queues d)"

definition sched_queue_depth :: "drr_scheduler \<Rightarrow> u8 \<Rightarrow> (nat, scheduler_error) outcome" where
  "sched_queue_depth d stream_id = obind (stream_index stream_id) (\<lambda>i. Ok (length (ds_queues d ! i)))"

definition sched_deficit :: "drr_scheduler \<Rightarrow> u8 \<Rightarrow> (u64, scheduler_error) outcome" where
  "sched_deficit d stream_id = obind (stream_index stream_id) (\<lambda>i. Ok (ds_deficits d ! i))"

section \<open>The invariant\<close>

abbreviation weight :: "nat \<Rightarrow> nat" where
  "weight s \<equiv> unat (DEFAULT_WEIGHTS ! s)"

definition wf_sched :: "nat \<Rightarrow> drr_scheduler \<Rightarrow> bool" where
  "wf_sched L d \<longleftrightarrow> length (ds_queues d) = 7 \<and> length (ds_deficits d) = 7 \<and> length (ds_credited d) = 7 \<and>
     ds_weights d = DEFAULT_WEIGHTS \<and> ds_cursor d < 6 \<and> ds_round_start d = 0 \<and>
     L + 6 * unat (ds_quantum d) < 2 ^ 64 \<and>
     (\<forall>s < 7. \<forall>p \<in> set (ds_queues d ! s). length p \<le> L)"

text \<open>A stream whose turn has not come in this round keeps less deficit than its front packet needs.\<close>

definition settled :: "drr_scheduler \<Rightarrow> nat \<Rightarrow> bool" where
  "settled d s \<longleftrightarrow> ds_deficits d ! s = 0 \<or>
     (ds_queues d ! s \<noteq> [] \<and> unat (ds_deficits d ! s) < length (hd (ds_queues d ! s)))"

definition stream_inv :: "nat \<Rightarrow> drr_scheduler \<Rightarrow> nat \<Rightarrow> bool" where
  "stream_inv L d s \<longleftrightarrow>
     (ds_cursor d + 1 = s \<and> ds_credited d ! s = ds_round d \<or> settled d s) \<and>
     unat (ds_deficits d ! s) \<le> L + weight s * unat (ds_quantum d) \<and>
     (ds_cursor d + 1 < s \<longrightarrow> ds_credited d ! s \<noteq> ds_round d) \<and>
     (ds_credited d ! s = - 1 \<or> ds_credited d ! s \<le> ds_round d)"

definition sched_inv :: "nat \<Rightarrow> drr_scheduler \<Rightarrow> bool" where
  "sched_inv L d \<longleftrightarrow> wf_sched L d \<and> (\<forall>s \<in> {1..6}. stream_inv L d s)"

section \<open>One turn\<close>

lemma weight_bounds: "s \<in> {1..6} \<Longrightarrow> 1 \<le> weight s \<and> weight s \<le> 6"
proof -
  assume "s \<in> {1..6}"
  then have "s = 1 \<or> s = 2 \<or> s = 3 \<or> s = 4 \<or> s = 5 \<or> s = 6" by auto
  then show ?thesis by (auto simp: DEFAULT_WEIGHTS_def)
qed

lemma wf_schedD:
  assumes "wf_sched L d"
  shows "length (ds_queues d) = 7" "length (ds_deficits d) = 7" "length (ds_credited d) = 7"
    "ds_weights d = DEFAULT_WEIGHTS" "ds_cursor d < 6" "ds_round_start d = 0" "L + 6 * unat (ds_quantum d) < 2 ^ 64"
  using assms by (auto simp: wf_sched_def)

lemma wf_sched_front: "wf_sched L d \<Longrightarrow> s < 7 \<Longrightarrow> ds_queues d ! s = data # rest \<Longrightarrow> length data \<le> L"
  by (auto simp: wf_sched_def)

lemma credit_amount:
  assumes "wf_sched L d" "s \<in> {1..6}"
  shows "unat (ds_weights d ! s * ds_quantum d) = weight s * unat (ds_quantum d)"
    and "L + weight s * unat (ds_quantum d) < 2 ^ 64"
proof -
  have "weight s * unat (ds_quantum d) \<le> 6 * unat (ds_quantum d)"
    using weight_bounds [OF assms(2)] by simp
  then show b: "L + weight s * unat (ds_quantum d) < 2 ^ 64" using wf_schedD(7) [OF assms(1)] by linarith
  then have "weight s * unat (ds_quantum d) < 2 ^ 64" by linarith
  then show "unat (ds_weights d ! s * ds_quantum d) = weight s * unat (ds_quantum d)"
    using wf_schedD(4) [OF assms(1)] by (simp add: unat_word_ariths)
qed

lemma settled_less:
  "wf_sched L d \<Longrightarrow> s < 7 \<Longrightarrow> settled d s \<Longrightarrow> unat (ds_deficits d ! s) \<le> L"
  using wf_sched_front [of L d s] by (cases "ds_queues d ! s") (fastforce simp: settled_def)+

lemma sched_invD: "sched_inv L d \<Longrightarrow> s \<in> {1..6} \<Longrightarrow> stream_inv L d s"
  by (simp add: sched_inv_def)

lemma credit_unfold:
  assumes "sched_inv L d" "s = ds_cursor d + 1"
  shows "unat (ds_deficits (drr_credit d s) ! s) =
      (if ds_credited d ! s \<noteq> ds_round d then unat (ds_deficits d ! s) + weight s * unat (ds_quantum d)
       else unat (ds_deficits d ! s))"
    and "unat (ds_deficits (drr_credit d s) ! s) \<le> L + weight s * unat (ds_quantum d)"
    and "ds_credited (drr_credit d s) = (ds_credited d)[s := ds_round d]"
    and "\<exists>x. ds_deficits (drr_credit d s) = (ds_deficits d)[s := x]"
proof -
  have wf: "wf_sched L d" and s: "s \<in> {1..6}" "s < 7"
    using assms wf_schedD(5) [of L d] by (auto simp: sched_inv_def)
  have st: "settled d s" if "ds_credited d ! s \<noteq> ds_round d"
    using sched_invD [OF assms(1) s(1)] that by (simp add: stream_inv_def)
  have bd: "unat (ds_deficits d ! s) \<le> L + weight s * unat (ds_quantum d)"
    using sched_invD [OF assms(1) s(1)] by (simp add: stream_inv_def)
  note ca = credit_amount [OF wf s(1)]
  have add: "unat (ds_deficits d ! s + ds_weights d ! s * ds_quantum d) =
      unat (ds_deficits d ! s) + weight s * unat (ds_quantum d)" if "ds_credited d ! s \<noteq> ds_round d"
    using settled_less [OF wf s(2) st [OF that]] ca by (subst unat_add_no_overflow) auto
  show "unat (ds_deficits (drr_credit d s) ! s) =
      (if ds_credited d ! s \<noteq> ds_round d then unat (ds_deficits d ! s) + weight s * unat (ds_quantum d)
       else unat (ds_deficits d ! s))"
    using add s wf_schedD(2) [OF wf] by (simp add: drr_credit_def)
  then show "unat (ds_deficits (drr_credit d s) ! s) \<le> L + weight s * unat (ds_quantum d)"
    using settled_less [OF wf s(2) st] bd by auto
  show "ds_credited (drr_credit d s) = (ds_credited d)[s := ds_round d]"
    by (simp add: drr_credit_def) (metis list_update_id)
  show "\<exists>x. ds_deficits (drr_credit d s) = (ds_deficits d)[s := x]"
    by (simp add: drr_credit_def) (metis list_update_id)
qed

lemma credit_fields [simp]:
  "ds_queues (drr_credit d s) = ds_queues d" "ds_weights (drr_credit d s) = ds_weights d"
  "ds_quantum (drr_credit d s) = ds_quantum d" "ds_cursor (drr_credit d s) = ds_cursor d"
  "ds_round_start (drr_credit d s) = ds_round_start d" "ds_round (drr_credit d s) = ds_round d"
  by (simp_all add: drr_credit_def)

text \<open>A served packet is the front of the stream under the cursor.\<close>

lemma turn_served:
  assumes inv: "sched_inv L d" and t: "drr_turn d = Served r d'"
  shows "\<exists>data rest. ds_queues d ! (ds_cursor d + 1) = data # rest \<and> r = (of_nat (ds_cursor d + 1), data) \<and>
     ds_queues d' = (ds_queues d)[ds_cursor d + 1 := rest] \<and> sched_inv L d' \<and> ds_round d' = ds_round d \<and>
     ds_quantum d' = ds_quantum d"
proof -
  define s where "s = ds_cursor d + 1"
  define d1 where "d1 = drr_credit d s"
  from t obtain data rest where q: "ds_queues d ! s = data # rest"
    by (auto simp: drr_turn_def Let_def s_def split: list.splits)
  with t have le: "of_nat (length data) \<le> ds_deficits d1 ! s" and r: "r = (of_nat s, data)"
    and d': "d' = d1\<lparr>ds_queues := (ds_queues d)[s := rest],
        ds_deficits := (ds_deficits d1)[s := ds_deficits d1 ! s - of_nat (length data)]\<rparr>"
    by (auto simp: drr_turn_def Let_def s_def d1_def split: if_splits)
  have wf: "wf_sched L d" using inv by (simp add: sched_inv_def)
  note w = wf_schedD [OF wf] and c = credit_unfold [OF inv s_def, folded d1_def]
  have s7: "s < 7" using w(5) by (simp add: s_def)
  obtain x where x: "ds_deficits d1 = (ds_deficits d)[s := x]" using c(4) by blast
  have f: "ds_cursor d1 = ds_cursor d" "ds_round d1 = ds_round d" "ds_quantum d1 = ds_quantum d"
    "ds_weights d1 = ds_weights d" "ds_round_start d1 = ds_round_start d" by (simp_all add: d1_def)
  have "unat (ds_deficits d1 ! s - of_nat (length data)) \<le> unat (ds_deficits d1 ! s)"
    using le by (simp add: word_leD_diff)
  then have b: "unat (ds_deficits d' ! s) \<le> L + weight s * unat (ds_quantum d)"
    using c(2) w s7 d' by (simp add: x)
  have oth: "ds_deficits d' ! i = ds_deficits d ! i \<and> ds_queues d' ! i = ds_queues d ! i \<and> ds_credited d' ! i = ds_credited d ! i"
    if "i \<noteq> s" for i using that d' c(3) by (simp add: x)
  have "wf_sched L d'"
    using wf d' c(3) f w q s7 by (auto simp: wf_sched_def x nth_list_update)
  moreover have here: "ds_credited d' ! s = ds_round d'" "ds_cursor d' = ds_cursor d" "ds_round d' = ds_round d"
    "ds_quantum d' = ds_quantum d" using d' c(3) f w s7 by simp_all
  moreover have "stream_inv L d' i" if "i \<in> {1..6}" for i
    using sched_invD [OF inv that] b here oth [of i]
    by (cases "i = s") (simp_all add: stream_inv_def settled_def s_def)
  ultimately show ?thesis using q r d' by (auto simp: sched_inv_def s_def)
qed

lemma advance_fields [simp]:
  "ds_queues (drr_advance d) = ds_queues d" "ds_deficits (drr_advance d) = ds_deficits d"
  "ds_weights (drr_advance d) = ds_weights d" "ds_quantum (drr_advance d) = ds_quantum d"
  "ds_credited (drr_advance d) = ds_credited d"
  by (simp_all add: drr_advance_def Let_def)

lemma advance_cursor:
  assumes "ds_cursor d < 6" "ds_round_start d = 0"
  shows "ds_cursor (drr_advance d) = (if ds_cursor d = 5 then 0 else ds_cursor d + 1)"
    "ds_round (drr_advance d) = (if ds_cursor d = 5 then ds_round d + 1 else ds_round d)"
    "ds_round_start (drr_advance d) = 0"
  using assms by (auto simp: drr_advance_def Let_def NUM_DRR_STREAMS_def NUM_STREAMS_def mod_Suc)

text \<open>A pass credits at most the stream under the cursor and leaves it settled.\<close>

lemma turn_passed:
  assumes inv: "sched_inv L d" and t: "drr_turn d = Passed d'"
  shows "ds_queues d' = ds_queues d \<and> ds_quantum d' = ds_quantum d \<and> ds_weights d' = ds_weights d \<and>
     ds_cursor d' = ds_cursor d \<and> ds_round d' = ds_round d \<and> ds_round_start d' = ds_round_start d \<and>
     length (ds_deficits d') = 7 \<and> length (ds_credited d') = 7 \<and> settled d' (ds_cursor d + 1) \<and>
     (\<forall>i. i \<noteq> ds_cursor d + 1 \<longrightarrow> ds_deficits d' ! i = ds_deficits d ! i \<and> ds_credited d' ! i = ds_credited d ! i) \<and>
     (ds_credited d' ! (ds_cursor d + 1) = ds_credited d ! (ds_cursor d + 1) \<or>
      ds_credited d' ! (ds_cursor d + 1) = ds_round d) \<and>
     (ds_queues d ! (ds_cursor d + 1) \<noteq> [] \<longrightarrow>
        unat (ds_deficits d' ! (ds_cursor d + 1)) < length (hd (ds_queues d ! (ds_cursor d + 1))) \<and>
        unat (ds_deficits d' ! (ds_cursor d + 1)) =
          (if ds_credited d ! (ds_cursor d + 1) \<noteq> ds_round d
           then unat (ds_deficits d ! (ds_cursor d + 1)) + weight (ds_cursor d + 1) * unat (ds_quantum d)
           else unat (ds_deficits d ! (ds_cursor d + 1))))"
proof -
  define s where "s = ds_cursor d + 1"
  have wf: "wf_sched L d" using inv by (simp add: sched_inv_def)
  note w = wf_schedD [OF wf]
  have s7: "s < 7" using w(5) by (simp add: s_def)
  show ?thesis
  proof (cases "ds_queues d ! s")
    case Nil
    then have "d' = d\<lparr>ds_deficits := (ds_deficits d)[s := 0]\<rparr>"
      using t by (simp add: drr_turn_def Let_def s_def)
    then show ?thesis using Nil w s7 unfolding s_def [symmetric] by (simp add: settled_def)
  next
    case (Cons data rest)
    define d1 where "d1 = drr_credit d s"
    note c = credit_unfold [OF inv s_def, folded d1_def]
    obtain x where x: "ds_deficits d1 = (ds_deficits d)[s := x]" using c(4) by blast
    from t Cons have d': "d' = d1" and nle: "\<not> of_nat (length data) \<le> ds_deficits d1 ! s"
      by (auto simp: drr_turn_def Let_def s_def d1_def split: if_splits)
    have "length data < 2 ^ 64" using wf_sched_front [OF wf s7 Cons] w(7) by simp
    then have lt: "unat (ds_deficits d1 ! s) < length data"
      using nle by (simp add: word_le_nat_alt unat_of_nat take_bit_nat_eq_self)
    show ?thesis
      unfolding s_def [symmetric] d'
      using Cons w s7 lt c(1,3) by (auto simp: settled_def x) (auto simp: d1_def)
  qed
qed

lemma max_word_neq: "unat (r :: u64) + 1 < 2 ^ 64 - 1 \<Longrightarrow> r + 1 \<noteq> - 1"
proof -
  assume a: "unat r + 1 < 2 ^ 64 - 1"
  have u: "unat (r + 1) = unat r + 1" "unat (- 1 :: u64) = 2 ^ 64 - 1"
    using a by (simp_all add: unat_Suc_no_overflow unsigned_minus_1_eq_mask mask_eq_exp_minus_1)
  have "unat (r + 1) \<noteq> unat (- 1 :: u64)" using a unfolding u by simp
  then show ?thesis by metis
qed

lemma advance_inv:
  assumes inv: "sched_inv L d" and t: "drr_turn d = Passed d'" and ov: "unat (ds_round d) + 1 < 2 ^ 64 - 1"
  shows "sched_inv L (drr_advance d')"
proof -
  note p = turn_passed [OF inv t]
  have wf: "wf_sched L d" using inv by (simp add: sched_inv_def)
  note w = wf_schedD [OF wf]
  have ac: "ds_cursor (drr_advance d') = (if ds_cursor d = 5 then 0 else ds_cursor d + 1)"
    "ds_round (drr_advance d') = (if ds_cursor d = 5 then ds_round d + 1 else ds_round d)"
    "ds_round_start (drr_advance d') = 0"
    using advance_cursor [of d'] p w by auto
  have "wf_sched L (drr_advance d')" using wf p ac w by (simp add: wf_sched_def)
  moreover have "stream_inv L (drr_advance d') i" if i: "i \<in> {1..6}" for i
  proof -
    note si = sched_invD [OF inv i]
    have u: "unat (ds_round d + 1) = unat (ds_round d) + 1" using ov by (simp add: unat_Suc_no_overflow)
    note ne = max_word_neq [OF ov]
    have le: "ds_round d \<le> ds_round d + 1" "\<not> ds_round d + 1 \<le> ds_round d"
      using u by (simp_all add: word_le_nat_alt)
    have st: "settled (drr_advance d') i"
      using p si by (cases "i = ds_cursor d + 1") (auto simp: settled_def stream_inv_def)
    have "unat (ds_deficits (drr_advance d') ! i) \<le> L"
      using settled_less [OF \<open>wf_sched L (drr_advance d')\<close> _ st] i by simp
    moreover have cr: "ds_credited d' ! i = - 1 \<or> ds_credited d' ! i \<le> ds_round d"
      using p si by (cases "i = ds_cursor d + 1") (auto simp: stream_inv_def)
    ultimately show ?thesis
      using st p si ac le ne unfolding stream_inv_def by (auto intro: order_trans)
  qed
  ultimately show ?thesis by (simp add: sched_inv_def)
qed

section \<open>The loop ends\<close>

text \<open>
  For a backlogged stream: the bytes of credit its front packet lacks, whether its turn of this
  round is over, and the turns until it is credited next.
\<close>

definition gap :: "drr_scheduler \<Rightarrow> nat \<Rightarrow> nat" where
  "gap d s = length (hd (ds_queues d ! s)) - unat (ds_deficits d ! s)"

definition late :: "drr_scheduler \<Rightarrow> nat \<Rightarrow> bool" where
  "late d s \<longleftrightarrow> s < ds_cursor d + 1 \<or> (ds_cursor d + 1 = s \<and> ds_credited d ! s = ds_round d)"

definition dist :: "drr_scheduler \<Rightarrow> nat \<Rightarrow> nat" where
  "dist d s = (if late d s then 6 - (ds_cursor d + 1) + s else s - (ds_cursor d + 1))"

lemma gap_le: "wf_sched L d \<Longrightarrow> s < 7 \<Longrightarrow> ds_queues d ! s \<noteq> [] \<Longrightarrow> gap d s \<le> L"
  using wf_sched_front [of L d s] by (cases "ds_queues d ! s") (auto simp: gap_def intro: diff_le_self [THEN order_trans])

lemma loop_progress:
  assumes inv: "sched_inv L d" and t: "drr_turn d = Passed d'" and ov: "unat (ds_round d) + 1 < 2 ^ 64 - 1"
    and s: "s \<in> {1..6}" "ds_queues d ! s \<noteq> []" and q: "0 < ds_quantum d"
  shows "6 * gap (drr_advance d') s + dist (drr_advance d') s < 6 * gap d s + dist d s \<and>
    unat (ds_round (drr_advance d')) + gap (drr_advance d') s + of_bool (late (drr_advance d') s)
      \<le> unat (ds_round d) + gap d s + of_bool (late d s)"
proof -
  note p = turn_passed [OF inv t]
  have wf: "wf_sched L d" using inv by (simp add: sched_inv_def)
  note w = wf_schedD [OF wf]
  have ac: "ds_cursor (drr_advance d') = (if ds_cursor d = 5 then 0 else ds_cursor d + 1)"
    "ds_round (drr_advance d') = (if ds_cursor d = 5 then ds_round d + 1 else ds_round d)"
    using advance_cursor [of d'] p w by auto
  have u: "unat (ds_round d + 1) = unat (ds_round d) + 1" using ov by (simp add: unat_Suc_no_overflow)
  have q1: "1 \<le> weight s * unat (ds_quantum d)"
    using weight_bounds [OF s(1)] q by (simp add: word_less_nat_alt Suc_le_eq)
  have si: "ds_cursor d + 1 < s \<longrightarrow> ds_credited d ! s \<noteq> ds_round d"
    using sched_invD [OF inv s(1)] by (simp add: stream_inv_def)
  have i2: "ds_cursor (drr_advance d') + 1 < s \<longrightarrow> ds_credited (drr_advance d') ! s \<noteq> ds_round (drr_advance d')"
    "ds_credited (drr_advance d') ! s = - 1 \<or> ds_credited (drr_advance d') ! s \<le> ds_round (drr_advance d')"
    using sched_invD [OF advance_inv [OF inv t ov] s(1)] by (simp_all add: stream_inv_def)
  have c6: "ds_cursor d < 6" using w by simp
  have ne: "ds_credited d' ! s \<noteq> ds_round d + 1"
    using ov u sched_invD [OF inv s(1)] p max_word_neq [OF ov]
    by (cases "s = ds_cursor d + 1") (auto simp: stream_inv_def word_le_nat_alt)
  consider (here) "ds_cursor d + 1 = s" | (before) "ds_cursor d + 1 < s" | (after) "s < ds_cursor d + 1" by linarith
  then show ?thesis
  proof cases
    case here
    define C where "C = weight s * unat (ds_quantum d)"
    have "unat (ds_deficits d' ! s) < length (hd (ds_queues d ! s)) \<and> unat (ds_deficits d' ! s) =
        (if ds_credited d ! s \<noteq> ds_round d then unat (ds_deficits d ! s) + C else unat (ds_deficits d ! s))"
      using p s(2) unfolding here C_def by blast
    moreover have "1 \<le> C" using q1 by (simp only: C_def)
    ultimately have "gap (drr_advance d') s + (if ds_credited d ! s \<noteq> ds_round d then 1 else 0) \<le> gap d s"
      using p by (auto simp: gap_def)
    then show ?thesis using here ac u c6 ne s(1) by (auto simp: dist_def late_def)
  next
    case before
    then have "gap (drr_advance d') s = gap d s" using p by (simp add: gap_def)
    then show ?thesis using before ac u c6 si s(1) p by (auto simp: dist_def late_def)
  next
    case after
    then have "gap (drr_advance d') s = gap d s" using p by (simp add: gap_def)
    then show ?thesis using after ac u c6 ne s(1) p by (auto simp: dist_def late_def)
  qed
qed

lemma loop_returns:
  assumes "s \<in> {1..6}"
  shows "sched_inv L d \<Longrightarrow> ds_queues d ! s \<noteq> [] \<Longrightarrow> 0 < ds_quantum d \<Longrightarrow>
    unat (ds_round d) + gap d s + of_bool (late d s) < 2 ^ 64 - 2 \<Longrightarrow>
    \<exists>i data rest d'. drr_loop d = Some (Some (of_nat i, data), d') \<and> i \<in> {1..6} \<and>
      ds_queues d ! i = data # rest \<and> ds_queues d' = (ds_queues d)[i := rest] \<and> sched_inv L d' \<and>
      ds_quantum d' = ds_quantum d \<and> unat (ds_round d') \<le> unat (ds_round d) + gap d s + of_bool (late d s)"
proof (induction "6 * gap d s + dist d s" arbitrary: d rule: less_induct)
  case less
  note inv = less.prems(1)
  have w: "ds_cursor d < 6" using inv by (auto simp: sched_inv_def wf_sched_def)
  show ?case
  proof (cases "drr_turn d")
    case (Served r d')
    from turn_served [OF inv Served] obtain data rest where "ds_queues d ! (ds_cursor d + 1) = data # rest"
      "r = (of_nat (ds_cursor d + 1), data)" "ds_queues d' = (ds_queues d)[ds_cursor d + 1 := rest]"
      "sched_inv L d'" "ds_round d' = ds_round d" "ds_quantum d' = ds_quantum d" by blast
    moreover have "drr_loop d = Some (Some r, d')" using Served by (simp add: drr_loop.simps)
    moreover have "ds_cursor d + 1 \<in> {1..6}" using w by simp
    ultimately show ?thesis
      by (intro exI [of _ "ds_cursor d + 1"] exI [of _ data] exI [of _ rest] exI [of _ d']) simp
  next
    case (Passed d')
    let ?d2 = "drr_advance d'"
    have ov: "unat (ds_round d) + 1 < 2 ^ 64 - 1" using less.prems(4) by simp
    note pr = loop_progress [OF inv Passed ov assms less.prems(2,3)]
    note p = turn_passed [OF inv Passed]
    have i2: "sched_inv L ?d2" by (rule advance_inv [OF inv Passed ov])
    have "ds_queues ?d2 ! s \<in> set (drop 1 (ds_queues ?d2))"
      using assms i2 by (auto simp: sched_inv_def wf_sched_def in_set_conv_nth intro!: exI [of _ "s - 1"])
    then have ni: "\<not> drr_idle ?d2" using p less.prems(2) by (auto simp: drr_idle_def list_all_iff)
    have pr2: "unat (ds_round ?d2) + gap ?d2 s + of_bool (late ?d2 s) < 2 ^ 64 - 2"
      using pr less.prems(4) by linarith
    obtain i data rest e where "drr_loop ?d2 = Some (Some (of_nat i, data), e)" "i \<in> {1..6}"
      "ds_queues ?d2 ! i = data # rest" "ds_queues e = (ds_queues ?d2)[i := rest]" "sched_inv L e"
      "ds_quantum e = ds_quantum ?d2" "unat (ds_round e) \<le> unat (ds_round ?d2) + gap ?d2 s + of_bool (late ?d2 s)"
      using less.hyps [OF conjunct1 [OF pr] i2 _ _ pr2] p less.prems(2,3) by auto
    moreover have "drr_loop d = drr_loop ?d2" using Passed ni by (subst drr_loop.simps) (simp add: Let_def)
    ultimately show ?thesis using p pr
      by (intro exI [of _ i] exI [of _ data] exI [of _ rest] exI [of _ e]) auto
  qed
qed

lemma loop_idle:
  assumes "sched_inv L d" "drr_idle d" "unat (ds_round d) + 1 < 2 ^ 64 - 1"
  shows "\<exists>d'. drr_loop d = Some (None, d') \<and> ds_queues d' = ds_queues d \<and> sched_inv L d' \<and>
    ds_quantum d' = ds_quantum d \<and> unat (ds_round d') \<le> unat (ds_round d) + 1"
proof -
  have w: "length (ds_queues d) = 7" "ds_cursor d < 6" "ds_round_start d = 0"
    using assms(1) by (auto simp: sched_inv_def wf_sched_def)
  have "ds_queues d ! (ds_cursor d + 1) \<in> set (drop 1 (ds_queues d))"
    using w by (auto simp: in_set_conv_nth intro!: exI [of _ "ds_cursor d"])
  then have "ds_queues d ! (ds_cursor d + 1) = []" using assms(2) by (auto simp: drr_idle_def list_all_iff)
  then obtain d' where t: "drr_turn d = Passed d'" by (simp add: drr_turn_def Let_def)
  note p = turn_passed [OF assms(1) t]
  have "drr_idle (drr_advance d')" using p assms(2) by (simp add: drr_idle_def)
  moreover have "unat (ds_round (drr_advance d')) \<le> unat (ds_round d) + 1"
    using advance_cursor(2) [of d'] p w assms(3) by (simp add: unat_Suc_no_overflow)
  ultimately show ?thesis using t p advance_inv [OF assms(1) t assms(3)]
    by (subst drr_loop.simps) (simp add: Let_def)
qed

section \<open>Runs of the scheduler\<close>

lemma sched_inv_new: "L + 6 * unat q < 2 ^ 64 \<Longrightarrow> sched_inv L (with_quantum q)"
proof -
  assume "L + 6 * unat q < 2 ^ 64"
  moreover have "(replicate 7 [] ! s :: bytes list) = []" if "s < 7" for s using that by simp
  ultimately show ?thesis
    by (auto simp: sched_inv_def wf_sched_def stream_inv_def settled_def with_quantum_def NUM_STREAMS_def)
qed

lemma enqueue_inv [inv_intros]:
  assumes inv: "sched_inv L d" and p: "length p \<le> L"
  shows "sched_inv L (snd (enqueue d i p))"
proof (cases "unat i < 7")
  case True
  let ?d = "snd (enqueue d i p)"
  have d: "?d = d\<lparr>ds_queues := (ds_queues d)[unat i := ds_queues d ! unat i @ [p]]\<rparr>"
    using True by (simp add: enqueue_def stream_index_def NUM_STREAMS_def Let_def)
  have wf: "wf_sched L d" using inv by (simp add: sched_inv_def)
  then have "wf_sched L ?d" using p True by (auto simp: d wf_sched_def nth_list_update)
  moreover have "settled ?d s" if "settled d s" "s < 7" for s
    using that wf_schedD(1) [OF wf] True by (auto simp: settled_def d nth_list_update)
  ultimately show ?thesis
    using inv by (auto simp: sched_inv_def stream_inv_def d)
next
  case False
  then show ?thesis using inv by (simp add: enqueue_def stream_index_def NUM_STREAMS_def Let_def)
qed

lemma enqueue_fields:
  "ds_quantum (snd (enqueue d i p)) = ds_quantum d" "ds_round (snd (enqueue d i p)) = ds_round d"
  "ds_queues (snd (enqueue d i p)) =
     (if unat i < 7 then (ds_queues d)[unat i := ds_queues d ! unat i @ [p]] else ds_queues d)"
  by (simp_all add: enqueue_def stream_index_def NUM_STREAMS_def Let_def)

lemma pop_control_inv:
  assumes inv: "sched_inv L d" and q: "ds_queues d ! 0 = data # rest"
  shows "sched_inv L (d\<lparr>ds_queues := (ds_queues d)[0 := rest]\<rparr>)"
proof -
  have "\<forall>p \<in> set (ds_queues d ! 0). length p \<le> L"
    using inv unfolding sched_inv_def wf_sched_def by (meson zero_less_numeral)
  then have "wf_sched L (d\<lparr>ds_queues := (ds_queues d)[0 := rest]\<rparr>)"
    using inv q by (auto simp: sched_inv_def wf_sched_def nth_list_update)
  then show ?thesis using inv by (auto simp: sched_inv_def stream_inv_def settled_def)
qed

lemma dequeue_returns:
  assumes inv: "sched_inv L d" and q: "0 < ds_quantum d" and ov: "unat (ds_round d) + L + 1 < 2 ^ 64 - 2"
  shows "\<exists>r d'. dequeue_next d = Some (r, d') \<and> sched_inv L d' \<and> ds_quantum d' = ds_quantum d \<and>
    unat (ds_round d') \<le> unat (ds_round d) + L + 1 \<and>
    (case r of
       None \<Rightarrow> sched_is_empty d \<and> ds_queues d' = ds_queues d
     | Some (i, p) \<Rightarrow> unat i < 7 \<and> (\<exists>rest. ds_queues d ! unat i = p # rest \<and> ds_queues d' = (ds_queues d)[unat i := rest]) \<and>
         (i = 0 \<longleftrightarrow> ds_queues d ! 0 \<noteq> []))"
proof (cases "ds_queues d ! 0")
  case (Cons data rest)
  then show ?thesis using pop_control_inv [OF inv Cons] by (simp add: dequeue_next_def)
next
  case Nil
  have len: "length (ds_queues d) = 7" using inv by (simp add: sched_inv_def wf_sched_def)
  show ?thesis
  proof (cases "drr_idle d")
    case True
    have "sched_is_empty d"
      using True Nil len by (cases "ds_queues d") (auto simp: sched_is_empty_def drr_idle_def)
    with loop_idle [OF inv True] ov Nil show ?thesis by (fastforce simp: dequeue_next_def)
  next
    case False
    then obtain k where k: "k < length (drop 1 (ds_queues d))" "drop 1 (ds_queues d) ! k \<noteq> []"
      by (auto simp: drr_idle_def list_all_iff in_set_conv_nth)
    define s where "s = k + 1"
    have s: "s \<in> {1..6}" "ds_queues d ! s \<noteq> []" using k len by (auto simp: s_def)
    have wf: "wf_sched L d" using inv by (simp add: sched_inv_def)
    have g: "gap d s \<le> L" using gap_le [OF wf _ s(2)] s(1) by simp
    have bd: "unat (ds_round d) + gap d s + of_bool (late d s) \<le> unat (ds_round d) + L + 1"
      using g by (simp add: of_bool_def)
    obtain i data rest d' where l: "drr_loop d = Some (Some (of_nat i, data), d')" "i \<in> {1..6}"
      "ds_queues d ! i = data # rest" "ds_queues d' = (ds_queues d)[i := rest]" "sched_inv L d'"
      "ds_quantum d' = ds_quantum d" "unat (ds_round d') \<le> unat (ds_round d) + gap d s + of_bool (late d s)"
      using loop_returns [OF s(1) inv s(2) q] bd ov by auto
    have u: "unat (of_nat i :: u8) = i" using l(2) by (simp add: unat_of_nat take_bit_nat_eq_self)
    then have "(of_nat i :: u8) \<noteq> 0" using l(2) by (metis atLeastAtMost_iff not_one_le_zero unat_0)
    with l u bd Nil show ?thesis by (auto simp: dequeue_next_def)
  qed
qed

datatype sched_op = Enqueue u8 bytes | Dequeue

text \<open>The payloads served by a sequence of calls and the scheduler after it.\<close>

fun sched_run :: "drr_scheduler \<Rightarrow> sched_op list \<Rightarrow> ((u8 \<times> bytes) list \<times> drr_scheduler) option" where
  "sched_run d [] = Some ([], d)"
| "sched_run d (Enqueue i p # ops) = sched_run (snd (enqueue d i p)) ops"
| "sched_run d (Dequeue # ops) =
     (case dequeue_next d of
        None \<Rightarrow> None
      | Some (r, d') \<Rightarrow>
          (case sched_run d' ops of
             None \<Rightarrow> None
           | Some (out, e) \<Rightarrow> Some ((case r of None \<Rightarrow> [] | Some x \<Rightarrow> [x]) @ out, e)))"

fun enqueued_on :: "nat \<Rightarrow> sched_op list \<Rightarrow> bytes list" where
  "enqueued_on s [] = []"
| "enqueued_on s (Enqueue i p # ops) = (if unat i = s then p # enqueued_on s ops else enqueued_on s ops)"
| "enqueued_on s (Dequeue # ops) = enqueued_on s ops"

definition served_on :: "nat \<Rightarrow> (u8 \<times> bytes) list \<Rightarrow> bytes list" where
  "served_on s out = map snd (filter (\<lambda>(i, p). unat i = s) out)"

fun op_fits :: "nat \<Rightarrow> sched_op \<Rightarrow> bool" where
  "op_fits L (Enqueue i p) \<longleftrightarrow> length p \<le> L"
| "op_fits L Dequeue \<longleftrightarrow> True"

lemma sched_run_total:
  "sched_inv L d \<Longrightarrow> 0 < ds_quantum d \<Longrightarrow> list_all (op_fits L) ops \<Longrightarrow>
   unat (ds_round d) + length ops * (L + 1) < 2 ^ 64 - 2 \<Longrightarrow>
   \<exists>out e. sched_run d ops = Some (out, e) \<and> sched_inv L e \<and> ds_quantum e = ds_quantum d \<and>
     unat (ds_round e) \<le> unat (ds_round d) + length ops * (L + 1) \<and>
     (\<forall>s < 7. ds_queues d ! s @ enqueued_on s ops = served_on s out @ ds_queues e ! s)"
proof (induction ops arbitrary: d)
  case Nil
  then show ?case by (simp add: served_on_def)
next
  case (Cons op ops)
  have len: "length (ds_queues d) = 7" using Cons.prems(1) by (simp add: sched_inv_def wf_sched_def)
  show ?case
  proof (cases op)
    case (Enqueue i p)
    let ?d = "snd (enqueue d i p)"
    have "sched_inv L ?d" using Cons.prems Enqueue by (intro enqueue_inv) auto
    then obtain out e where "sched_run ?d ops = Some (out, e)" "sched_inv L e" "ds_quantum e = ds_quantum d"
      "unat (ds_round e) \<le> unat (ds_round d) + length ops * (L + 1)"
      "\<forall>s < 7. ds_queues ?d ! s @ enqueued_on s ops = served_on s out @ ds_queues e ! s"
      using Cons.IH [of ?d] Cons.prems by (auto simp: enqueue_fields(1,2))
    moreover have "ds_queues ?d ! s = ds_queues d ! s @ (if unat i = s then [p] else [])" if "s < 7" for s
      using that len by (auto simp: enqueue_fields(3) nth_list_update)
    ultimately show ?thesis using Enqueue by auto
  next
    case Dequeue
    have "unat (ds_round d) + L + 1 < 2 ^ 64 - 2" using Cons.prems(4) by simp
    from dequeue_returns [OF Cons.prems(1,2) this] obtain r d' where
      r: "dequeue_next d = Some (r, d')" "sched_inv L d'" "ds_quantum d' = ds_quantum d"
      "unat (ds_round d') \<le> unat (ds_round d) + L + 1"
      and c: "case r of None \<Rightarrow> sched_is_empty d \<and> ds_queues d' = ds_queues d
        | Some (i, p) \<Rightarrow> unat i < 7 \<and> (\<exists>rest. ds_queues d ! unat i = p # rest \<and> ds_queues d' = (ds_queues d)[unat i := rest]) \<and>
           (i = 0 \<longleftrightarrow> ds_queues d ! 0 \<noteq> [])" by blast
    have bd: "unat (ds_round d') + length ops * (L + 1) \<le> unat (ds_round d) + length (op # ops) * (L + 1)"
      using r(4) by simp
    obtain out e where t: "sched_run d' ops = Some (out, e)" "sched_inv L e" "ds_quantum e = ds_quantum d"
      "unat (ds_round e) \<le> unat (ds_round d') + length ops * (L + 1)"
      "\<forall>s < 7. ds_queues d' ! s @ enqueued_on s ops = served_on s out @ ds_queues e ! s"
      using Cons.IH [OF r(2)] Cons.prems r(3) bd by auto
    have "ds_queues d ! s = served_on s (case r of None \<Rightarrow> [] | Some x \<Rightarrow> [x]) @ ds_queues d' ! s" if "s < 7" for s
      using c that len by (auto simp: served_on_def nth_list_update split: option.splits)
    moreover have "served_on s (xs @ ys) = served_on s xs @ served_on s ys" for s xs ys by (simp add: served_on_def)
    ultimately show ?thesis using Dequeue r(1) t bd by auto
  qed
qed

text \<open>C24: For any sequence of \<open>enqueue\<close> and \<open>dequeue_next\<close> calls on a scheduler with a positive
  quantum, every call returns, and on each of the seven streams the payloads served, followed by
  those still queued, are exactly the payloads enqueued there, in order: nothing is lost,
  duplicated, reordered within a stream or moved to another stream.  The bounds exclude only wrap-around
  of the 64-bit deficit and round counters.\<close>
theorem scheduler_fifo:
  assumes "0 < q" "L + 6 * unat q < 2 ^ 64" "list_all (op_fits L) ops" "length ops * (L + 1) < 2 ^ 64 - 2"
  shows "\<exists>out d. sched_run (with_quantum q) ops = Some (out, d) \<and>
    (\<forall>s < 7. enqueued_on s ops = served_on s out @ ds_queues d ! s)"
proof -
  have "ds_queues (with_quantum q) ! s = []" if "s < 7" for s using that by (simp add: with_quantum_def NUM_STREAMS_def)
  with sched_run_total [OF sched_inv_new [OF assms(2)], of ops] assms show ?thesis
    by (fastforce simp: with_quantum_def)
qed

theorem scheduler_fifo_witness:
  "\<exists>out d. sched_run (with_quantum 2) [Enqueue 6 [1, 2, 3], Enqueue 0 [4], Dequeue, Enqueue 9 [5], Dequeue, Dequeue] = Some (out, d) \<and>
    (\<forall>s < 7. enqueued_on s [Enqueue 6 [1, 2, 3], Enqueue 0 [4], Dequeue, Enqueue 9 [5], Dequeue, Dequeue] =
       served_on s out @ ds_queues d ! s)"
  by (rule scheduler_fifo [where L = 3]) simp_all

text \<open>C25: In every reachable state \<open>dequeue_next\<close> returns, it reports \<open>None\<close> exactly when all
  queues are empty, and while the control stream 0 is backlogged it serves the front of that stream
  before anything else.\<close>
theorem scheduler_priority:
  assumes "0 < q" "L + 6 * unat q < 2 ^ 64" "list_all (op_fits L) ops" "(length ops + 1) * (L + 1) < 2 ^ 64 - 2"
  shows "\<exists>out d r d'. sched_run (with_quantum q) ops = Some (out, d) \<and> dequeue_next d = Some (r, d') \<and>
    (r = None \<longleftrightarrow> sched_is_empty d) \<and>
    (ds_queues d ! 0 \<noteq> [] \<longrightarrow> r = Some (0, hd (ds_queues d ! 0)))"
proof -
  obtain out d where d: "sched_run (with_quantum q) ops = Some (out, d)" "sched_inv L d" "ds_quantum d = q"
    "unat (ds_round d) \<le> length ops * (L + 1)"
    using sched_run_total [OF sched_inv_new [OF assms(2)], of ops] assms by (auto simp: with_quantum_def)
  have len: "length (ds_queues d) = 7" using d(2) by (simp add: sched_inv_def wf_sched_def)
  have ov: "unat (ds_round d) + L + 1 < 2 ^ 64 - 2" using d(4) assms(4) by simp
  obtain r d' where r: "dequeue_next d = Some (r, d')"
    and c: "case r of None \<Rightarrow> sched_is_empty d \<and> ds_queues d' = ds_queues d
      | Some (i, p) \<Rightarrow> unat i < 7 \<and> (\<exists>rest. ds_queues d ! unat i = p # rest \<and> ds_queues d' = (ds_queues d)[unat i := rest]) \<and>
         (i = 0 \<longleftrightarrow> ds_queues d ! 0 \<noteq> [])"
    using dequeue_returns [OF d(2) _ ov] d(3) assms(1) by blast
  have "\<not> sched_is_empty d" if "r = Some (i, p)" for i p
    using c that len by (auto simp: sched_is_empty_def list_all_length)
  then have "r = None \<longleftrightarrow> sched_is_empty d" using c by (cases r) auto
  moreover have "ds_queues d ! 0 \<noteq> [] \<longrightarrow> r = Some (0, hd (ds_queues d ! 0))"
    using c len by (cases r) (auto simp: sched_is_empty_def list_all_length)
  ultimately show ?thesis using d(1) r by blast
qed

theorem scheduler_priority_witness:
  "\<exists>out d r d'. sched_run (with_quantum 2) [Enqueue 6 [1, 2, 3], Enqueue 0 [4]] = Some (out, d) \<and>
    dequeue_next d = Some (r, d') \<and> (r = None \<longleftrightarrow> sched_is_empty d) \<and>
    (ds_queues d ! 0 \<noteq> [] \<longrightarrow> r = Some (0, hd (ds_queues d ! 0)))"
  by (rule scheduler_priority [where L = 3]) simp_all

text \<open>In every reachable state the deficit of a weighted stream is at most its per-round credit
  \<open>weight * quantum\<close> plus the largest payload size: no stream can save up credit for a longer
  burst, and the 64-bit deficit never wraps.\<close>
theorem scheduler_deficit_bound:
  assumes "0 < q" "L + 6 * unat q < 2 ^ 64" "list_all (op_fits L) ops" "length ops * (L + 1) < 2 ^ 64 - 2"
  shows "\<exists>out d. sched_run (with_quantum q) ops = Some (out, d) \<and>
    (\<forall>s \<in> {1..6}. unat (ds_deficits d ! s) \<le> L + unat (DEFAULT_WEIGHTS ! s) * unat q)"
proof -
  obtain out d where d: "sched_run (with_quantum q) ops = Some (out, d)" "sched_inv L d" "ds_quantum d = q"
    using sched_run_total [OF sched_inv_new [OF assms(2)], of ops] assms by (auto simp: with_quantum_def)
  then show ?thesis using sched_invD [OF d(2)] by (auto simp: stream_inv_def)
qed

theorem scheduler_deficit_bound_witness:
  "\<exists>out d. sched_run (with_quantum 2) [Enqueue 6 [1, 2, 3], Dequeue] = Some (out, d) \<and>
    (\<forall>s \<in> {1..6}. unat (ds_deficits d ! s) \<le> 3 + unat (DEFAULT_WEIGHTS ! s) * unat (2 :: u64))"
  by (rule scheduler_deficit_bound) simp_all

section \<open>A zero quantum\<close>

definition starved :: "drr_scheduler \<Rightarrow> bool" where
  "starved d \<longleftrightarrow> ds_quantum d = 0 \<and> length (ds_queues d) = 7 \<and> length (ds_deficits d) = 7 \<and> ds_cursor d < 6 \<and>
     ds_round_start d = 0 \<and> (\<forall>s \<in> {1..6}. ds_deficits d ! s = 0) \<and> (\<exists>s \<in> {1..6}. ds_queues d ! s \<noteq> []) \<and>
     (\<forall>s \<in> {1..6}. \<forall>p \<in> set (ds_queues d ! s). p \<noteq> [] \<and> length p < 2 ^ 64)"

lemma starved_turn:
  assumes "starved d"
  shows "\<exists>d'. drr_turn d = Passed d' \<and> starved (drr_advance d') \<and> \<not> drr_idle (drr_advance d')"
proof -
  define s where "s = ds_cursor d + 1"
  have s: "s \<in> {1..6}" "s < 7" using assms by (auto simp: starved_def s_def)
  have z: "ds_deficits (drr_credit d s) ! s = 0"
    using assms s by (auto simp: starved_def drr_credit_def)
  have "\<exists>d'. drr_turn d = Passed d' \<and> starved d'"
  proof (cases "ds_queues d ! s")
    case Nil
    have "starved (d\<lparr>ds_deficits := (ds_deficits d)[s := 0]\<rparr>)"
      using assms s by (auto simp: starved_def nth_list_update)
    with Nil show ?thesis by (simp add: drr_turn_def Let_def s_def)
  next
    case (Cons data rest)
    then have "data \<noteq> []" "length data < 2 ^ 64" using assms s(1) unfolding starved_def by (metis list.set_intros(1))+
    then have "\<not> of_nat (length data) \<le> ds_deficits (drr_credit d s) ! s"
      by (simp add: z word_le_nat_alt unat_of_nat take_bit_nat_eq_self)
    moreover have "starved (drr_credit d s)"
      using assms s by (auto simp: starved_def drr_credit_def nth_list_update)
    ultimately show ?thesis using Cons by (simp add: drr_turn_def Let_def s_def)
  qed
  then obtain d' where d': "drr_turn d = Passed d'" "starved d'" by blast
  then have st: "starved (drr_advance d')"
    using advance_cursor [of d'] by (auto simp: starved_def)
  then obtain k where "k \<in> {1..6}" "ds_queues (drr_advance d') ! k \<noteq> []" "length (ds_queues (drr_advance d')) = 7"
    unfolding starved_def by blast
  then have "\<not> drr_idle (drr_advance d')"
    by (auto simp: drr_idle_def list_all_length intro!: exI [of _ "k - 1"])
  with d'(1) st show ?thesis by blast
qed

lemma starved_loop: "drr_loop d = Some y \<Longrightarrow> \<not> starved d"
proof (rule drr_loop.raw_induct [of "\<lambda>d y. \<not> starved d"])
  fix f :: "drr_scheduler \<Rightarrow> ((u8 \<times> bytes) option \<times> drr_scheduler) option" and d y
  assume ih: "\<And>d y. f d = Some y \<Longrightarrow> \<not> starved d"
    and body: "(case drr_turn d of Served r d' \<Rightarrow> Some (Some r, d')
      | Passed d' \<Rightarrow> let d2 = drr_advance d' in if drr_idle d2 then Some (None, d2) else f d2) = Some y"
  show "\<not> starved d"
  proof
    assume "starved d"
    then obtain d' where "drr_turn d = Passed d'" "starved (drr_advance d')" "\<not> drr_idle (drr_advance d')"
      using starved_turn by blast
    with ih body show False by (auto simp: Let_def)
  qed
qed

text \<open>With a zero quantum, which \<open>with_quantum\<close> accepts, a single non-empty payload on a
  weighted stream makes \<open>dequeue_next\<close> loop forever.\<close>
theorem zero_quantum_hangs:
  assumes "unat i \<in> {1..6}" "p \<noteq> []" "length p < 2 ^ 64"
  shows "dequeue_next (snd (enqueue (with_quantum 0) i p)) = None"
proof -
  let ?d = "snd (enqueue (with_quantum 0) i p)"
  have "starved ?d"
    using assms by (auto simp: starved_def enqueue_def stream_index_def with_quantum_def NUM_STREAMS_def Let_def nth_list_update)
  then have "drr_loop ?d = None" using starved_loop [of ?d] by (cases "drr_loop ?d") auto
  moreover have "ds_queues ?d ! 0 = []"
    using assms by (auto simp: enqueue_def stream_index_def with_quantum_def NUM_STREAMS_def Let_def nth_list_update)
  ultimately show ?thesis by (simp add: dequeue_next_def)
qed

theorem zero_quantum_hangs_witness: "dequeue_next (snd (enqueue (with_quantum 0) 1 [7])) = None"
  by (rule zero_quantum_hangs) simp_all

end
