(* ===== verification/BW_Message.thy ===== *)
theory BW_Message
  imports BW_Codec
begin

text \<open>
  Protocol messages, routing envelopes and the message dispatcher of \<^verbatim>\<open>bw-protocol\<close>
  (\<^verbatim>\<open>message.rs\<close>, \<^verbatim>\<open>routing.rs\<close>, \<^verbatim>\<open>dispatcher.rs\<close>).  Every serialized type has its own instance of
  the CBOR parameter.  A message handler is a function on the state its closure captures.
\<close>

section \<open>Messages\<close>

datatype message_type =
    Ping | Pong | Hello | Goodbye | Heartbeat | Data | Control | ErrorMessage
  | InputKeyboard | InputMouse | ClipboardData | AudioData | IceCandidate | VideoData

record keyboard_event =
  keycode :: u16
  is_down :: bool

record mouse_event =
  dx :: i32
  dy :: i32
  buttons_mask :: u8
  is_absolute :: bool

datatype clipboard_format = Text | ImageRgba8 nat nat

record clipboard_event =
  cb_format :: clipboard_format
  cb_data :: bytes

record audio_payload =
  channels :: u16
  sample_rate :: u32
  opus_data :: bytes

record ice_candidate_payload =
  candidate_str :: string
  sdp_mid :: "string option"
  sdp_mline_index :: "u16 option"

record video_payload =
  encoded_frame :: bytes

record protocol_message =
  msg_type :: message_type
  msg_id :: u32
  msg_flags :: u16
  msg_payload :: bytes

definition MSG_MAX_DESER_SIZE :: nat where
  "MSG_MAX_DESER_SIZE = 4 * 1024 * 1024"

definition MAX_CLIPBOARD_TEXT_LEN :: nat where
  "MAX_CLIPBOARD_TEXT_LEN = 1024 * 1024"

definition MAX_CLIPBOARD_IMAGE_DIM :: nat where
  "MAX_CLIPBOARD_IMAGE_DIM = 4096"

definition msg_serialize :: "protocol_message cbor \<Rightarrow> protocol_message \<Rightarrow> (bytes, protocol_error) outcome" where
  "msg_serialize cb m = ok_or (into_writer cb m) SerializationError"

definition msg_deserialize :: "protocol_message cbor \<Rightarrow> bytes \<Rightarrow> (protocol_message, protocol_error) outcome" where
  "msg_deserialize cb bs =
     (if length bs > MSG_MAX_DESER_SIZE then Err (OversizedPayload (length bs) MSG_MAX_DESER_SIZE)
      else ok_or (from_reader cb bs) DeserializationError)"

definition keyboard_event_msg :: "keyboard_event cbor \<Rightarrow> u16 \<Rightarrow> bool \<Rightarrow> (protocol_message, protocol_error) outcome" where
  "keyboard_event_msg cb k down =
     obind (ok_or (into_writer cb \<lparr>keycode = k, is_down = down\<rparr>) SerializationError)
       (\<lambda>p. Ok \<lparr>msg_type = InputKeyboard, msg_id = 0, msg_flags = 0, msg_payload = p\<rparr>)"

definition mouse_event_abs ::
  "mouse_event cbor \<Rightarrow> i32 \<Rightarrow> i32 \<Rightarrow> u8 \<Rightarrow> bool \<Rightarrow> (protocol_message, protocol_error) outcome" where
  "mouse_event_abs cb x y b absolute =
     obind (ok_or (into_writer cb \<lparr>dx = x, dy = y, buttons_mask = b, is_absolute = absolute\<rparr>) SerializationError)
       (\<lambda>p. Ok \<lparr>msg_type = InputMouse, msg_id = 0, msg_flags = 0, msg_payload = p\<rparr>)"

definition mouse_event_msg :: "mouse_event cbor \<Rightarrow> i32 \<Rightarrow> i32 \<Rightarrow> u8 \<Rightarrow> (protocol_message, protocol_error) outcome" where
  "mouse_event_msg cb x y b = mouse_event_abs cb x y b False"

definition as_keyboard_event :: "keyboard_event cbor \<Rightarrow> protocol_message \<Rightarrow> keyboard_event option" where
  "as_keyboard_event cb m = (if msg_type m \<noteq> InputKeyboard then None else from_reader cb (msg_payload m))"

definition as_mouse_event :: "mouse_event cbor \<Rightarrow> protocol_message \<Rightarrow> mouse_event option" where
  "as_mouse_event cb m = (if msg_type m \<noteq> InputMouse then None else from_reader cb (msg_payload m))"

definition clipboard_event_msg ::
  "clipboard_event cbor \<Rightarrow> clipboard_event \<Rightarrow> (protocol_message, protocol_error) outcome" where
  "clipboard_event_msg cb e =
     obind (ok_or (into_writer cb e) SerializationError)
       (\<lambda>p. Ok \<lparr>msg_type = ClipboardData, msg_id = 0, msg_flags = 0, msg_payload = p\<rparr>)"

definition as_clipboard_event :: "clipboard_event cbor \<Rightarrow> protocol_message \<Rightarrow> clipboard_event option" where
  "as_clipboard_event cb m =
     (if msg_type m \<noteq> ClipboardData then None
      else case from_reader cb (msg_payload m) of
             None \<Rightarrow> None
           | Some event \<Rightarrow>
               (case cb_format event of
                  Text \<Rightarrow> if length (cb_data event) > MAX_CLIPBOARD_TEXT_LEN then None else Some event
                | ImageRgba8 width height \<Rightarrow>
                    if width > MAX_CLIPBOARD_IMAGE_DIM \<or> height > MAX_CLIPBOARD_IMAGE_DIM then None
                    else case Option.bind (checked_mul_usize width height) (\<lambda>a. checked_mul_usize a 4) of
                           None \<Rightarrow> None
                         | Some exp \<Rightarrow> if exp = length (cb_data event) then Some event else None))"

definition audio_data :: "audio_payload cbor \<Rightarrow> audio_payload \<Rightarrow> (protocol_message, protocol_error) outcome" where
  "audio_data cb a =
     obind (ok_or (into_writer cb a) SerializationError)
       (\<lambda>p. Ok \<lparr>msg_type = AudioData, msg_id = 0, msg_flags = 0, msg_payload = p\<rparr>)"

definition as_audio_data :: "audio_payload cbor \<Rightarrow> protocol_message \<Rightarrow> audio_payload option" where
  "as_audio_data cb m = (if msg_type m \<noteq> AudioData then None else from_reader cb (msg_payload m))"

definition ice_candidate ::
  "ice_candidate_payload cbor \<Rightarrow> ice_candidate_payload \<Rightarrow> (protocol_message, protocol_error) outcome" where
  "ice_candidate cb c =
     obind (ok_or (into_writer cb c) SerializationError)
       (\<lambda>p. Ok \<lparr>msg_type = IceCandidate, msg_id = 0, msg_flags = 0, msg_payload = p\<rparr>)"

definition as_ice_candidate :: "ice_candidate_payload cbor \<Rightarrow> protocol_message \<Rightarrow> ice_candidate_payload option" where
  "as_ice_candidate cb m = (if msg_type m \<noteq> IceCandidate then None else from_reader cb (msg_payload m))"

definition video_data :: "video_payload cbor \<Rightarrow> video_payload \<Rightarrow> (protocol_message, protocol_error) outcome" where
  "video_data cb v =
     obind (ok_or (into_writer cb v) SerializationError)
       (\<lambda>p. Ok \<lparr>msg_type = VideoData, msg_id = 0, msg_flags = 0, msg_payload = p\<rparr>)"

definition as_video_data :: "video_payload cbor \<Rightarrow> protocol_message \<Rightarrow> video_payload option" where
  "as_video_data cb m = (if msg_type m \<noteq> VideoData then None else from_reader cb (msg_payload m))"

definition msg_validate :: "protocol_message \<Rightarrow> (unit, protocol_error) outcome" where
  "msg_validate m =
     (if msg_type m = Data \<and> msg_payload m = [] \<and> msg_flags m \<noteq> 0 then Err InvalidPayloadLength
      else if msg_type m \<in> {InputKeyboard, InputMouse, ClipboardData, AudioData, IceCandidate, VideoData} \<and>
              msg_payload m = [] then Err InvalidPayloadLength
      else Ok ())"

section \<open>Routing\<close>

type_synonym device_id = bytes
type_synonym node_id = device_id

datatype session_id = SessionId (session_id_bytes: bytes)

definition broadcast :: node_id where
  "broadcast = replicate 32 0"

definition is_broadcast :: "node_id \<Rightarrow> bool" where
  "is_broadcast n \<longleftrightarrow> n = replicate 32 0"

datatype route = Direct | Broadcast | Loopback | Relay node_id

record message_envelope =
  env_source :: node_id
  env_destination :: node_id
  env_session_id :: session_id
  env_route :: route
  env_message :: protocol_message
  env_routing_flags :: u16

definition env_validate :: "message_envelope \<Rightarrow> (unit, protocol_error) outcome" where
  "env_validate e =
     obind (msg_validate (env_message e)) (\<lambda>_.
       case env_route e of
         Loopback \<Rightarrow> if env_source e \<noteq> env_destination e then Err InvalidRoute else Ok ()
       | Direct \<Rightarrow>
           if env_source e = env_destination e then Err InvalidDestination
           else if is_broadcast (env_destination e) then Err InvalidDestination
           else Ok ()
       | Broadcast \<Rightarrow> if \<not> is_broadcast (env_destination e) then Err InvalidDestination else Ok ()
       | Relay via \<Rightarrow>
           if env_source e = env_destination e then Err InvalidDestination
           else if via = env_source e \<or> via = env_destination e then Err InvalidRoute
           else if is_broadcast (env_destination e) then Err InvalidDestination
           else Ok ())"

definition env_serialize :: "message_envelope cbor \<Rightarrow> message_envelope \<Rightarrow> (bytes, protocol_error) outcome" where
  "env_serialize cb e = ok_or (into_writer cb e) SerializationError"

definition env_deserialize :: "message_envelope cbor \<Rightarrow> bytes \<Rightarrow> (message_envelope, protocol_error) outcome" where
  "env_deserialize cb bs = ok_or (from_reader cb bs) DeserializationError"

section \<open>Dispatcher\<close>

datatype dispatch_error = Validation protocol_error | NoHandler message_type | Handler string

type_synonym 's message_handler = "message_envelope \<Rightarrow> 's \<Rightarrow> (unit, dispatch_error) outcome \<times> 's"
type_synonym 's dispatcher = "message_type \<Rightarrow> 's message_handler option"

definition dispatcher_new :: "'s dispatcher" where
  "dispatcher_new = Map.empty"

definition register_handler :: "'s dispatcher \<Rightarrow> message_type \<Rightarrow> 's message_handler \<Rightarrow> 's dispatcher" where
  "register_handler D t h = D(t \<mapsto> h)"

definition dispatch :: "'s dispatcher \<Rightarrow> message_envelope \<Rightarrow> 's \<Rightarrow> (unit, dispatch_error) outcome \<times> 's" where
  "dispatch D e st =
     (case map_err Validation (env_validate e) of
        Err x \<Rightarrow> (Err x, st)
      | Panic \<Rightarrow> (Panic, st)
      | Ok _ \<Rightarrow>
          (case D (msg_type (env_message e)) of
             None \<Rightarrow> (Err (NoHandler (msg_type (env_message e))), st)
           | Some handler \<Rightarrow> handler e st))"

text \<open>
  \<open>run\<close> over the results the transport yields: it ends with the first error and waits for
  ever (no result) when the transport yields no more.
\<close>

fun dispatcher_run :: "message_envelope cbor \<Rightarrow> 's dispatcher \<Rightarrow> (owned_protocol_frame, protocol_error) outcome list \<Rightarrow>
    's \<Rightarrow> (unit, dispatch_error) outcome option \<times> 's" where
  "dispatcher_run cb D [] st = (None, st)"
| "dispatcher_run cb D (r # rs) st =
     (case map_err Validation (obind r (\<lambda>f. env_deserialize cb (pf_payload f))) of
        Err x \<Rightarrow> (Some (Err x), st)
      | Panic \<Rightarrow> (Some Panic, st)
      | Ok e \<Rightarrow>
          (case dispatch D e st of
             (Ok _, st') \<Rightarrow> dispatcher_run cb D rs st'
           | (Err x, st') \<Rightarrow> (Some (Err x), st')
           | (Panic, st') \<Rightarrow> (Some Panic, st')))"

section \<open>Typed payloads\<close>

lemma cbor_contractD: "cbor_contract cb \<Longrightarrow> into_writer cb x = Some bs \<Longrightarrow> from_reader cb bs = Some x"
  by (simp add: cbor_contract_def)

lemma ok_or_Ok_iff [outcome_simps]: "ok_or x e = Ok y \<longleftrightarrow> x = Some y"
  by (cases x) auto

text \<open>The sizes a clipboard event may have.\<close>

fun clip_sized :: "clipboard_format \<Rightarrow> nat \<Rightarrow> bool" where
  "clip_sized Text n \<longleftrightarrow> n \<le> 2 ^ 20"
| "clip_sized (ImageRgba8 w h) n \<longleftrightarrow> w \<le> 2 ^ 12 \<and> h \<le> 2 ^ 12 \<and> n = w * h * 4"

lemma image_no_overflow:
  assumes "w \<le> 4096" "h \<le> 4096"
  shows "Option.bind (checked_mul_usize w h) (\<lambda>a. checked_mul_usize a 4) = Some (w * h * 4)"
proof -
  have "w * h \<le> 4096 * 4096" using assms by (intro mult_mono) auto
  then show ?thesis by (simp add: checked_mul_usize_def)
qed

lemma as_clipboard_event_eq:
  "as_clipboard_event cb m = Some e \<longleftrightarrow> msg_type m = ClipboardData \<and> from_reader cb (msg_payload m) = Some e \<and>
     clip_sized (cb_format e) (length (cb_data e))"
proof (cases "from_reader cb (msg_payload m)")
  case None
  then show ?thesis by (simp add: as_clipboard_event_def)
next
  case (Some e')
  show ?thesis
  proof (cases "cb_format e'")
    case Text
    then show ?thesis using Some by (auto simp: as_clipboard_event_def MAX_CLIPBOARD_TEXT_LEN_def)
  next
    case (ImageRgba8 w h)
    then show ?thesis using Some image_no_overflow [of w h]
      by (auto simp: as_clipboard_event_def MAX_CLIPBOARD_IMAGE_DIM_def split: option.splits)
  qed
qed

text \<open>A clipboard event is accepted from a message exactly when the message is of clipboard type, its
  payload decodes to the event, and the event is text of at most 1 MiB or an image of at most
  4096 by 4096 pixels whose data is exactly four bytes per pixel; the size product never overflows.\<close>
theorem clipboard_event_accepted_iff:
  "as_clipboard_event cb m = Some e \<longleftrightarrow> msg_type m = ClipboardData \<and> from_reader cb (msg_payload m) = Some e \<and>
     (case cb_format e of Text \<Rightarrow> length (cb_data e) \<le> 1048576
      | ImageRgba8 w h \<Rightarrow> w \<le> 4096 \<and> h \<le> 4096 \<and> length (cb_data e) = w * h * 4)"
  by (cases "cb_format e") (simp_all add: as_clipboard_event_eq)

text \<open>Every typed message round-trips: whenever a keyboard, mouse, clipboard, audio, candidate or
  video message can be built, decoding it as that type returns the event it was built from, and
  decoding it as a keyboard event succeeds for keyboard messages only.\<close>
theorem typed_message_roundtrip:
  assumes "cbor_contract kb" "cbor_contract mb" "cbor_contract cb" "cbor_contract ab" "cbor_contract ib" "cbor_contract vb"
  shows "(keyboard_event_msg kb k down = Ok m1 \<longrightarrow> as_keyboard_event kb m1 = Some \<lparr>keycode = k, is_down = down\<rparr>) \<and>
    (mouse_event_msg mb x y b = Ok m2 \<longrightarrow>
       as_mouse_event mb m2 = Some \<lparr>dx = x, dy = y, buttons_mask = b, is_absolute = False\<rparr> \<and> as_keyboard_event kb m2 = None) \<and>
    (clipboard_event_msg cb e = Ok m3 \<longrightarrow> as_keyboard_event kb m3 = None \<and>
       as_clipboard_event cb m3 = (if clip_sized (cb_format e) (length (cb_data e)) then Some e else None)) \<and>
    (audio_data ab a = Ok m4 \<longrightarrow> as_audio_data ab m4 = Some a \<and> as_keyboard_event kb m4 = None) \<and>
    (ice_candidate ib c = Ok m5 \<longrightarrow> as_ice_candidate ib m5 = Some c \<and> as_keyboard_event kb m5 = None) \<and>
    (video_data vb v = Ok m6 \<longrightarrow> as_video_data vb m6 = Some v \<and> as_keyboard_event kb m6 = None)"
proof (intro conjI impI)
  assume b: "clipboard_event_msg cb e = Ok m3"
  then show "as_keyboard_event kb m3 = None"
    by (auto simp: clipboard_event_msg_def as_keyboard_event_def outcome_simps)
  have "from_reader cb (msg_payload m3) = Some e" "msg_type m3 = ClipboardData"
    using b cbor_contractD [OF assms(3)] by (auto simp: clipboard_event_msg_def outcome_simps)
  then show "as_clipboard_event cb m3 = (if clip_sized (cb_format e) (length (cb_data e)) then Some e else None)"
    using as_clipboard_event_eq [of cb m3 e] as_clipboard_event_eq [of cb m3 "the (as_clipboard_event cb m3)"]
    by (cases "as_clipboard_event cb m3") auto
qed (use cbor_contractD [OF assms(1)] cbor_contractD [OF assms(2)] cbor_contractD [OF assms(4)] cbor_contractD [OF assms(5)]
      cbor_contractD [OF assms(6)] in \<open>auto simp: keyboard_event_msg_def mouse_event_msg_def mouse_event_abs_def audio_data_def
      ice_candidate_def video_data_def as_keyboard_event_def as_mouse_event_def as_audio_data_def as_ice_candidate_def
      as_video_data_def outcome_simps\<close>)

text \<open>A codec that meets the contract and can write one value.\<close>

definition single_cbor :: "'a \<Rightarrow> 'a cbor" where
  "single_cbor v = \<lparr>into_writer = (\<lambda>x. if x = v then Some [1] else None),
     from_reader = (\<lambda>bs. if bs = [1] then Some v else None)\<rparr>"

lemma single_cbor_contract [simp]: "cbor_contract (single_cbor v)"
  by (simp add: cbor_contract_def single_cbor_def)

theorem typed_message_roundtrip_witness:
  "as_keyboard_event (single_cbor \<lparr>keycode = 65, is_down = True\<rparr>)
     \<lparr>msg_type = InputKeyboard, msg_id = 0, msg_flags = 0, msg_payload = [1]\<rparr> = Some \<lparr>keycode = 65, is_down = True\<rparr>"
  using typed_message_roundtrip [where kb = "single_cbor \<lparr>keycode = 65, is_down = True\<rparr>"
      and mb = "single_cbor \<lparr>dx = 1, dy = 2, buttons_mask = 0, is_absolute = False\<rparr>"
      and cb = "single_cbor \<lparr>cb_format = Text, cb_data = [104]\<rparr>"
      and ab = "single_cbor \<lparr>channels = 2, sample_rate = 48000, opus_data = [3]\<rparr>"
      and ib = "single_cbor \<lparr>candidate_str = ''a'', sdp_mid = None, sdp_mline_index = None\<rparr>"
      and vb = "single_cbor \<lparr>encoded_frame = [4]\<rparr>" and k = 65 and down = True
      and ?m1.0 = "\<lparr>msg_type = InputKeyboard, msg_id = 0, msg_flags = 0, msg_payload = [1]\<rparr>"]
  by (simp add: keyboard_event_msg_def) (simp add: single_cbor_def)

section \<open>Dispatch\<close>

text \<open>What a valid envelope is.\<close>

definition env_ok :: "message_envelope \<Rightarrow> bool" where
  "env_ok e \<longleftrightarrow>
     (msg_payload (env_message e) = [] \<longrightarrow>
        (msg_type (env_message e) = Data \<longrightarrow> msg_flags (env_message e) = 0) \<and>
        msg_type (env_message e) \<notin> {InputKeyboard, InputMouse, ClipboardData, AudioData, IceCandidate, VideoData}) \<and>
     (case env_route e of
        Loopback \<Rightarrow> env_source e = env_destination e
      | Direct \<Rightarrow> env_source e \<noteq> env_destination e \<and> env_destination e \<noteq> broadcast
      | Broadcast \<Rightarrow> env_destination e = broadcast
      | Relay via \<Rightarrow> distinct [env_source e, via, env_destination e] \<and> env_destination e \<noteq> broadcast)"

lemma env_validate_iff: "env_validate e = (Ok () :: (unit, protocol_error) outcome) \<longleftrightarrow> env_ok e"
  by (cases "env_route e")
    (auto simp: env_validate_def env_ok_def msg_validate_def is_broadcast_def broadcast_def outcome_simps)

lemma env_validate_not_ok: "\<not> env_ok e \<Longrightarrow>
    env_validate e \<in> {Err InvalidPayloadLength, Err InvalidRoute, Err InvalidDestination}"
  by (cases "env_route e")
    (auto simp: env_validate_def env_ok_def msg_validate_def is_broadcast_def broadcast_def outcome_simps)

text \<open>\<open>dispatch\<close> invokes the handler of a message type exactly on the envelopes that are valid, and it
  is the handler registered last for the type; an invalid envelope is reported as a validation error and
  one without a handler as \<open>NoHandler\<close>, and neither has any effect.\<close>
theorem dispatch_guard:
  "if \<not> env_ok e then \<exists>x. dispatch (register_handler D t h) e st = (Err (Validation x), st)
   else if msg_type (env_message e) = t then dispatch (register_handler D t h) e st = h e st
   else dispatch (register_handler D t h) e st =
      (case D (msg_type (env_message e)) of
         None \<Rightarrow> (Err (NoHandler (msg_type (env_message e))), st)
       | Some h' \<Rightarrow> h' e st)"
  using env_validate_iff [of e] env_validate_not_ok [of e]
  by (auto simp: dispatch_def register_handler_def split: option.splits)

end
