(* ===== verification/BW_Session.thy ===== *)
theory BW_Session
  imports BW_Channel BW_Message
begin

text \<open>
  Session establishment state: capability negotiation and key derivation (\<^verbatim>\<open>handshake.rs\<close>), the
  session manager (\<^verbatim>\<open>bw-protocol/src/session.rs\<close>) and the connection lifecycle
  (\<^verbatim>\<open>bw-session/src/lifecycle.rs\<close>).
\<close>

section \<open>Handshake\<close>

type_synonym capabilities = u32

definition CAP_ENCRYPTION :: u32 where
  "CAP_ENCRYPTION = push_bit 1 1"

definition CAP_AUTHENTICATION :: u32 where
  "CAP_AUTHENTICATION = push_bit 5 1"

definition cap_contains :: "capabilities \<Rightarrow> u32 \<Rightarrow> bool" where
  "cap_contains c capability \<longleftrightarrow> c AND capability \<noteq> 0"

definition cap_negotiate :: "capabilities \<Rightarrow> capabilities \<Rightarrow> capabilities" where
  "cap_negotiate a b = a AND b"

datatype handshake_status =
  Accepted | RejectedVersionMismatch | RejectedAuthenticationFailed | RejectedCapabilitiesMismatch

record handshake_request =
  client_version :: protocol_version
  supported_capabilities :: capabilities
  hr_device_id :: device_id
  hr_nonce :: bytes
  hr_timestamp :: u64

record handshake_response =
  accepted_version :: protocol_version
  negotiated_capabilities :: capabilities
  hs_server_nonce :: bytes
  hs_session_id :: bytes
  hs_status :: handshake_status

definition request_validate :: "handshake_request \<Rightarrow> (unit, protocol_error) outcome" where
  "request_validate r =
     (if \<not> is_compatible_with (client_version r) CURRENT_VERSION
      then Err (InvalidVersion (u16_of_version (client_version r)))
      else if \<not> cap_contains (supported_capabilities r) CAP_ENCRYPTION then Err InvalidHandshake
      else Ok ())"

definition negotiate_capabilities :: "capabilities \<Rightarrow> capabilities \<Rightarrow> (capabilities, protocol_error) outcome" where
  "negotiate_capabilities client server =
     (let negotiated = cap_negotiate client server
      in if \<not> cap_contains negotiated CAP_ENCRYPTION then Err IncompatibleCapabilities else Ok negotiated)"

definition derive_session_keys ::
  "crypto_lib \<Rightarrow> symmetric_key \<Rightarrow> bytes \<Rightarrow> bytes \<Rightarrow> (session_keys, protocol_error) outcome" where
  "derive_session_keys C master client_nonce server_nonce =
     (let salt = client_nonce @ server_nonce in
      obind (map_err (\<lambda>_. EncryptionError) (hkdf_derive C (Some salt) master (Some (ascii ''client-key'')))) (\<lambda>send_key.
      obind (map_err (\<lambda>_. EncryptionError) (hkdf_derive C (Some salt) master (Some (ascii ''server-key'')))) (\<lambda>recv_key.
      Ok \<lparr>sk_send_key = send_key, sk_recv_key = recv_key, sk_epoch = 0\<rparr>)))"

section \<open>Session manager\<close>

text \<open>
  The mutex around the table is poisoned when a closure run under it panics; every later call
  then fails.
\<close>

record session_manager =
  active_sessions :: "session_id \<rightharpoonup> encryption_context option"
  poisoned :: bool

definition manager_new :: session_manager where
  "manager_new = \<lparr>active_sessions = Map.empty, poisoned = False\<rparr>"

definition create_session :: "session_manager \<Rightarrow> session_id \<Rightarrow> (unit, protocol_error) outcome \<times> session_manager" where
  "create_session sm i =
     (if poisoned sm then (Err InvalidHandshake, sm)
      else if active_sessions sm i \<noteq> None then (Err SessionDuplicate, sm)
      else (Ok (), sm\<lparr>active_sessions := (active_sessions sm)(i \<mapsto> None)\<rparr>))"

definition create_session_with_context ::
  "session_manager \<Rightarrow> session_id \<Rightarrow> encryption_context \<Rightarrow> (unit, protocol_error) outcome \<times> session_manager" where
  "create_session_with_context sm i ctx =
     (if poisoned sm then (Err InvalidHandshake, sm)
      else if active_sessions sm i \<noteq> None then (Err SessionDuplicate, sm)
      else (Ok (), sm\<lparr>active_sessions := (active_sessions sm)(i \<mapsto> Some ctx)\<rparr>))"

definition create_session_from_handshake ::
  "crypto_lib \<Rightarrow> session_manager \<Rightarrow> session_id \<Rightarrow> symmetric_key \<Rightarrow> bytes \<Rightarrow> bytes \<Rightarrow> key_rotation_policy \<Rightarrow>
     (unit, protocol_error) outcome \<times> session_manager" where
  "create_session_from_handshake C sm i master client_nonce server_nonce pol =
     (case derive_session_keys C master client_nonce server_nonce of
        Err e \<Rightarrow> (Err e, sm)
      | Panic \<Rightarrow> (Panic, sm)
      | Ok keys \<Rightarrow> create_session_with_context sm i (context_new keys pol))"

definition with_session_context ::
  "session_manager \<Rightarrow> session_id \<Rightarrow> (encryption_context \<Rightarrow> ('r, protocol_error) outcome \<times> encryption_context) \<Rightarrow>
     (('r, protocol_error) outcome, protocol_error) outcome \<times> session_manager" where
  "with_session_context sm i f =
     (if poisoned sm then (Err InvalidHandshake, sm)
      else case active_sessions sm i of
             None \<Rightarrow> (Err SessionNotFound, sm)
           | Some None \<Rightarrow> (Err InvalidHandshake, sm)
           | Some (Some ctx) \<Rightarrow>
               (case f ctx of
                  (Panic, ctx') \<Rightarrow>
                    (Panic, sm\<lparr>active_sessions := (active_sessions sm)(i \<mapsto> Some ctx'), poisoned := True\<rparr>)
                | (r, ctx') \<Rightarrow> (Ok r, sm\<lparr>active_sessions := (active_sessions sm)(i \<mapsto> Some ctx')\<rparr>)))"

definition close_session :: "session_manager \<Rightarrow> session_id \<Rightarrow> (bool, protocol_error) outcome \<times> session_manager" where
  "close_session sm i =
     (if poisoned sm then (Err InvalidHandshake, sm)
      else (Ok (active_sessions sm i \<noteq> None), sm\<lparr>active_sessions := (active_sessions sm)(i := None)\<rparr>))"

definition validate_session :: "session_manager \<Rightarrow> session_id \<Rightarrow> (bool, protocol_error) outcome" where
  "validate_session sm i = (if poisoned sm then Err InvalidHandshake else Ok (active_sessions sm i \<noteq> None))"

definition lookup_session :: "session_manager \<Rightarrow> session_id \<Rightarrow> (session_id, protocol_error) outcome" where
  "lookup_session sm i = obind (validate_session sm i) (\<lambda>b. if b then Ok i else Err SessionNotFound)"

section \<open>Lifecycle\<close>

datatype connection_state = Connected | Handshaking | Active | Closing | Closed

definition state_code :: "connection_state \<Rightarrow> u8" where
  "state_code s = (case s of Connected \<Rightarrow> 0 | Handshaking \<Rightarrow> 1 | Active \<Rightarrow> 2 | Closing \<Rightarrow> 3 | Closed \<Rightarrow> 4)"

definition state_of_code :: "u8 \<Rightarrow> connection_state" where
  "state_of_code v =
     (if v = 0 then Connected else if v = 1 then Handshaking else if v = 2 then Active
      else if v = 3 then Closing else Closed)"

record lifecycle =
  lc_state :: u8

definition lifecycle_new :: lifecycle where
  "lifecycle_new = \<lparr>lc_state = state_code Connected\<rparr>"

definition get_state :: "lifecycle \<Rightarrow> connection_state" where
  "get_state l = state_of_code (lc_state l)"

definition transition :: "lifecycle \<Rightarrow> connection_state \<Rightarrow> connection_state \<Rightarrow> (unit, unit) outcome \<times> lifecycle" where
  "transition l expected new =
     (if lc_state l = state_code expected then (Ok (), l\<lparr>lc_state := state_code new\<rparr>) else (Err (), l))"

definition force_state :: "lifecycle \<Rightarrow> connection_state \<Rightarrow> lifecycle" where
  "force_state l new = l\<lparr>lc_state := state_code new\<rparr>"

lemma state_of_code_code [simp]: "state_of_code (state_code s) = s"
  by (cases s) (simp_all add: state_of_code_def state_code_def)

lemma state_code_inject [simp]: "state_code s = state_code t \<longleftrightarrow> s = t"
  by (metis state_of_code_code)

lemma transition_get:
  "transition l expected new =
     (if lc_state l = state_code expected then (Ok (), force_state l new) else (Err (), l))"
  by (simp add: transition_def force_state_def)

lemma get_force_state [simp]: "get_state (force_state l s) = s"
  by (simp add: get_state_def force_state_def)

section \<open>Negotiation and derivation\<close>

lemma cap_encryption_bit [simp]: "cap_contains c CAP_ENCRYPTION \<longleftrightarrow> bit c 1"
  using and_exp_eq_0_iff_not_bit [of c 1] by (simp add: cap_contains_def CAP_ENCRYPTION_def)

text \<open>Negotiation succeeds exactly when both sides offer encryption, and then yields exactly the
  capabilities both offer, whichever side is asked; no other capability, in particular not
  authentication, has any influence on whether it succeeds.\<close>
theorem negotiation_exact:
  "negotiate_capabilities c s =
     (if bit c 1 \<and> bit s 1 then Ok (c AND s) else Err IncompatibleCapabilities) \<and>
   negotiate_capabilities c s = negotiate_capabilities s c"
  by (auto simp: negotiate_capabilities_def cap_negotiate_def Let_def bit_simps and.commute)

lemma derive_session_keys_ok:
  assumes "hkdf_contract C"
  shows "\<exists>ks. derive_session_keys C m cn sn = Ok ks \<and> length (sk_send_key ks) = 32 \<and> length (sk_recv_key ks) = 32 \<and>
    sk_epoch ks = 0"
proof -
  obtain k1 where "hkdf_derive C (Some (cn @ sn)) m (Some (ascii ''client-key'')) = Ok k1" "length k1 = 32"
    using hkdf_derive_ok [OF assms] by blast
  moreover obtain k2 where "hkdf_derive C (Some (cn @ sn)) m (Some (ascii ''server-key'')) = Ok k2" "length k2 = 32"
    using hkdf_derive_ok [OF assms] by blast
  ultimately show ?thesis by (simp add: derive_session_keys_def Let_def)
qed

section \<open>Sessions are isolated\<close>

datatype session_op =
    CreateOp session_id
  | CreateWithOp session_id encryption_context
  | UseOp session_id "encryption_context \<Rightarrow> (unit, protocol_error) outcome \<times> encryption_context"
  | CloseOp session_id

fun op_session :: "session_op \<Rightarrow> session_id" where
  "op_session (CreateOp i) = i"
| "op_session (CreateWithOp i ctx) = i"
| "op_session (UseOp i f) = i"
| "op_session (CloseOp i) = i"

fun session_step :: "session_manager \<Rightarrow> session_op \<Rightarrow> session_manager" where
  "session_step sm (CreateOp i) = snd (create_session sm i)"
| "session_step sm (CreateWithOp i ctx) = snd (create_session_with_context sm i ctx)"
| "session_step sm (UseOp i f) = snd (with_session_context sm i f)"
| "session_step sm (CloseOp i) = snd (close_session sm i)"

lemma session_step_other: "op_session op \<noteq> j \<Longrightarrow> active_sessions (session_step sm op) j = active_sessions sm j"
  by (cases op) (auto simp: create_session_def create_session_with_context_def with_session_context_def
      close_session_def split: option.splits prod.splits outcome.splits)

lemma session_step_poisoned: "poisoned sm \<Longrightarrow> session_step sm op = sm"
  by (cases op) (simp_all add: create_session_def create_session_with_context_def with_session_context_def close_session_def)

lemma session_run_other:
  "\<forall>op \<in> set ops. op_session op \<noteq> j \<Longrightarrow> active_sessions (foldl session_step sm ops) j = active_sessions sm j"
  by (induction ops arbitrary: sm) (simp_all add: session_step_other)



text \<open>A session identifier is registered at most once at a time: after a successful registration a
  second one fails with \<open>SessionDuplicate\<close> and changes nothing, looking it up succeeds, and after it
  is closed looking it up fails with \<open>SessionNotFound\<close> and it can be registered again.\<close>
theorem session_unique:
  assumes "create_session_with_context sm i ctx = (Ok (), sm')"
  shows "create_session_with_context sm' i ctx' = (Err SessionDuplicate, sm') \<and>
    create_session sm' i = (Err SessionDuplicate, sm') \<and> lookup_session sm' i = Ok i \<and>
    fst (close_session sm' i) = Ok True \<and>
    lookup_session (snd (close_session sm' i)) i = Err SessionNotFound \<and>
    fst (create_session_with_context (snd (close_session sm' i)) i ctx') = Ok ()"
  using assms by (auto simp: create_session_with_context_def create_session_def lookup_session_def validate_session_def
      close_session_def split: if_splits)

theorem session_unique_witness:
  "let sm' = snd (create_session_with_context manager_new (SessionId [1]) (context_new demo_keys Manual))
   in create_session sm' (SessionId [1]) = (Err SessionDuplicate, sm') \<and>
      lookup_session (snd (close_session sm' (SessionId [1]))) (SessionId [1]) = Err SessionNotFound"
  using session_unique [of manager_new "SessionId [1]" "context_new demo_keys Manual"
      "snd (create_session_with_context manager_new (SessionId [1]) (context_new demo_keys Manual))"]
  by (simp add: Let_def) (simp add: create_session_with_context_def manager_new_def)

end
