(* ===== verification/BW_Fragment.thy ===== *)
theory BW_Fragment
  imports BW_Codec
begin

text \<open>
  Fragmentation and reassembly, which \<^verbatim>\<open>bw-session\<close> implements twice with the same loops:
  over the frames of the transport (\<^verbatim>\<open>secure_conn.rs\<close>) and over the frames of the secure connection
  (\<^verbatim>\<open>wire.rs\<close>).  The loops are functions of the operation that sends or receives one frame.  A
  receive that is still waiting for the peer is the result \<open>None\<close>.
\<close>

definition FRAGMENT_SIZE :: nat where
  "FRAGMENT_SIZE = 60000"

definition FLAG_FRAGMENT_MORE :: u16 where
  "FLAG_FRAGMENT_MORE = 1"

definition MAX_REASSEMBLED_SIZE :: nat where
  "MAX_REASSEMBLED_SIZE = 4 * 1024 * 1024"

definition fragment_flags :: "u16 \<Rightarrow> bool \<Rightarrow> u16" where
  "fragment_flags index is_more = push_bit 1 index OR (if is_more then 1 else 0)"

text \<open>The loop over the fragments of a message; \<open>emit\<close> sends one fragment.\<close>

function fragment_loop :: "nat \<Rightarrow> ('s \<Rightarrow> u16 \<Rightarrow> bool \<Rightarrow> bytes \<Rightarrow> (unit, 'e) outcome \<times> 's) \<Rightarrow> 's \<Rightarrow> bytes \<Rightarrow>
    u16 \<Rightarrow> nat \<Rightarrow> (unit, 'e) outcome \<times> 's" where
  "fragment_loop chunk emit st bs index offset =
     (if 0 < chunk \<and> offset < length bs then
        let end_pos = min (offset + chunk) (length bs);
            is_more = (end_pos < length bs)
        in case emit st index is_more (slice_of offset end_pos bs) of
             (Ok _, st') \<Rightarrow> fragment_loop chunk emit st' bs (index + 1) end_pos
           | (Err e, st') \<Rightarrow> (Err e, st')
           | (Panic, st') \<Rightarrow> (Panic, st')
      else (Ok (), st))"
  by pat_completeness auto
termination
  by (relation "measure (\<lambda>(chunk, emit, st, bs, index, offset). length bs - offset)") auto

declare fragment_loop.simps [simp del]

definition send_fragmented_with :: "nat \<Rightarrow> ('s \<Rightarrow> u16 \<Rightarrow> bool \<Rightarrow> bytes \<Rightarrow> (unit, 'e) outcome \<times> 's) \<Rightarrow> 's \<Rightarrow> bytes \<Rightarrow>
    (unit, 'e) outcome \<times> 's" where
  "send_fragmented_with chunk emit st bs =
     (if length bs \<le> chunk then emit st 0 False bs else fragment_loop chunk emit st bs 0 0)"

lemma index_bound: "unat (drop_bit 1 (x :: u16)) < 2 ^ 15"
  using unat_bound [of x] by (simp add: drop_bit_eq_div unat_div)

text \<open>
  The reassembly loop, entered while more fragments are announced.  It ends after at most
  \<open>2\<^sup>1\<^sup>5\<close> rounds, because the index read from the 16-bit flags must match a counter that grows.
\<close>

function reassemble_loop :: "('r \<Rightarrow> (protocol_frame, 'e) outcome option \<times> 'r) \<Rightarrow> 'e \<Rightarrow> (nat \<Rightarrow> 'e) \<Rightarrow> 'r \<Rightarrow> bytes \<Rightarrow>
    nat \<Rightarrow> (bytes, 'e) outcome option \<times> 'r" where
  "reassemble_loop recv out_of_order oversized st payload expected =
     (case recv st of
        (None, st') \<Rightarrow> (None, st')
      | (Some (Err e), st') \<Rightarrow> (Some (Err e), st')
      | (Some Panic, st') \<Rightarrow> (Some Panic, st')
      | (Some (Ok fragment), st') \<Rightarrow>
          let frag_index = drop_bit 1 (flags (pf_header fragment));
              is_more = (flags (pf_header fragment) AND FLAG_FRAGMENT_MORE \<noteq> 0)
          in if unat frag_index \<noteq> expected then (Some (Err out_of_order), st')
             else let new_len = length payload + length (pf_payload fragment)
                  in if new_len > MAX_REASSEMBLED_SIZE then (Some (Err (oversized new_len)), st')
                     else if is_more then reassemble_loop recv out_of_order oversized st'
                            (payload @ pf_payload fragment) (expected + 1)
                     else (Some (Ok (payload @ pf_payload fragment)), st'))"
  by pat_completeness auto
termination
proof (relation "measure (\<lambda>(recv, a, b, st, payload, expected). 2 ^ 15 - expected)", goal_cases)
  case (2 recv a b st payload expected oc st' oa fragment frag_index is_more new_len)
  then show ?case using index_bound [of "flags (pf_header fragment)"] by auto
qed simp

declare reassemble_loop.simps [simp del]

definition recv_reassembled_with :: "('r \<Rightarrow> (protocol_frame, 'e) outcome option \<times> 'r) \<Rightarrow> 'e \<Rightarrow> (nat \<Rightarrow> 'e) \<Rightarrow> 'r \<Rightarrow>
    (bytes, 'e) outcome option \<times> 'r" where
  "recv_reassembled_with recv out_of_order oversized st =
     (case recv st of
        (None, st') \<Rightarrow> (None, st')
      | (Some (Err e), st') \<Rightarrow> (Some (Err e), st')
      | (Some Panic, st') \<Rightarrow> (Some Panic, st')
      | (Some (Ok first), st') \<Rightarrow>
          let index = drop_bit 1 (flags (pf_header first));
              is_more = (flags (pf_header first) AND FLAG_FRAGMENT_MORE \<noteq> 0)
          in if index = 0 \<and> \<not> is_more then (Some (Ok (pf_payload first)), st')
             else if is_more then reassemble_loop recv out_of_order oversized st' (pf_payload first) (unat index + 1)
             else (Some (Ok (pf_payload first)), st'))"

section \<open>The flags\<close>

lemma flags_index: "index < 2 ^ 15 \<Longrightarrow> unat (drop_bit 1 (fragment_flags (of_nat index) is_more)) = index"
proof -
  assume i: "index < 2 ^ 15"
  have "drop_bit 1 (fragment_flags (of_nat index) is_more) = take_bit 15 (of_nat index :: u16)"
    by (rule bit_word_eqI) (auto simp: fragment_flags_def bit_simps simp del: push_bit_Suc)
  also have "\<dots> = of_nat index" using i by (simp add: take_bit_of_nat take_bit_nat_eq_self)
  finally show ?thesis using i by (simp add: unat_of_nat take_bit_nat_eq_self)
qed

lemma flags_more: "fragment_flags i is_more AND FLAG_FRAGMENT_MORE \<noteq> 0 \<longleftrightarrow> is_more"
proof -
  have "fragment_flags i is_more AND 1 = (if is_more then 1 else 0)"
    by (rule bit_word_eqI) (auto simp: fragment_flags_def bit_simps simp del: push_bit_Suc)
  then show ?thesis by (simp add: FLAG_FRAGMENT_MORE_def)
qed

section \<open>Fragment sequences\<close>

text \<open>The flags and payloads of the frames that carry a message.\<close>

function frags_from :: "nat \<Rightarrow> bytes \<Rightarrow> nat \<Rightarrow> nat \<Rightarrow> (u16 \<times> bytes) list" where
  "frags_from chunk bs index offset =
     (if 0 < chunk \<and> offset < length bs then
        let end_pos = min (offset + chunk) (length bs)
        in (fragment_flags (of_nat index) (end_pos < length bs), slice_of offset end_pos bs) #
           frags_from chunk bs (index + 1) end_pos
      else [])"
  by pat_completeness auto
termination
  by (relation "measure (\<lambda>(chunk, bs, index, offset). length bs - offset)") auto

declare frags_from.simps [simp del]

definition frags :: "nat \<Rightarrow> bytes \<Rightarrow> (u16 \<times> bytes) list" where
  "frags chunk bs = (if length bs \<le> chunk then [(fragment_flags 0 False, bs)] else frags_from chunk bs 0 0)"

lemma frags_from_count: "0 < chunk \<Longrightarrow> length (frags_from chunk bs index offset) * chunk < length bs - offset + chunk"
proof (induction chunk bs index offset rule: frags_from.induct)
  case (1 chunk bs index offset)
  show ?case
  proof (cases "offset < length bs")
    case True
    then show ?thesis using 1 by (subst frags_from.simps) (fastforce simp: Let_def min_def split: if_splits)
  next
    case False
    then show ?thesis using "1.prems" by (subst frags_from.simps) simp
  qed
qed

lemma frags_count:
  assumes "length bs \<le> MAX_REASSEMBLED_SIZE"
  shows "length (frags FRAGMENT_SIZE bs) \<le> 70"
  using frags_from_count [of FRAGMENT_SIZE bs 0 0] assms
  by (auto simp: frags_def FRAGMENT_SIZE_def MAX_REASSEMBLED_SIZE_def)

lemma take_slice: "offset \<le> end_pos \<Longrightarrow> end_pos \<le> length bs \<Longrightarrow> take offset bs @ slice_of offset end_pos bs = take end_pos bs"
  by (metis slice_of_def le_add_diff_inverse take_add)

text \<open>
  A channel over which fragments travel.  \<open>carries c q k\<close> says that the frames with flags and
  payloads \<open>q\<close> are in flight and that \<open>k\<close> more may be sent; the two laws are what a
  layer below promises.
\<close>

locale fragment_link =
  fixes chunk :: nat
    and emit :: "'c \<Rightarrow> u16 \<Rightarrow> bool \<Rightarrow> bytes \<Rightarrow> (unit, 'e) outcome \<times> 'c"
    and recv :: "'c \<Rightarrow> (protocol_frame, 'e) outcome option \<times> 'c"
    and out_of_order :: 'e
    and oversized :: "nat \<Rightarrow> 'e"
    and carries :: "'c \<Rightarrow> (u16 \<times> bytes) list \<Rightarrow> nat \<Rightarrow> bool"
  assumes chunk_pos: "0 < chunk"
    and emit_ok: "carries c q (Suc k) \<Longrightarrow> length p \<le> chunk \<Longrightarrow>
          \<exists>c'. emit c i m p = (Ok (), c') \<and> carries c' (q @ [(fragment_flags i m, p)]) k"
    and recv_ok: "carries c ((fl, p) # q) k \<Longrightarrow>
          \<exists>f c'. recv c = (Some (Ok f), c') \<and> flags (pf_header f) = fl \<and> pf_payload f = p \<and> carries c' q k"
begin

lemma fragment_loop_ok:
  "carries c q (length (frags_from chunk bs i offset) + k) \<Longrightarrow>
   \<exists>c'. fragment_loop chunk emit c bs (of_nat i) offset = (Ok (), c') \<and> carries c' (q @ frags_from chunk bs i offset) k"
proof (induction "length bs - offset" arbitrary: i offset c q rule: less_induct)
  case less
  show ?case
  proof (cases "0 < chunk \<and> offset < length bs")
    case True
    let ?e = "min (offset + chunk) (length bs)"
    have dec: "length bs - ?e < length bs - offset" using True by (auto simp: min_def)
    have unf: "frags_from chunk bs i offset = (fragment_flags (of_nat i) (?e < length bs), slice_of offset ?e bs) #
        frags_from chunk bs (i + 1) ?e"
      using True by (subst frags_from.simps) (simp add: Let_def)
    have "carries c q (Suc (length (frags_from chunk bs (i + 1) ?e) + k))" using less.prems unf by simp
    moreover have "length (slice_of offset ?e bs) \<le> chunk" by (simp add: slice_of_def)
    ultimately obtain c1 where e1: "emit c (of_nat i) (?e < length bs) (slice_of offset ?e bs) = (Ok (), c1)"
      "carries c1 (q @ [(fragment_flags (of_nat i) (?e < length bs), slice_of offset ?e bs)])
         (length (frags_from chunk bs (i + 1) ?e) + k)"
      using emit_ok [of c q "length (frags_from chunk bs (i + 1) ?e) + k" "slice_of offset ?e bs" "of_nat i" "?e < length bs"]
      by auto
    obtain c2 where "fragment_loop chunk emit c1 bs (of_nat (i + 1)) ?e = (Ok (), c2)"
      "carries c2 (q @ frags_from chunk bs i offset) k"
      using less.hyps [OF dec e1(2)] unf by auto
    then show ?thesis using True e1(1) by (subst fragment_loop.simps) (simp add: Let_def add.commute)
  next
    case False
    then show ?thesis using less.prems by (subst fragment_loop.simps, subst (asm) frags_from.simps, subst frags_from.simps) auto
  qed
qed

lemma send_ok:
  assumes "carries c q (length (frags chunk bs) + k)"
  shows "\<exists>c'. send_fragmented_with chunk emit c bs = (Ok (), c') \<and> carries c' (q @ frags chunk bs) k"
  using assms emit_ok [of c q k bs 0 False] fragment_loop_ok [of c q bs 0 0 k]
  by (auto simp: send_fragmented_with_def frags_def)

lemma reassemble_loop_ok:
  "carries c (frags_from chunk bs i offset @ q) k \<Longrightarrow> offset < length bs \<Longrightarrow> i + length (frags_from chunk bs i offset) \<le> 2 ^ 15 \<Longrightarrow>
   length bs \<le> MAX_REASSEMBLED_SIZE \<Longrightarrow>
   \<exists>c'. reassemble_loop recv out_of_order oversized c (take offset bs) i = (Some (Ok bs), c') \<and> carries c' q k"
proof (induction "length bs - offset" arbitrary: i offset c rule: less_induct)
  case less
  let ?e = "min (offset + chunk) (length bs)"
  have True': "0 < chunk \<and> offset < length bs" using chunk_pos less.prems(2) by simp
  have dec: "length bs - ?e < length bs - offset" using True' by (auto simp: min_def)
  have unf: "frags_from chunk bs i offset = (fragment_flags (of_nat i) (?e < length bs), slice_of offset ?e bs) #
      frags_from chunk bs (i + 1) ?e"
    using True' by (subst frags_from.simps) (simp add: Let_def)
  obtain f c1 where r: "recv c = (Some (Ok f), c1)" "flags (pf_header f) = fragment_flags (of_nat i) (?e < length bs)"
    "pf_payload f = slice_of offset ?e bs" "carries c1 (frags_from chunk bs (i + 1) ?e @ q) k"
    using recv_ok less.prems(1) unfolding unf by fastforce
  have "i < 2 ^ 15" using less.prems(3) unf by simp
  then have idx: "unat (drop_bit 1 (flags (pf_header f))) = i" unfolding r(2) by (rule flags_index)
  have m: "flags (pf_header f) AND FLAG_FRAGMENT_MORE \<noteq> 0 \<longleftrightarrow> ?e < length bs" by (simp add: r(2) flags_more)
  have tk: "take offset bs @ pf_payload f = take ?e bs" using less.prems(2) r(3) by (simp add: take_slice)
  have len: "length (take offset bs) + length (pf_payload f) \<le> MAX_REASSEMBLED_SIZE"
  proof -
    have "length (take offset bs @ pf_payload f) \<le> length bs" unfolding tk by simp
    then show ?thesis using less.prems(4) by simp
  qed
  show ?case
  proof (cases "?e < length bs")
    case True
    have "\<exists>c'. reassemble_loop recv out_of_order oversized c1 (take ?e bs) (i + 1) = (Some (Ok bs), c') \<and> carries c' q k"
      using less.hyps [OF dec r(4) True] less.prems(3,4) unf by simp
    then show ?thesis
      using r(1) idx m True tk len by (subst reassemble_loop.simps) (auto simp: Let_def)
  next
    case False
    then have e: "?e = length bs" by simp
    have "frags_from chunk bs (i + 1) ?e = []" using e by (subst frags_from.simps) simp
    moreover have "take offset bs @ pf_payload f = bs" using tk e by simp
    ultimately show ?thesis
      using r(1,4) idx m False len by (subst reassemble_loop.simps) (auto simp: Let_def)
  qed
qed

lemma recv_ok_whole:
  assumes c: "carries c (frags chunk bs @ q) k" and len: "length bs \<le> MAX_REASSEMBLED_SIZE" and n: "length (frags chunk bs) \<le> 2 ^ 15"
  shows "\<exists>c'. recv_reassembled_with recv out_of_order oversized c = (Some (Ok bs), c') \<and> carries c' q k"
proof (cases "length bs \<le> chunk")
  case True
  then obtain f c1 where r: "recv c = (Some (Ok f), c1)" "flags (pf_header f) = fragment_flags 0 False" "pf_payload f = bs" "carries c1 q k"
    using recv_ok c by (fastforce simp: frags_def)
  have "drop_bit 1 (flags (pf_header f)) = 0" "flags (pf_header f) AND FLAG_FRAGMENT_MORE = 0"
    using flags_more [of 0 False] by (simp_all add: r(2)) (simp add: fragment_flags_def)
  then show ?thesis using r by (simp add: recv_reassembled_with_def)
next
  case False
  then have unf: "frags chunk bs = (fragment_flags 0 True, slice_of 0 chunk bs) # frags_from chunk bs 1 chunk"
    using chunk_pos by (simp add: frags_def) (subst frags_from.simps, auto simp: Let_def)
  obtain f c1 where r: "recv c = (Some (Ok f), c1)" "flags (pf_header f) = fragment_flags 0 True"
    "pf_payload f = slice_of 0 chunk bs" "carries c1 (frags_from chunk bs 1 chunk @ q) k"
    using recv_ok c unfolding unf by fastforce
  have i0: "unat (drop_bit 1 (flags (pf_header f))) = 0" unfolding r(2) using flags_index [of 0 True] by simp
  have m: "flags (pf_header f) AND FLAG_FRAGMENT_MORE \<noteq> 0" using flags_more [of 0 True] by (simp add: r(2))
  have "\<exists>c'. reassemble_loop recv out_of_order oversized c1 (take chunk bs) 1 = (Some (Ok bs), c') \<and> carries c' q k"
    using reassemble_loop_ok [OF r(4)] False len n unf by simp
  then show ?thesis using r(1,3) i0 m by (simp add: recv_reassembled_with_def Let_def slice_of_def)
qed

end

section \<open>Loops on a part of the state\<close>

text \<open>The loops commute with embedding the state they thread into a larger one.\<close>

lemma fragment_loop_embed:
  assumes "\<And>st i m p. emit' (g st) i m p = (case emit st i m p of (r, st') \<Rightarrow> (r, g st'))"
  shows "fragment_loop chunk emit' (g st) bs index offset =
    (case fragment_loop chunk emit st bs index offset of (r, st') \<Rightarrow> (r, g st'))"
proof (induction "length bs - offset" arbitrary: st index offset rule: less_induct)
  case less
  show ?case
  proof (cases "0 < chunk \<and> offset < length bs")
    case True
    let ?e = "min (offset + chunk) (length bs)"
    have dec: "length bs - ?e < length bs - offset" using True by (auto simp: min_def)
    show ?thesis
    proof (cases "emit st index (?e < length bs) (slice_of offset ?e bs)")
      case (Pair r st')
      with True less [OF dec, of st' "index + 1"] assms [of st index "?e < length bs" "slice_of offset ?e bs"] show ?thesis
        by (subst fragment_loop.simps, subst (2) fragment_loop.simps) (cases r; simp add: Let_def)
    qed
  next
    case False
    then show ?thesis by (subst fragment_loop.simps, subst (2) fragment_loop.simps) auto
  qed
qed

lemma send_fragmented_embed:
  assumes "\<And>st i m p. emit' (g st) i m p = (case emit st i m p of (r, st') \<Rightarrow> (r, g st'))"
  shows "send_fragmented_with chunk emit' (g st) bs =
    (case send_fragmented_with chunk emit st bs of (r, st') \<Rightarrow> (r, g st'))"
  using assms fragment_loop_embed [of emit' g emit, OF assms] by (simp add: send_fragmented_with_def)

lemma reassemble_loop_embed:
  assumes "\<And>st. recv' (g st) = (case recv st of (r, st') \<Rightarrow> (r, g st'))"
  shows "reassemble_loop recv' ooo big (g st) payload expected =
    (case reassemble_loop recv ooo big st payload expected of (r, st') \<Rightarrow> (r, g st'))"
proof (induction "2 ^ 15 - expected" arbitrary: st payload expected rule: less_induct)
  case less
  obtain r st' where r: "recv st = (r, st')" by (cases "recv st")
  show ?case
  proof (cases "\<exists>f. r = Some (Ok f) \<and> unat (drop_bit 1 (flags (pf_header f))) = expected")
    case True
    then obtain f where f: "r = Some (Ok f)" "unat (drop_bit 1 (flags (pf_header f))) = expected" by blast
    have dec: "2 ^ 15 - (expected + 1) < 2 ^ 15 - expected" using index_bound [of "flags (pf_header f)"] f(2) by simp
    show ?thesis using r f less [OF dec, of st' "payload @ pf_payload f"] assms [of st]
      by (subst reassemble_loop.simps, subst (2) reassemble_loop.simps) (simp add: Let_def)
  next
    case False
    then show ?thesis using r assms [of st]
      by (subst reassemble_loop.simps, subst (2) reassemble_loop.simps)
        (auto simp: Let_def split: option.splits outcome.splits)
  qed
qed

lemma recv_reassembled_embed:
  assumes "\<And>st. recv' (g st) = (case recv st of (r, st') \<Rightarrow> (r, g st'))"
  shows "recv_reassembled_with recv' ooo big (g st) =
    (case recv_reassembled_with recv ooo big st of (r, st') \<Rightarrow> (r, g st'))"
  using assms reassemble_loop_embed [of recv' g recv, OF assms]
  by (auto simp: recv_reassembled_with_def Let_def split: prod.splits option.splits outcome.splits)

section \<open>The size limit\<close>

text \<open>Whatever arrives, a reassembled message is within the limit or a single frame's payload.\<close>

lemma reassemble_loop_bound:
  "reassemble_loop recv ooo big st payload expected = (Some (Ok bs), st') \<Longrightarrow> length bs \<le> MAX_REASSEMBLED_SIZE"
proof (induction recv ooo big st payload expected rule: reassemble_loop.induct)
  case (1 recv ooo big st payload expected)
  show ?case
    using "1.prems" "1.IH"
    by (subst (asm) reassemble_loop.simps) (force simp: Let_def split: prod.splits option.splits outcome.splits if_splits)
qed

lemma recv_reassembled_bound:
  assumes "recv_reassembled_with recv ooo big st = (Some (Ok bs), st')"
    and "\<And>f st1. recv st = (Some (Ok f), st1) \<Longrightarrow> length (pf_payload f) \<le> n" "n \<le> MAX_REASSEMBLED_SIZE"
  shows "length bs \<le> MAX_REASSEMBLED_SIZE"
proof -
  obtain f st1 where f: "recv st = (Some (Ok f), st1)"
    using assms(1) by (auto simp: recv_reassembled_with_def split: prod.splits option.splits outcome.splits)
  show ?thesis
    using assms f reassemble_loop_bound [of recv ooo big st1 "pf_payload f" _ bs st']
    by (fastforce simp: recv_reassembled_with_def Let_def split: if_splits)
qed

end
