(* ===== verification/BW_SecureConn.thy ===== *)
theory BW_SecureConn
  imports BW_Session BW_Fragment
begin

text \<open>
  The QUIC adapter (\<^verbatim>\<open>bw-transport/src/adapter.rs\<close>) and the secure connection with its split halves
  (\<^verbatim>\<open>bw-session/src/secure_conn.rs\<close>).

  The QUIC library, the CBOR library and the allocator are the parameter \<open>platform\<close>: its
  streams live in a world of type \<open>'w\<close> that both endpoints share and every operation threads.
  A read that has to wait is \<open>None\<close>.  Random nonces are arguments, with \<open>None\<close> for a failing
  generator.
\<close>

section \<open>Platform\<close>

type_synonym stream_id = nat

datatype read_exact_error = FinishedEarly nat | ReadError nat

record 'w platform =
  p_bm :: bytemuck
  p_crypto :: crypto_lib
  p_addr :: "nat \<Rightarrow> nat"
  p_frame_cbor :: "encrypted_frame cbor"
  p_write_all :: "'w \<Rightarrow> stream_id \<Rightarrow> bytes \<Rightarrow> (unit, nat) outcome \<times> 'w"
  p_read_exact :: "'w \<Rightarrow> stream_id \<Rightarrow> nat \<Rightarrow> (bytes, read_exact_error) outcome option \<times> 'w"
  p_finish :: "'w \<Rightarrow> stream_id \<Rightarrow> 'w"

section \<open>Adapter\<close>

datatype adapter_error = AdapterWrite nat | AdapterRead nat | AdapterProtocol protocol_error | AdapterClosed

record quic_adapter =
  qa_send :: stream_id
  qa_recv :: stream_id

definition send_frame :: "'w platform \<Rightarrow> 'w \<Rightarrow> stream_id \<Rightarrow> protocol_frame \<Rightarrow> (unit, adapter_error) outcome \<times> 'w" where
  "send_frame P w sid frame =
     (case p_write_all P w sid (encode_frame (p_bm P) frame) of
        (Ok _, w') \<Rightarrow> (Ok (), w')
      | (Err e, w') \<Rightarrow> (Err (AdapterWrite e), w')
      | (Panic, w') \<Rightarrow> (Panic, w'))"

fun read_error :: "read_exact_error \<Rightarrow> adapter_error" where
  "read_error (FinishedEarly _) = AdapterClosed"
| "read_error (ReadError e) = AdapterRead e"

definition recv_frame :: "'w platform \<Rightarrow> 'w \<Rightarrow> stream_id \<Rightarrow> (protocol_frame, adapter_error) outcome option \<times> 'w" where
  "recv_frame P w sid =
     (case p_read_exact P w sid HEADER_SIZE of
        (None, w1) \<Rightarrow> (None, w1)
      | (Some (Err e), w1) \<Rightarrow> (Some (Err (read_error e)), w1)
      | (Some Panic, w1) \<Rightarrow> (Some Panic, w1)
      | (Some (Ok header_buf), w1) \<Rightarrow>
          (case map_err AdapterProtocol (try_from_bytes (p_bm P) (p_addr P HEADER_SIZE) header_buf) of
             Err e \<Rightarrow> (Some (Err e), w1)
           | Panic \<Rightarrow> (Some Panic, w1)
           | Ok header \<Rightarrow>
               let n = unat (payload_length header);
                   total_size = HEADER_SIZE + n
               in (case (if 0 < n then p_read_exact P w1 sid n else (Some (Ok []), w1)) of
                     (None, w2) \<Rightarrow> (None, w2)
                   | (Some (Err e), w2) \<Rightarrow> (Some (Err (read_error e)), w2)
                   | (Some Panic, w2) \<Rightarrow> (Some Panic, w2)
                   | (Some (Ok body), w2) \<Rightarrow>
                       (Some (map_err AdapterProtocol
                          (decode_frame (p_bm P) (p_addr P total_size) (header_buf @ body))), w2))))"

section \<open>Secure connection\<close>

datatype secure_conn_error =
    SCAdapter adapter_error
  | SCProtocol protocol_error
  | LifecycleError
  | HandshakeFailed
  | NonceFailed
  | SCCrypto crypto_error
  | FragmentOutOfOrder
  | OversizedMessage nat

definition PACKET_TYPE_HANDSHAKE :: u16 where
  "PACKET_TYPE_HANDSHAKE = 1"

definition PACKET_TYPE_MESSAGE :: u16 where
  "PACKET_TYPE_MESSAGE = 2"

record secure_connection =
  sc_adapter :: quic_adapter
  sc_session_id :: session_id
  sc_lifecycle :: lifecycle

definition secure_new :: "quic_adapter \<Rightarrow> session_id \<Rightarrow> secure_connection" where
  "secure_new a i = \<lparr>sc_adapter = a, sc_session_id = i, sc_lifecycle = lifecycle_new\<rparr>"

definition sc_state :: "secure_connection \<Rightarrow> connection_state" where
  "sc_state c = get_state (sc_lifecycle c)"

definition handshake_frame :: "bytes \<Rightarrow> protocol_frame" where
  "handshake_frame nonce = \<lparr>pf_header = default_header\<lparr>magic := PROTOCOL_MAGIC,
     schema_version := u16_of_version CURRENT_VERSION, packet_type := PACKET_TYPE_HANDSHAKE,
     payload_length := 16\<rparr>, pf_payload = nonce\<rparr>"

definition fragment_frame :: "u16 \<Rightarrow> bool \<Rightarrow> bytes \<Rightarrow> protocol_frame" where
  "fragment_frame index is_more payload = \<lparr>pf_header = default_header\<lparr>magic := PROTOCOL_MAGIC,
     schema_version := u16_of_version CURRENT_VERSION, packet_type := PACKET_TYPE_MESSAGE,
     flags := fragment_flags index is_more, payload_length := of_nat (length payload)\<rparr>, pf_payload = payload\<rparr>"

text \<open>
  The handshakes wait for the peer in the middle; the client's is modelled by the part up to its
  request and the part from the response on.
\<close>

definition client_handshake_start :: "'w platform \<Rightarrow> 'w \<Rightarrow> secure_connection \<Rightarrow> bytes option \<Rightarrow>
    (unit, secure_conn_error) outcome \<times> secure_connection \<times> 'w" where
  "client_handshake_start P w c rng =
     (case transition (sc_lifecycle c) Connected Handshaking of
        (Err _, l) \<Rightarrow> (Err LifecycleError, c\<lparr>sc_lifecycle := l\<rparr>, w)
      | (Panic, l) \<Rightarrow> (Panic, c\<lparr>sc_lifecycle := l\<rparr>, w)
      | (Ok _, l) \<Rightarrow>
          let c1 = c\<lparr>sc_lifecycle := l\<rparr> in
          (case rng of
             None \<Rightarrow> (Err NonceFailed, c1, w)
           | Some client_nonce \<Rightarrow>
               (case send_frame P w (qa_send (sc_adapter c1)) (handshake_frame client_nonce) of
                  (r, w') \<Rightarrow> (map_err SCAdapter r, c1, w'))))"

definition client_handshake_finish :: "'w platform \<Rightarrow> 'w \<Rightarrow> session_manager \<Rightarrow> secure_connection \<Rightarrow> bytes \<Rightarrow> bytes \<Rightarrow>
    (unit, secure_conn_error) outcome option \<times> secure_connection \<times> session_manager \<times> 'w" where
  "client_handshake_finish P w sm c client_nonce session_key =
     (case recv_frame P w (qa_recv (sc_adapter c)) of
        (None, w1) \<Rightarrow> (None, c, sm, w1)
      | (Some (Err e), w1) \<Rightarrow> (Some (Err (SCAdapter e)), c, sm, w1)
      | (Some Panic, w1) \<Rightarrow> (Some Panic, c, sm, w1)
      | (Some (Ok resp), w1) \<Rightarrow>
          if packet_type (pf_header resp) \<noteq> PACKET_TYPE_HANDSHAKE \<or> length (pf_payload resp) \<noteq> 16
          then (Some (Err HandshakeFailed), c, sm, w1)
          else (case hkdf_derive (p_crypto P) None session_key (Some (ascii ''opaque-session'')) of
                  Err e \<Rightarrow> (Some (Err (SCCrypto e)), c, sm, w1)
                | Panic \<Rightarrow> (Some Panic, c, sm, w1)
                | Ok master_secret \<Rightarrow>
                    (case create_session_from_handshake (p_crypto P) sm (sc_session_id c) master_secret
                            client_nonce (pf_payload resp) (Counter 10000) of
                       (Err e, sm') \<Rightarrow> (Some (Err (SCProtocol e)), c, sm', w1)
                     | (Panic, sm') \<Rightarrow> (Some Panic, c, sm', w1)
                     | (Ok _, sm') \<Rightarrow>
                         (case transition (sc_lifecycle c) Handshaking Active of
                            (r, l) \<Rightarrow> (Some (map_err (\<lambda>_. LifecycleError) r), c\<lparr>sc_lifecycle := l\<rparr>, sm', w1)))))"

definition server_handshake :: "'w platform \<Rightarrow> 'w \<Rightarrow> session_manager \<Rightarrow> secure_connection \<Rightarrow> bytes option \<Rightarrow> bytes \<Rightarrow>
    (unit, secure_conn_error) outcome option \<times> secure_connection \<times> session_manager \<times> 'w" where
  "server_handshake P w sm c rng session_key =
     (case transition (sc_lifecycle c) Connected Handshaking of
        (Err _, l) \<Rightarrow> (Some (Err LifecycleError), c\<lparr>sc_lifecycle := l\<rparr>, sm, w)
      | (Panic, l) \<Rightarrow> (Some Panic, c\<lparr>sc_lifecycle := l\<rparr>, sm, w)
      | (Ok _, l) \<Rightarrow>
          let c1 = c\<lparr>sc_lifecycle := l\<rparr> in
          (case recv_frame P w (qa_recv (sc_adapter c1)) of
             (None, w1) \<Rightarrow> (None, c1, sm, w1)
           | (Some (Err e), w1) \<Rightarrow> (Some (Err (SCAdapter e)), c1, sm, w1)
           | (Some Panic, w1) \<Rightarrow> (Some Panic, c1, sm, w1)
           | (Some (Ok req), w1) \<Rightarrow>
               if packet_type (pf_header req) \<noteq> PACKET_TYPE_HANDSHAKE \<or> length (pf_payload req) \<noteq> 16
               then (Some (Err HandshakeFailed), c1, sm, w1)
               else (case rng of
                       None \<Rightarrow> (Some (Err NonceFailed), c1, sm, w1)
                     | Some server_nonce \<Rightarrow>
                         (case send_frame P w1 (qa_send (sc_adapter c1)) (handshake_frame server_nonce) of
                            (Err e, w2) \<Rightarrow> (Some (Err (SCAdapter e)), c1, sm, w2)
                          | (Panic, w2) \<Rightarrow> (Some Panic, c1, sm, w2)
                          | (Ok _, w2) \<Rightarrow>
                              (case hkdf_derive (p_crypto P) None session_key (Some (ascii ''opaque-session'')) of
                                 Err e \<Rightarrow> (Some (Err (SCCrypto e)), c1, sm, w2)
                               | Panic \<Rightarrow> (Some Panic, c1, sm, w2)
                               | Ok master_secret \<Rightarrow>
                                   (case derive_session_keys (p_crypto P) master_secret (pf_payload req) server_nonce of
                                      Err e \<Rightarrow> (Some (Err (SCProtocol e)), c1, sm, w2)
                                    | Panic \<Rightarrow> (Some Panic, c1, sm, w2)
                                    | Ok client_keys \<Rightarrow>
                                        let server_keys = \<lparr>sk_send_key = sk_recv_key client_keys,
                                              sk_recv_key = sk_send_key client_keys, sk_epoch = sk_epoch client_keys\<rparr>
                                        in (case create_session_with_context sm (sc_session_id c1)
                                                   (context_new server_keys (Counter 10000)) of
                                              (Err e, sm') \<Rightarrow> (Some (Err (SCProtocol e)), c1, sm', w2)
                                            | (Panic, sm') \<Rightarrow> (Some Panic, c1, sm', w2)
                                            | (Ok _, sm') \<Rightarrow>
                                                (case transition (sc_lifecycle c1) Handshaking Active of
                                                   (r, l') \<Rightarrow> (Some (map_err (\<lambda>_. LifecycleError) r),
                                                     c1\<lparr>sc_lifecycle := l'\<rparr>, sm', w2)))))))))"

section \<open>Encrypted frames over the adapter\<close>

definition send_one_fragment :: "'w platform \<Rightarrow> stream_id \<Rightarrow> 'w \<Rightarrow> u16 \<Rightarrow> bool \<Rightarrow> bytes \<Rightarrow>
    (unit, secure_conn_error) outcome \<times> 'w" where
  "send_one_fragment P sid w index is_more payload =
     (case send_frame P w sid (fragment_frame index is_more payload) of (r, w') \<Rightarrow> (map_err SCAdapter r, w'))"

definition send_fragments :: "'w platform \<Rightarrow> stream_id \<Rightarrow> 'w \<Rightarrow> bytes \<Rightarrow> (unit, secure_conn_error) outcome \<times> 'w" where
  "send_fragments P sid w cbor_bytes = send_fragmented_with FRAGMENT_SIZE (send_one_fragment P sid) w cbor_bytes"

definition recv_fragment :: "'w platform \<Rightarrow> stream_id \<Rightarrow> 'w \<Rightarrow> (protocol_frame, secure_conn_error) outcome option \<times> 'w" where
  "recv_fragment P sid w =
     (case recv_frame P w sid of (r, w') \<Rightarrow> (map_option (map_err SCAdapter) r, w'))"

definition recv_fragments :: "'w platform \<Rightarrow> stream_id \<Rightarrow> 'w \<Rightarrow> (bytes, secure_conn_error) outcome option \<times> 'w" where
  "recv_fragments P sid w = recv_reassembled_with (recv_fragment P sid) FragmentOutOfOrder OversizedMessage w"

text \<open>The send and receive halves of a split connection.\<close>

record secure_sender =
  ss_stream :: stream_id
  ss_session_id :: session_id

record secure_receiver =
  sr_stream :: stream_id
  sr_session_id :: session_id

definition sc_into_split :: "secure_connection \<Rightarrow> secure_sender \<times> secure_receiver" where
  "sc_into_split c =
     (\<lparr>ss_stream = qa_send (sc_adapter c), ss_session_id = sc_session_id c\<rparr>,
      \<lparr>sr_stream = qa_recv (sc_adapter c), sr_session_id = sc_session_id c\<rparr>)"

definition ss_send_secure_frame :: "'w platform \<Rightarrow> secure_sender \<Rightarrow> session_manager \<times> 'w \<Rightarrow> owned_protocol_frame \<Rightarrow>
    (unit, secure_conn_error) outcome \<times> session_manager \<times> 'w" where
  "ss_send_secure_frame P s st frame =
     (case st of (sm, w) \<Rightarrow>
      (case with_session_context sm (ss_session_id s) (\<lambda>ctx. encrypt_frame (p_bm P) (p_crypto P) ctx frame) of
         (r, sm') \<Rightarrow>
           (case map_err SCProtocol (obind (obind r id) (ef_serialize (p_frame_cbor P))) of
              Err e \<Rightarrow> (Err e, sm', w)
            | Panic \<Rightarrow> (Panic, sm', w)
            | Ok cbor_bytes \<Rightarrow> (case send_fragments P (ss_stream s) w cbor_bytes of (r', w') \<Rightarrow> (r', sm', w')))))"

definition sr_recv_secure_frame :: "'w platform \<Rightarrow> secure_receiver \<Rightarrow> session_manager \<times> 'w \<Rightarrow>
    (owned_protocol_frame, secure_conn_error) outcome option \<times> session_manager \<times> 'w" where
  "sr_recv_secure_frame P s st =
     (case st of (sm, w) \<Rightarrow>
      (case recv_fragments P (sr_stream s) w of
         (None, w') \<Rightarrow> (None, sm, w')
       | (Some (Err e), w') \<Rightarrow> (Some (Err e), sm, w')
       | (Some Panic, w') \<Rightarrow> (Some Panic, sm, w')
       | (Some (Ok cbor_bytes), w') \<Rightarrow>
           (case map_err SCProtocol (ef_deserialize (p_frame_cbor P) cbor_bytes) of
              Err e \<Rightarrow> (Some (Err e), sm, w')
            | Panic \<Rightarrow> (Some Panic, sm, w')
            | Ok encrypted \<Rightarrow>
                (case with_session_context sm (sr_session_id s)
                        (\<lambda>ctx. decrypt_frame (p_bm P) (p_crypto P) (p_addr P (length (ef_ciphertext encrypted))) ctx encrypted) of
                   (r, sm') \<Rightarrow> (Some (map_err SCProtocol (obind r id)), sm', w')))))"

text \<open>The operations of the unsplit connection also require the lifecycle to be active.\<close>

definition send_secure_frame :: "'w platform \<Rightarrow> secure_connection \<Rightarrow> session_manager \<times> 'w \<Rightarrow> owned_protocol_frame \<Rightarrow>
    (unit, secure_conn_error) outcome \<times> session_manager \<times> 'w" where
  "send_secure_frame P c st frame =
     (if sc_state c \<noteq> Active then (Err LifecycleError, st)
      else case st of (sm, w) \<Rightarrow>
      (case with_session_context sm (sc_session_id c) (\<lambda>ctx. encrypt_frame (p_bm P) (p_crypto P) ctx frame) of
         (r, sm') \<Rightarrow>
           (case map_err SCProtocol (obind (obind r id) (ef_serialize (p_frame_cbor P))) of
              Err e \<Rightarrow> (Err e, sm', w)
            | Panic \<Rightarrow> (Panic, sm', w)
            | Ok cbor_bytes \<Rightarrow>
                (case send_fragments P (qa_send (sc_adapter c)) w cbor_bytes of (r', w') \<Rightarrow> (r', sm', w')))))"

definition recv_secure_frame :: "'w platform \<Rightarrow> secure_connection \<Rightarrow> session_manager \<times> 'w \<Rightarrow>
    (owned_protocol_frame, secure_conn_error) outcome option \<times> session_manager \<times> 'w" where
  "recv_secure_frame P c st =
     (if sc_state c \<noteq> Active then (Some (Err LifecycleError), st)
      else case st of (sm, w) \<Rightarrow>
      (case recv_fragments P (qa_recv (sc_adapter c)) w of
         (None, w') \<Rightarrow> (None, sm, w')
       | (Some (Err e), w') \<Rightarrow> (Some (Err e), sm, w')
       | (Some Panic, w') \<Rightarrow> (Some Panic, sm, w')
       | (Some (Ok cbor_bytes), w') \<Rightarrow>
           (case map_err SCProtocol (ef_deserialize (p_frame_cbor P) cbor_bytes) of
              Err e \<Rightarrow> (Some (Err e), sm, w')
            | Panic \<Rightarrow> (Some Panic, sm, w')
            | Ok encrypted \<Rightarrow>
                (case with_session_context sm (sc_session_id c)
                        (\<lambda>ctx. decrypt_frame (p_bm P) (p_crypto P) (p_addr P (length (ef_ciphertext encrypted))) ctx encrypted) of
                   (r, sm') \<Rightarrow> (Some (map_err SCProtocol (obind r id)), sm', w')))))"

definition sc_close :: "'w platform \<Rightarrow> secure_connection \<Rightarrow> session_manager \<times> 'w \<Rightarrow> secure_connection \<times> session_manager \<times> 'w" where
  "sc_close P c st =
     (let c1 = c\<lparr>sc_lifecycle := force_state (sc_lifecycle c) Closing\<rparr>;
          sm' = snd (close_session (fst st) (sc_session_id c1));
          w' = p_finish P (snd st) (qa_send (sc_adapter c1))
      in (c1\<lparr>sc_lifecycle := force_state (sc_lifecycle c1) Closed\<rparr>, sm', w'))"

lemma send_secure_frame_split:
  "send_secure_frame P c st f =
     (if sc_state c \<noteq> Active then (Err LifecycleError, st) else ss_send_secure_frame P (fst (sc_into_split c)) st f)"
  by (cases st) (simp add: send_secure_frame_def ss_send_secure_frame_def sc_into_split_def split: prod.split outcome.split)

lemma recv_secure_frame_split:
  "recv_secure_frame P c st =
     (if sc_state c \<noteq> Active then (Some (Err LifecycleError), st) else sr_recv_secure_frame P (snd (sc_into_split c)) st)"
  by (cases st) (simp add: recv_secure_frame_def sr_recv_secure_frame_def sc_into_split_def
      split: prod.split option.split outcome.split)

section \<open>What the platform promises\<close>

definition quinn_contract :: "'w platform \<Rightarrow> ('w \<Rightarrow> stream_id \<Rightarrow> bytes) \<Rightarrow> ('w \<Rightarrow> stream_id \<Rightarrow> bool) \<Rightarrow> bool" where
  "quinn_contract P flight live \<longleftrightarrow>
     (\<forall>w s b. live w s \<longrightarrow> (\<exists>w'. p_write_all P w s b = (Ok (), w') \<and> flight w' s = flight w s @ b \<and> live w' s \<and>
        (\<forall>t. t \<noteq> s \<longrightarrow> flight w' t = flight w t \<and> live w' t = live w t))) \<and>
     (\<forall>w s n. n \<le> length (flight w s) \<longrightarrow>
        (\<exists>w'. p_read_exact P w s n = (Some (Ok (take n (flight w s))), w') \<and> flight w' s = drop n (flight w s) \<and>
        (\<forall>t. live w' t = live w t \<and> (t \<noteq> s \<longrightarrow> flight w' t = flight w t))))"

definition frame_cbor_contract :: "encrypted_frame cbor \<Rightarrow> bool" where
  "frame_cbor_contract cb \<longleftrightarrow> cbor_contract cb \<and>
     (\<forall>e. \<exists>bs. into_writer cb e = Some bs \<and>
        length bs \<le> 2 * (length (ef_ciphertext e) + length (nonce_bytes (ef_nonce e)) + length (ef_tag e)) + 128)"

definition platform_ok :: "'w platform \<Rightarrow> ('w \<Rightarrow> stream_id \<Rightarrow> bytes) \<Rightarrow> ('w \<Rightarrow> stream_id \<Rightarrow> bool) \<Rightarrow> bool" where
  "platform_ok P flight live \<longleftrightarrow> bytemuck_contract (p_bm P) \<and> aead_contract (p_crypto P) \<and> hkdf_contract (p_crypto P) \<and>
     (\<forall>n. p_addr P n mod 8 = 0) \<and> frame_cbor_contract (p_frame_cbor P) \<and> quinn_contract P flight live"

lemma platform_okD:
  assumes "platform_ok P flight live"
  shows "bytemuck_contract (p_bm P)" "aead_contract (p_crypto P)" "hkdf_contract (p_crypto P)" "p_addr P n mod 8 = 0"
    "frame_cbor_contract (p_frame_cbor P)" "quinn_contract P flight live"
  using assms by (simp_all add: platform_ok_def)

section \<open>Frames over the stream\<close>

lemma send_frame_ok:
  assumes "platform_ok P flight live" "live w s"
  shows "\<exists>w'. send_frame P w s f = (Ok (), w') \<and> flight w' s = flight w s @ encode_frame (p_bm P) f \<and> live w' s \<and>
     (\<forall>t. t \<noteq> s \<longrightarrow> flight w' t = flight w t \<and> live w' t = live w t)"
proof -
  let ?b = "encode_frame (p_bm P) f"
  obtain w' where "p_write_all P w s ?b = (Ok (), w')" "flight w' s = flight w s @ ?b" "live w' s"
    "\<forall>t. t \<noteq> s \<longrightarrow> flight w' t = flight w t \<and> live w' t = live w t"
    using platform_okD(6) [OF assms(1)] assms(2) unfolding quinn_contract_def by blast
  then show ?thesis by (simp add: send_frame_def)
qed

lemma read_exact_ok:
  assumes "platform_ok P flight live" "flight w s = xs @ ys" "length xs = n"
  obtains w' where "p_read_exact P w s n = (Some (Ok xs), w')" "flight w' s = ys"
    "\<forall>t. live w' t = live w t" "\<forall>t. t \<noteq> s \<longrightarrow> flight w' t = flight w t"
proof -
  have "n \<le> length (flight w s)" using assms(2,3) by simp
  then obtain w' where "p_read_exact P w s n = (Some (Ok (take n (flight w s))), w')" "flight w' s = drop n (flight w s)"
    "\<forall>t. live w' t = live w t \<and> (t \<noteq> s \<longrightarrow> flight w' t = flight w t)"
    using platform_okD(6) [OF assms(1)] unfolding quinn_contract_def by blast
  then show ?thesis using that assms(2,3) by simp
qed

lemma recv_frame_ok:
  assumes P: "platform_ok P flight live" and f: "frame_ok f" and fl: "flight w s = encode_frame (p_bm P) f @ rest"
  shows "\<exists>w'. recv_frame P w s = (Some (Ok f), w') \<and> flight w' s = rest \<and> (\<forall>t. live w' t = live w t) \<and>
     (\<forall>t. t \<noteq> s \<longrightarrow> flight w' t = flight w t)"
proof -
  let ?h = "as_bytes (p_bm P) (pf_header f)"
  have bm: "bytemuck_contract (p_bm P)" and ad: "\<And>n. p_addr P n mod 8 = 0" using platform_okD [OF P] by auto
  have hl: "length ?h = HEADER_SIZE" using f bm by (simp add: frame_ok_def)
  have fl': "flight w s = ?h @ pf_payload f @ rest" using fl by (simp add: encode_frame_def)
  obtain w1 where r1: "p_read_exact P w s HEADER_SIZE = (Some (Ok ?h), w1)" "flight w1 s = pf_payload f @ rest"
    "\<forall>t. live w1 t = live w t" "\<forall>t. t \<noteq> s \<longrightarrow> flight w1 t = flight w t"
    by (rule read_exact_ok [OF P fl' hl])
  have th: "try_from_bytes (p_bm P) (p_addr P HEADER_SIZE) ?h = Ok (pf_header f)"
    using try_from_bytes_encoded [OF bm, of "pf_header f" "p_addr P HEADER_SIZE" "[]"] f ad by (simp add: frame_ok_def)
  have pl: "unat (payload_length (pf_header f)) = length (pf_payload f)" using f by (simp add: frame_ok_def)
  have dec: "decode_frame (p_bm P) (p_addr P n) (?h @ pf_payload f) = Ok f" for n
    using decode_encode [OF bm f ad] by (simp add: encode_frame_def)
  show ?thesis
  proof (cases "pf_payload f = []")
    case True
    then show ?thesis using r1 th pl dec by (simp add: recv_frame_def Let_def)
  next
    case False
    obtain w2 where "p_read_exact P w1 s (length (pf_payload f)) = (Some (Ok (pf_payload f)), w2)" "flight w2 s = rest"
      "\<forall>t. live w2 t = live w1 t" "\<forall>t. t \<noteq> s \<longrightarrow> flight w2 t = flight w1 t"
      by (rule read_exact_ok [OF P r1(2) refl])
    then show ?thesis using r1 th pl dec False by (simp add: recv_frame_def Let_def)
  qed
qed

section \<open>Fragments over the stream\<close>

definition frame_with :: "u16 \<Rightarrow> bytes \<Rightarrow> protocol_frame" where
  "frame_with fl p = \<lparr>pf_header = default_header\<lparr>magic := PROTOCOL_MAGIC,
     schema_version := u16_of_version CURRENT_VERSION, packet_type := PACKET_TYPE_MESSAGE,
     flags := fl, payload_length := of_nat (length p)\<rparr>, pf_payload = p\<rparr>"

lemma fragment_frame_with: "fragment_frame i m p = frame_with (fragment_flags i m) p"
  by (simp add: fragment_frame_def frame_with_def)

lemma frame_with_simps [simp]: "flags (pf_header (frame_with fl p)) = fl" "pf_payload (frame_with fl p) = p"
  by (simp_all add: frame_with_def)

lemma frame_with_ok: "length p < 2 ^ 16 \<Longrightarrow> frame_ok (frame_with fl p)"
  by (simp add: frame_ok_def frame_with_def wf_header_def PROTOCOL_MAGIC_def header_validate_def is_compatible_with_def
      unat_of_nat take_bit_nat_eq_self)

definition stream_carries :: "'w platform \<Rightarrow> ('w \<Rightarrow> stream_id \<Rightarrow> bytes) \<Rightarrow> ('w \<Rightarrow> stream_id \<Rightarrow> bool) \<Rightarrow> stream_id \<Rightarrow>
    'w \<Rightarrow> (u16 \<times> bytes) list \<Rightarrow> nat \<Rightarrow> bool" where
  "stream_carries P flight live sid w q k \<longleftrightarrow> platform_ok P flight live \<and> live w sid \<and>
     flight w sid = concat (map (\<lambda>(fl, p). encode_frame (p_bm P) (frame_with fl p)) q) \<and>
     (\<forall>(fl, p) \<in> set q. length p \<le> FRAGMENT_SIZE)"

interpretation stream_link: fragment_link FRAGMENT_SIZE "send_one_fragment P sid" "recv_fragment P sid"
  FragmentOutOfOrder OversizedMessage "stream_carries P flight live sid"
proof
  show "0 < FRAGMENT_SIZE" by (simp add: FRAGMENT_SIZE_def)
  fix w q k and p :: bytes and i m
  assume c: "stream_carries P flight live sid w q (Suc k)" and l: "length p \<le> FRAGMENT_SIZE"
  then obtain w' where "send_frame P w sid (fragment_frame i m p) = (Ok (), w')"
    "flight w' sid = flight w sid @ encode_frame (p_bm P) (fragment_frame i m p)" "live w' sid"
    using send_frame_ok [of P flight live w sid] unfolding stream_carries_def by blast
  then show "\<exists>c'. send_one_fragment P sid w i m p = (Ok (), c') \<and>
      stream_carries P flight live sid c' (q @ [(fragment_flags i m, p)]) k"
    using c l by (auto simp: send_one_fragment_def stream_carries_def fragment_frame_with)
next
  fix w fl p q k
  assume c: "stream_carries P flight live sid w ((fl, p) # q) k"
  then have "length p < 2 ^ 16" by (simp add: stream_carries_def FRAGMENT_SIZE_def)
  then have "frame_ok (frame_with fl p)" by (rule frame_with_ok)
  then obtain w' where "recv_frame P w sid = (Some (Ok (frame_with fl p)), w')"
    "flight w' sid = concat (map (\<lambda>(fl, p). encode_frame (p_bm P) (frame_with fl p)) q)" "\<forall>t. live w' t = live w t"
    using recv_frame_ok [of P flight live "frame_with fl p" w sid] c by (auto simp: stream_carries_def)
  then show "\<exists>f c'. recv_fragment P sid w = (Some (Ok f), c') \<and> flags (pf_header f) = fl \<and> pf_payload f = p \<and>
      stream_carries P flight live sid c' q k"
    using c by (auto simp: recv_fragment_def stream_carries_def intro!: exI [of _ "frame_with fl p"])
qed

lemma recv_fragment_bound:
  assumes "bytemuck_contract (p_bm P)" "recv_fragment P sid w = (Some (Ok f), w')"
  shows "length (pf_payload f) < 2 ^ 16"
proof -
  obtain a bs where "decode_frame (p_bm P) a bs = Ok f"
    using assms(2)
    by (auto simp: recv_fragment_def recv_frame_def Let_def outcome_simps
        split: prod.splits option.splits outcome.splits if_splits)
  then show ?thesis using decode_frame_OkD [OF assms(1)] frame_ok_payload_bound by blast
qed

text \<open>Whatever a peer sends, a message reassembled from the stream is at most 4 MiB long: the
  receiver's memory use per message is bounded, and the reassembly loop always ends.\<close>
theorem recv_fragments_bounded:
  assumes "bytemuck_contract (p_bm P)" "recv_fragments P sid w = (Some (Ok bs), w')"
  shows "length bs \<le> 4 * 1024 * 1024"
proof -
  have "length (pf_payload f) \<le> 65535" if "recv_fragment P sid w = (Some (Ok f), w1)" for f w1
    using recv_fragment_bound [OF assms(1) that] by simp
  then have "length bs \<le> MAX_REASSEMBLED_SIZE"
    by (intro recv_reassembled_bound [OF assms(2) [unfolded recv_fragments_def], of 65535])
      (auto simp: MAX_REASSEMBLED_SIZE_def)
  then show ?thesis by (simp add: MAX_REASSEMBLED_SIZE_def)
qed

section \<open>Secure frames\<close>

text \<open>The frames on the stream that carry a sequence of encrypted frames, and their decryption.\<close>

definition frame_bytes :: "'w platform \<Rightarrow> encrypted_frame \<Rightarrow> bytes" where
  "frame_bytes P enc = the (into_writer (p_frame_cbor P) enc)"

definition in_transit :: "'w platform \<Rightarrow> encrypted_frame list \<Rightarrow> (u16 \<times> bytes) list" where
  "in_transit P encs = concat (map (\<lambda>enc. frags FRAGMENT_SIZE (frame_bytes P enc)) encs)"

fun delivers :: "'w platform \<Rightarrow> frame_decryptor \<Rightarrow> encrypted_frame list \<Rightarrow> protocol_frame list \<Rightarrow> frame_decryptor \<Rightarrow> bool" where
  "delivers P d [] [] d' \<longleftrightarrow> d' = d"
| "delivers P d (e # es) (f # fs) d' \<longleftrightarrow>
     (case fd_decrypt_frame (p_bm P) (p_crypto P) (p_addr P (length (ef_ciphertext e))) d e of
        (r, d1) \<Rightarrow> r = Ok f \<and> delivers P d1 es fs d')"
| "delivers P d _ _ d' \<longleftrightarrow> False"

lemma delivers_snoc:
  "delivers P d es fs d1 \<Longrightarrow>
   fd_decrypt_frame (p_bm P) (p_crypto P) (p_addr P (length (ef_ciphertext e))) d1 e = (Ok f, d2) \<Longrightarrow>
   delivers P d (es @ [e]) (fs @ [f]) d2"
  by (induction P d es fs d1 rule: delivers.induct) (auto split: prod.splits)

definition secure_carries :: "'w platform \<Rightarrow> ('w \<Rightarrow> stream_id \<Rightarrow> bytes) \<Rightarrow> ('w \<Rightarrow> stream_id \<Rightarrow> bool) \<Rightarrow>
    secure_sender \<Rightarrow> secure_receiver \<Rightarrow> session_manager \<times> session_manager \<times> 'w \<Rightarrow> protocol_frame list \<Rightarrow> nat \<Rightarrow> bool" where
  "secure_carries P flight live s r st fs k \<longleftrightarrow>
     (case st of (smA, smB, w) \<Rightarrow> platform_ok P flight live \<and> \<not> poisoned smA \<and> \<not> poisoned smB \<and> ss_stream s = sr_stream r \<and>
       (\<exists>ctxA ctxB encs d. active_sessions smA (ss_session_id s) = Some (Some ctxA) \<and>
          active_sessions smB (sr_session_id r) = Some (Some ctxB) \<and>
          stream_carries P flight live (ss_stream s) w (in_transit P encs) 0 \<and>
          (\<forall>enc \<in> set encs. length (frame_bytes P enc) \<le> MAX_REASSEMBLED_SIZE) \<and>
          delivers P (decryptor ctxB) encs fs d \<and> synced (p_crypto P) (encryptor ctxA) d \<and>
          unat (fe_counter (encryptor ctxA)) + k < 2 ^ 64))"

lemma stream_carries_any: "stream_carries P flight live sid w q k \<Longrightarrow> stream_carries P flight live sid w q k'"
  by (simp add: stream_carries_def)

lemma frame_bytes_ok:
  assumes "frame_cbor_contract (p_frame_cbor P)"
  shows "ef_serialize (p_frame_cbor P) enc = Ok (frame_bytes P enc)"
    and "from_reader (p_frame_cbor P) (frame_bytes P enc) = Some enc"
    and "length (frame_bytes P enc) \<le> 2 * (length (ef_ciphertext enc) + length (nonce_bytes (ef_nonce enc)) + length (ef_tag enc)) + 128"
proof -
  obtain bs where "into_writer (p_frame_cbor P) enc = Some bs"
     "length bs \<le> 2 * (length (ef_ciphertext enc) + length (nonce_bytes (ef_nonce enc)) + length (ef_tag enc)) + 128"
    using assms unfolding frame_cbor_contract_def by blast
  moreover have "cbor_contract (p_frame_cbor P)" using assms by (simp add: frame_cbor_contract_def)
  ultimately show "ef_serialize (p_frame_cbor P) enc = Ok (frame_bytes P enc)"
    "from_reader (p_frame_cbor P) (frame_bytes P enc) = Some enc"
    "length (frame_bytes P enc) \<le> 2 * (length (ef_ciphertext enc) + length (nonce_bytes (ef_nonce enc)) + length (ef_tag enc)) + 128"
    by (auto simp: frame_bytes_def ef_serialize_def cbor_contract_def)
qed

lemma encrypt_frame_sizes:
  assumes "aead_contract C" "encrypt_frame bm C ctx f = (Ok enc, ctx')"
  shows "length (ef_ciphertext enc) = length (encode_frame bm f) \<and> length (nonce_bytes (ef_nonce enc)) = 12 \<and> length (ef_tag enc) = 16"
proof -
  let ?s = "encryptor ctx"
  from assms(2) obtain s1 where "fe_encrypt_frame bm C ?s f = (Ok enc, s1)"
    by (auto simp: encrypt_frame_def Let_def split: prod.splits outcome.splits if_splits)
  then obtain ct tag where "encrypt_aead C (fe_send_key ?s) (nonce_bytes (generate_nonce ?s)) (encode_frame bm f) [] = Ok (ct, tag)"
    "ef_ciphertext enc = ct" "ef_tag enc = tag" "ef_nonce enc = generate_nonce ?s"
    by (auto simp: fe_encrypt_frame_def Let_def split: outcome.splits)
  then show ?thesis using encrypt_aead_OkD [OF assms(1)] by (auto simp: generate_nonce_def)
qed

lemma secure_send_ok:
  assumes c: "secure_carries P flight live s r (smA, smB, w) fs (Suc k)"
    and f: "frame_ok f" and len: "length (pf_payload f) \<le> FRAGMENT_SIZE"
  shows "\<exists>smA' w'. ss_send_secure_frame P s (smA, w) f = (Ok (), smA', w') \<and>
    secure_carries P flight live s r (smA', smB, w') (fs @ [f]) k"
proof -
  let ?C = "p_crypto P" and ?bm = "p_bm P"
  from c obtain ctxA ctxB encs d where P: "platform_ok P flight live" and np: "\<not> poisoned smA" "\<not> poisoned smB"
    and ids: "ss_stream s = sr_stream r" "active_sessions smA (ss_session_id s) = Some (Some ctxA)"
      "active_sessions smB (sr_session_id r) = Some (Some ctxB)"
    and q: "stream_carries P flight live (ss_stream s) w (in_transit P encs) 0"
      "\<forall>enc \<in> set encs. length (frame_bytes P enc) \<le> MAX_REASSEMBLED_SIZE"
    and y: "delivers P (decryptor ctxB) encs fs d" "synced ?C (encryptor ctxA) d"
      "unat (fe_counter (encryptor ctxA)) + Suc k < 2 ^ 64"
    unfolding secure_carries_def by auto
  note K = platform_okD [OF P]
  have ov: "unat (fe_counter (encryptor ctxA)) + 1 < 2 ^ 64" using y(3) by simp
  obtain enc ctxA' where e: "encrypt_frame ?bm ?C ctxA f = (Ok enc, ctxA')"
    using synced_step [OF K(1-3) f, of 0 ctxA d] y(2) ov by auto
  obtain d' where d': "fd_decrypt_frame ?bm ?C (p_addr P (length (ef_ciphertext enc))) d enc = (Ok f, d')"
    "synced ?C (encryptor ctxA') d'" "unat (fe_counter (encryptor ctxA')) \<le> unat (fe_counter (encryptor ctxA)) + 1"
    using synced_step [OF K(1-3) f K(4) y(2) ov] e by fastforce
  let ?smA = "smA\<lparr>active_sessions := (active_sessions smA)(ss_session_id s \<mapsto> Some ctxA')\<rparr>"
  have "length (encode_frame ?bm f) \<le> 60032"
    using length_encode_frame [OF K(1)] f len by (simp add: frame_ok_def HEADER_SIZE_def FRAGMENT_SIZE_def)
  then have fb: "length (frame_bytes P enc) \<le> MAX_REASSEMBLED_SIZE"
    using frame_bytes_ok(3) [OF K(5), of enc] encrypt_frame_sizes [OF K(2) e] by (simp add: MAX_REASSEMBLED_SIZE_def)
  obtain w' where w': "send_fragments P (ss_stream s) w (frame_bytes P enc) = (Ok (), w')"
    "stream_carries P flight live (ss_stream s) w' (in_transit P encs @ frags FRAGMENT_SIZE (frame_bytes P enc)) 0"
    using stream_link.send_ok [OF stream_carries_any [OF q(1)], of "frame_bytes P enc" 0]
    unfolding send_fragments_def by auto
  have "ss_send_secure_frame P s (smA, w) f = (Ok (), ?smA, w')"
    using np ids e w'(1) frame_bytes_ok(1) [OF K(5), of enc]
    by (simp add: ss_send_secure_frame_def with_session_context_def)
  moreover have "secure_carries P flight live s r (?smA, smB, w') (fs @ [f]) k"
    unfolding secure_carries_def
    using P np ids w'(2) q(2) fb delivers_snoc [OF y(1) d'(1)] d'(2,3) y(3)
    by (auto simp: in_transit_def intro!: exI [of _ "encs @ [enc]"] exI [of _ d'])
  ultimately show ?thesis by blast
qed

lemma secure_recv_ok:
  assumes c: "secure_carries P flight live s r (smA, smB, w) (f # fs) k"
  shows "\<exists>smB' w'. sr_recv_secure_frame P r (smB, w) = (Some (Ok f), smB', w') \<and>
    secure_carries P flight live s r (smA, smB', w') fs k"
proof -
  let ?C = "p_crypto P" and ?bm = "p_bm P"
  from c obtain ctxA ctxB encs d where P: "platform_ok P flight live" and np: "\<not> poisoned smA" "\<not> poisoned smB"
    and ids: "ss_stream s = sr_stream r" "active_sessions smA (ss_session_id s) = Some (Some ctxA)"
      "active_sessions smB (sr_session_id r) = Some (Some ctxB)"
    and q: "stream_carries P flight live (ss_stream s) w (in_transit P encs) 0"
      "\<forall>enc \<in> set encs. length (frame_bytes P enc) \<le> MAX_REASSEMBLED_SIZE"
    and y: "delivers P (decryptor ctxB) encs (f # fs) d" "synced ?C (encryptor ctxA) d"
      "unat (fe_counter (encryptor ctxA)) + k < 2 ^ 64"
    unfolding secure_carries_def by auto
  note K = platform_okD [OF P]
  from y(1) obtain enc encs' d1 where en: "encs = enc # encs'"
    and de: "fd_decrypt_frame ?bm ?C (p_addr P (length (ef_ciphertext enc))) (decryptor ctxB) enc = (Ok f, d1)"
      "delivers P d1 encs' fs d"
    by (cases encs) (auto split: prod.splits)
  have fb: "length (frame_bytes P enc) \<le> MAX_REASSEMBLED_SIZE" using q(2) en by simp
  have "stream_carries P flight live (ss_stream s) w (frags FRAGMENT_SIZE (frame_bytes P enc) @ in_transit P encs') 0"
    using q(1) en by (simp add: in_transit_def)
  from stream_link.recv_ok_whole [OF this fb] frags_count [OF fb] obtain w' where
    w': "recv_fragments P (ss_stream s) w = (Some (Ok (frame_bytes P enc)), w')"
    "stream_carries P flight live (ss_stream s) w' (in_transit P encs') 0"
    unfolding recv_fragments_def by auto
  have ser: "ef_deserialize (p_frame_cbor P) (frame_bytes P enc) = Ok enc"
    using fb frame_bytes_ok(2) [OF K(5), of enc] by (simp add: ef_deserialize_def EF_MAX_DESER_SIZE_def MAX_REASSEMBLED_SIZE_def)
  let ?smB = "smB\<lparr>active_sessions := (active_sessions smB)(sr_session_id r \<mapsto> Some (ctxB\<lparr>decryptor := d1\<rparr>))\<rparr>"
  have "sr_recv_secure_frame P r (smB, w) = (Some (Ok f), ?smB, w')"
    using np ids w'(1) ser de(1) by (simp add: sr_recv_secure_frame_def with_session_context_def decrypt_frame_def)
  moreover have "secure_carries P flight live s r (smA, ?smB, w') fs k"
    unfolding secure_carries_def using P np ids w'(2) q(2) en de(2) y(2,3)
    by (auto intro!: exI [of _ encs'] exI [of _ d])
  ultimately show ?thesis by blast
qed

section \<open>The handshake\<close>

lemma handshake_frame_ok: "length n = 16 \<Longrightarrow> frame_ok (handshake_frame n)"
  by (simp add: frame_ok_def handshake_frame_def wf_header_def PROTOCOL_MAGIC_def header_validate_def is_compatible_with_def)

lemma handshake_frame_simps [simp]:
  "packet_type (pf_header (handshake_frame n)) = PACKET_TYPE_HANDSHAKE" "pf_payload (handshake_frame n) = n"
  by (simp_all add: handshake_frame_def)

lemma synced_new: "length k = 32 \<Longrightarrow> synced C (encryptor_new k e) (decryptor_new k e)"
  by (simp add: synced_def encryptor_new_def decryptor_new_def)

text \<open>What both sides hold after the handshake: contexts with the same keys in opposite roles.\<close>

lemma established_carries:
  assumes "platform_ok P flight live" "\<not> poisoned smA" "\<not> poisoned smB" "live w sid" "flight w sid = []"
    and "active_sessions smA i = Some (Some (context_new ksA (Counter 10000)))"
    and "active_sessions smB j = Some (Some (context_new ksB (Counter 10000)))"
    and "sk_send_key ksA = sk_recv_key ksB" "sk_epoch ksA = sk_epoch ksB" "length (sk_send_key ksA) = 32" "k < 2 ^ 64"
  shows "secure_carries P flight live \<lparr>ss_stream = sid, ss_session_id = i\<rparr> \<lparr>sr_stream = sid, sr_session_id = j\<rparr>
    (smA, smB, w) [] k"
  using assms synced_new [of "sk_recv_key ksB" "p_crypto P" "sk_epoch ksB"]
  by (auto simp: secure_carries_def stream_carries_def in_transit_def context_new_def encryptor_new_def intro!: exI [of _ "[]"])

lemma client_start_ok:
  assumes P: "platform_ok P flight live" and "live w (qa_send a)"
  shows "\<exists>w1. client_handshake_start P w (secure_new a i) (Some cn) =
      (Ok (), (secure_new a i)\<lparr>sc_lifecycle := force_state lifecycle_new Handshaking\<rparr>, w1) \<and>
    flight w1 (qa_send a) = flight w (qa_send a) @ encode_frame (p_bm P) (handshake_frame cn) \<and> live w1 (qa_send a) \<and>
    (\<forall>t. t \<noteq> qa_send a \<longrightarrow> flight w1 t = flight w t \<and> live w1 t = live w t)"
proof -
  obtain w1 where "send_frame P w (qa_send a) (handshake_frame cn) = (Ok (), w1)"
    "flight w1 (qa_send a) = flight w (qa_send a) @ encode_frame (p_bm P) (handshake_frame cn)" "live w1 (qa_send a)"
    "\<forall>t. t \<noteq> qa_send a \<longrightarrow> flight w1 t = flight w t \<and> live w1 t = live w t"
    using send_frame_ok [OF assms] by blast
  then show ?thesis
    by (simp add: client_handshake_start_def transition_get secure_new_def lifecycle_new_def)
qed

lemma server_handshake_ok:
  assumes P: "platform_ok P flight live" and ad: "qa_send a \<noteq> qa_recv a" and lv: "live w (qa_send a)"
    and fl: "flight w (qa_recv a) = encode_frame (p_bm P) (handshake_frame cn)" "flight w (qa_send a) = []"
    and n: "length cn = 16" and sm: "\<not> poisoned sm" "active_sessions sm i = None"
    and ms: "hkdf_derive (p_crypto P) None key (Some (ascii ''opaque-session'')) = Ok m"
    and ks: "derive_session_keys (p_crypto P) m cn sn = Ok ks"
  shows "\<exists>w2. server_handshake P w sm (secure_new a i) (Some sn) key =
      (Some (Ok ()), (secure_new a i)\<lparr>sc_lifecycle := force_state lifecycle_new Active\<rparr>,
       sm\<lparr>active_sessions := (active_sessions sm)(i \<mapsto> Some (context_new
          \<lparr>sk_send_key = sk_recv_key ks, sk_recv_key = sk_send_key ks, sk_epoch = sk_epoch ks\<rparr> (Counter 10000)))\<rparr>, w2) \<and>
    flight w2 (qa_recv a) = [] \<and> flight w2 (qa_send a) = encode_frame (p_bm P) (handshake_frame sn) \<and>
    (\<forall>t. live w2 t = live w t)"
proof -
  have "flight w (qa_recv a) = encode_frame (p_bm P) (handshake_frame cn) @ []" using fl by simp
  then obtain w1 where w1: "recv_frame P w (qa_recv a) = (Some (Ok (handshake_frame cn)), w1)" "flight w1 (qa_recv a) = []"
    "\<forall>t. live w1 t = live w t" "\<forall>t. t \<noteq> qa_recv a \<longrightarrow> flight w1 t = flight w t"
    using recv_frame_ok [OF P handshake_frame_ok [OF n]] by blast
  have l1: "live w1 (qa_send a)" using w1(3) lv by simp
  obtain w2 where w2: "send_frame P w1 (qa_send a) (handshake_frame sn) = (Ok (), w2)"
    "flight w2 (qa_send a) = flight w1 (qa_send a) @ encode_frame (p_bm P) (handshake_frame sn)" "live w2 (qa_send a)"
    "\<forall>t. t \<noteq> qa_send a \<longrightarrow> flight w2 t = flight w1 t \<and> live w2 t = live w1 t"
    using send_frame_ok [OF P l1] by blast
  have "live w2 t = live w t" for t using w2(3,4) w1(3) l1 by (cases "t = qa_send a") auto
  moreover have "server_handshake P w sm (secure_new a i) (Some sn) key =
      (Some (Ok ()), (secure_new a i)\<lparr>sc_lifecycle := force_state lifecycle_new Active\<rparr>,
       sm\<lparr>active_sessions := (active_sessions sm)(i \<mapsto> Some (context_new
          \<lparr>sk_send_key = sk_recv_key ks, sk_recv_key = sk_send_key ks, sk_epoch = sk_epoch ks\<rparr> (Counter 10000)))\<rparr>, w2)"
    using w1(1) w2(1) n sm ms ks
    by (simp add: server_handshake_def transition_get secure_new_def lifecycle_new_def force_state_def
        create_session_with_context_def)
  ultimately show ?thesis using w1 w2 fl ad by auto
qed

lemma client_finish_ok:
  assumes P: "platform_ok P flight live"
    and fl: "flight w (qa_recv a) = encode_frame (p_bm P) (handshake_frame sn)"
    and n: "length sn = 16" and sm: "\<not> poisoned sm" "active_sessions sm i = None"
    and ms: "hkdf_derive (p_crypto P) None key (Some (ascii ''opaque-session'')) = Ok m"
    and ks: "derive_session_keys (p_crypto P) m cn sn = Ok ks"
  shows "\<exists>w3. client_handshake_finish P w sm ((secure_new a i)\<lparr>sc_lifecycle := force_state lifecycle_new Handshaking\<rparr>) cn key =
      (Some (Ok ()), (secure_new a i)\<lparr>sc_lifecycle := force_state lifecycle_new Active\<rparr>,
       sm\<lparr>active_sessions := (active_sessions sm)(i \<mapsto> Some (context_new ks (Counter 10000)))\<rparr>, w3) \<and>
    flight w3 (qa_recv a) = [] \<and> (\<forall>t. live w3 t = live w t) \<and> (\<forall>t. t \<noteq> qa_recv a \<longrightarrow> flight w3 t = flight w t)"
proof -
  have "flight w (qa_recv a) = encode_frame (p_bm P) (handshake_frame sn) @ []" using fl by simp
  then obtain w3 where w3: "recv_frame P w (qa_recv a) = (Some (Ok (handshake_frame sn)), w3)" "flight w3 (qa_recv a) = []"
    "\<forall>t. live w3 t = live w t" "\<forall>t. t \<noteq> qa_recv a \<longrightarrow> flight w3 t = flight w t"
    using recv_frame_ok [OF P handshake_frame_ok [OF n]] by blast
  then show ?thesis
    using n sm ms ks
    by (simp add: client_handshake_finish_def create_session_from_handshake_def create_session_with_context_def
        transition_get secure_new_def lifecycle_new_def force_state_def)
qed

lemma handshake_ok:
  assumes P: "platform_ok P flight live" and st: "s \<noteq> t"
    and lv: "live w s" "live w t" and fl: "flight w s = []" "flight w t = []"
    and n: "length cn = 16" "length sn = 16" and k: "k < 2 ^ 64"
    and A: "\<not> poisoned smA" "active_sessions smA i = None" and B: "\<not> poisoned smB" "active_sessions smB i = None"
  obtains c c' d smA' smB' w1 w2 w3 where
    "client_handshake_start P w (secure_new \<lparr>qa_send = s, qa_recv = t\<rparr> i) (Some cn) = (Ok (), c, w1)"
    "server_handshake P w1 smB (secure_new \<lparr>qa_send = t, qa_recv = s\<rparr> i) (Some sn) key = (Some (Ok ()), d, smB', w2)"
    "client_handshake_finish P w2 smA c cn key = (Some (Ok ()), c', smA', w3)"
    "sc_state c' = Active" "sc_state d = Active"
    "secure_carries P flight live (fst (sc_into_split c')) (snd (sc_into_split d)) (smA', smB', w3) [] k"
    "secure_carries P flight live (fst (sc_into_split d)) (snd (sc_into_split c')) (smB', smA', w3) [] k"
proof -
  let ?a = "\<lparr>qa_send = s, qa_recv = t\<rparr>" and ?b = "\<lparr>qa_send = t, qa_recv = s\<rparr>"
  let ?c = "(secure_new ?a i)\<lparr>sc_lifecycle := force_state lifecycle_new Handshaking\<rparr>"
  note K = platform_okD [OF P]
  obtain m where m: "hkdf_derive (p_crypto P) None key (Some (ascii ''opaque-session'')) = Ok m"
    using hkdf_derive_ok [OF K(3)] by blast
  obtain ks where ks: "derive_session_keys (p_crypto P) m cn sn = Ok ks" "length (sk_send_key ks) = 32"
    "length (sk_recv_key ks) = 32" using derive_session_keys_ok [OF K(3)] by blast
  obtain w1 where w1: "client_handshake_start P w (secure_new ?a i) (Some cn) = (Ok (), ?c, w1)"
    "flight w1 s = encode_frame (p_bm P) (handshake_frame cn)" "flight w1 t = []" "live w1 s" "live w1 t"
    using client_start_ok [OF P, of w ?a i cn] lv fl st by auto
  let ?skeys = "\<lparr>sk_send_key = sk_recv_key ks, sk_recv_key = sk_send_key ks, sk_epoch = sk_epoch ks\<rparr>"
  let ?smB = "smB\<lparr>active_sessions := (active_sessions smB)(i \<mapsto> Some (context_new ?skeys (Counter 10000)))\<rparr>"
  let ?d = "(secure_new ?b i)\<lparr>sc_lifecycle := force_state lifecycle_new Active\<rparr>"
  have "\<exists>w2. server_handshake P w1 smB (secure_new ?b i) (Some sn) key = (Some (Ok ()), ?d, ?smB, w2) \<and>
      flight w2 (qa_recv ?b) = [] \<and> flight w2 (qa_send ?b) = encode_frame (p_bm P) (handshake_frame sn) \<and>
      (\<forall>t. live w2 t = live w1 t)"
    by (rule server_handshake_ok [OF P _ _ _ _ n(1) B m ks(1)]) (use w1 st in simp_all)
  then obtain w2 where w2: "server_handshake P w1 smB (secure_new ?b i) (Some sn) key = (Some (Ok ()), ?d, ?smB, w2)"
    "flight w2 s = []" "flight w2 t = encode_frame (p_bm P) (handshake_frame sn)" "\<forall>t. live w2 t = live w1 t" by auto
  let ?smA = "smA\<lparr>active_sessions := (active_sessions smA)(i \<mapsto> Some (context_new ks (Counter 10000)))\<rparr>"
  let ?c' = "(secure_new ?a i)\<lparr>sc_lifecycle := force_state lifecycle_new Active\<rparr>"
  have f2: "flight w2 (qa_recv ?a) = encode_frame (p_bm P) (handshake_frame sn)" using w2 by simp
  obtain w3 where w3: "client_handshake_finish P w2 smA ?c cn key = (Some (Ok ()), ?c', ?smA, w3)"
    "flight w3 t = []" "\<forall>t. live w3 t = live w2 t" "flight w3 s = []"
    using client_finish_ok [OF P f2 n(2) A m ks(1)] w2(2) st by auto
  have "secure_carries P flight live (fst (sc_into_split ?c')) (snd (sc_into_split ?d)) (?smA, ?smB, w3) [] k"
    using established_carries [OF P, of ?smA ?smB w3 s i ks i ?skeys k] A B w1 w2 w3 ks k
    by (simp add: sc_into_split_def secure_new_def)
  moreover have "secure_carries P flight live (fst (sc_into_split ?d)) (snd (sc_into_split ?c')) (?smB, ?smA, w3) [] k"
    using established_carries [OF P, of ?smB ?smA w3 t i ?skeys i ks k] A B w1 w2 w3 ks k
    by (simp add: sc_into_split_def secure_new_def)
  ultimately show ?thesis using that [OF w1(1) w2(1) w3(1)] by (simp add: sc_state_def)
qed

lemma secure_send_all:
  "secure_carries P flight live s r (smA, smB, w) gs (length fs + k) \<Longrightarrow>
   \<forall>f \<in> set fs. frame_ok f \<and> length (pf_payload f) \<le> FRAGMENT_SIZE \<Longrightarrow>
   \<exists>smA' w'. run_all (ss_send_secure_frame P s) (smA, w) fs = (map (\<lambda>_. Ok ()) fs, smA', w') \<and>
     secure_carries P flight live s r (smA', smB, w') (gs @ fs) k"
proof (induction fs arbitrary: gs smA w)
  case (Cons f fs)
  obtain smA1 w1 where 1: "ss_send_secure_frame P s (smA, w) f = (Ok (), smA1, w1)"
    "secure_carries P flight live s r (smA1, smB, w1) (gs @ [f]) (length fs + k)"
    using secure_send_ok [of P flight live s r smA smB w gs "length fs + k" f] Cons.prems by auto
  with Cons.IH [OF 1(2)] Cons.prems(2) show ?case by auto
qed auto

lemma secure_recv_all:
  "secure_carries P flight live s r (smA, smB, w) fs k \<Longrightarrow>
   \<exists>smB' w'. run_all (\<lambda>st _. sr_recv_secure_frame P r st) (smB, w) fs = (map (\<lambda>f. Some (Ok f)) fs, smB', w') \<and>
     secure_carries P flight live s r (smA, smB', w') [] k"
proof (induction fs arbitrary: smB w)
  case (Cons f fs)
  obtain smB1 w1 where 1: "sr_recv_secure_frame P r (smB, w) = (Some (Ok f), smB1, w1)"
    "secure_carries P flight live s r (smA, smB1, w1) fs k"
    using secure_recv_ok [OF Cons.prems] by blast
  with Cons.IH [OF 1(2)] show ?case by auto
qed auto

text \<open>All frames of a list sent over one connection and then received from the other.\<close>

definition transfers :: "'w platform \<Rightarrow> secure_connection \<Rightarrow> secure_connection \<Rightarrow> session_manager \<Rightarrow> session_manager \<Rightarrow> 'w \<Rightarrow>
    protocol_frame list \<Rightarrow> bool" where
  "transfers P c d smC smD w fs \<longleftrightarrow>
     (case run_all (send_secure_frame P c) (smC, w) fs of
        (rs, smC', w') \<Rightarrow> rs = map (\<lambda>_. Ok ()) fs \<and>
          fst (run_all (\<lambda>st _. recv_secure_frame P d st) (smD, w') fs) = map (\<lambda>f. Some (Ok f)) fs)"

lemma carries_transfers:
  assumes "secure_carries P flight live (fst (sc_into_split c)) (snd (sc_into_split d)) (smC, smD, w) [] (length fs)"
    and "sc_state c = Active" "sc_state d = Active"
    and "\<forall>f \<in> set fs. frame_ok f \<and> length (pf_payload f) \<le> FRAGMENT_SIZE"
  shows "transfers P c d smC smD w fs"
proof -
  have s: "send_secure_frame P c = ss_send_secure_frame P (fst (sc_into_split c))"
    and r: "recv_secure_frame P d = sr_recv_secure_frame P (snd (sc_into_split d))"
    using assms(2,3) by (simp_all add: fun_eq_iff send_secure_frame_split recv_secure_frame_split)
  obtain smC' w' where 1: "run_all (ss_send_secure_frame P (fst (sc_into_split c))) (smC, w) fs = (map (\<lambda>_. Ok ()) fs, smC', w')"
    "secure_carries P flight live (fst (sc_into_split c)) (snd (sc_into_split d)) (smC', smD, w') fs 0"
    using secure_send_all [of P flight live "fst (sc_into_split c)" "snd (sc_into_split d)" smC smD w "[]" fs 0] assms(1,4)
    by auto
  obtain smD' w'' where "run_all (\<lambda>st _. sr_recv_secure_frame P (snd (sc_into_split d)) st) (smD, w') fs =
      (map (\<lambda>f. Some (Ok f)) fs, smD', w'')"
    using secure_recv_all [OF 1(2)] by blast
  then show ?thesis using 1(1) by (simp add: transfers_def s r)
qed


section \<open>A concrete platform\<close>

text \<open>
  Streams as byte queues, and an encoding of encrypted frames that prefixes every byte of a field by 1 and
  ends the field by 0; they satisfy the contracts and serve the witnesses.
\<close>

fun demo_field :: "bytes \<Rightarrow> bytes" where
  "demo_field [] = [0]"
| "demo_field (b # bs) = 1 # b # demo_field bs"

fun demo_parse :: "bytes \<Rightarrow> (bytes \<times> bytes) option" where
  "demo_parse [] = None"
| "demo_parse [b] = (if b = 0 then Some ([], []) else None)"
| "demo_parse (b # c # bs) =
     (if b = 0 then Some ([], c # bs) else map_option (\<lambda>(xs, rest). (c # xs, rest)) (demo_parse bs))"

lemma demo_parse_field [simp]: "demo_parse (demo_field bs @ rest) = Some (bs, rest)"
  by (induction bs) (cases rest; simp)+

lemma demo_parse_field_end [simp]: "demo_parse (demo_field bs) = Some (bs, [])"
  using demo_parse_field [of bs "[]"] by simp

lemma length_demo_field [simp]: "length (demo_field bs) = 2 * length bs + 1"
  by (induction bs) simp_all

definition demo_frame_cbor :: "encrypted_frame cbor" where
  "demo_frame_cbor = \<lparr>
     into_writer = (\<lambda>e. Some (to_be_bytes 4 (ef_epoch e) @ demo_field (nonce_bytes (ef_nonce e)) @
        demo_field (ef_ciphertext e) @ demo_field (ef_tag e))),
     from_reader = (\<lambda>bs. case demo_parse (drop 4 bs) of
        None \<Rightarrow> None
      | Some (n, bs1) \<Rightarrow> (case demo_parse bs1 of
           None \<Rightarrow> None
         | Some (c, bs2) \<Rightarrow> (case demo_parse bs2 of
              None \<Rightarrow> None
            | Some (t, _) \<Rightarrow> Some \<lparr>ef_epoch = from_be_bytes (take 4 bs), ef_nonce = Nonce n, ef_ciphertext = c, ef_tag = t\<rparr>)))\<rparr>"

lemma demo_frame_cbor_contract: "frame_cbor_contract demo_frame_cbor"
proof -
  have "cbor_contract demo_frame_cbor"
    by (auto simp: cbor_contract_def demo_frame_cbor_def from_to_be_bytes)
  then show ?thesis by (simp add: frame_cbor_contract_def) (simp add: demo_frame_cbor_def)
qed

definition demo_platform :: "(stream_id \<Rightarrow> bytes) platform" where
  "demo_platform = \<lparr>p_bm = bytemuck_le, p_crypto = demo_crypto, p_addr = (\<lambda>_. 64), p_frame_cbor = demo_frame_cbor,
     p_write_all = (\<lambda>w s b. (Ok (), w(s := w s @ b))),
     p_read_exact = (\<lambda>w s n. if n \<le> length (w s) then (Some (Ok (take n (w s))), w(s := drop n (w s))) else (None, w)),
     p_finish = (\<lambda>w s. w)\<rparr>"

lemma demo_platform_ok: "platform_ok demo_platform (\<lambda>w. w) (\<lambda>_ _. True)"
  using demo_frame_cbor_contract by (simp add: platform_ok_def demo_platform_def quinn_contract_def)


theorem recv_fragments_bounded_witness:
  "\<exists>w'. recv_fragments demo_platform 0 (\<lambda>_. encode_frame bytemuck_le (frame_with (fragment_flags 0 False) [7, 8, 9])) =
     (Some (Ok [7, 8, 9]), w') \<and> length [7, 8, 9 :: u8] \<le> 4 * 1024 * 1024"
proof -
  let ?w = "\<lambda>_. encode_frame bytemuck_le (frame_with (fragment_flags 0 False) [7, 8, 9])"
  have q: "frags FRAGMENT_SIZE [7, 8, 9] = [(fragment_flags 0 False, [7, 8, 9])]" by (simp add: frags_def FRAGMENT_SIZE_def)
  have "stream_carries demo_platform (\<lambda>w. w) (\<lambda>_ _. True) 0 ?w (frags FRAGMENT_SIZE [7, 8, 9] @ []) 0"
    using demo_platform_ok unfolding q by (simp add: stream_carries_def FRAGMENT_SIZE_def) (simp add: demo_platform_def)
  then obtain w' where w': "recv_fragments demo_platform 0 ?w = (Some (Ok [7, 8, 9]), w')"
    using stream_link.recv_ok_whole [of demo_platform "\<lambda>w. w" "\<lambda>_ _. True" 0 ?w "[7, 8, 9]" "[]" 0] q
    by (auto simp: recv_fragments_def MAX_REASSEMBLED_SIZE_def)
  moreover have "bytemuck_contract (p_bm demo_platform)" by (simp add: demo_platform_def)
  ultimately show ?thesis using recv_fragments_bounded [of demo_platform 0 ?w "[7, 8, 9]"] by blast
qed

section \<open>The life of a connection\<close>

text \<open>
  The steps of a connection: its operations in any order, and everything else that happens to the session manager
  and to the streams in between.
\<close>

inductive conn_step :: "'w platform \<Rightarrow> secure_connection \<times> session_manager \<times> 'w \<Rightarrow> secure_connection \<times> session_manager \<times> 'w \<Rightarrow> bool"
  for P :: "'w platform" where
  start: "client_handshake_start P w c rng = (r, c', w') \<Longrightarrow> conn_step P (c, sm, w) (c', sm, w')"
| finish: "client_handshake_finish P w sm c cn key = (r, c', sm', w') \<Longrightarrow> conn_step P (c, sm, w) (c', sm', w')"
| server: "server_handshake P w sm c rng key = (r, c', sm', w') \<Longrightarrow> conn_step P (c, sm, w) (c', sm', w')"
| sending: "send_secure_frame P c (sm, w) f = (r, sm', w') \<Longrightarrow> conn_step P (c, sm, w) (c, sm', w')"
| receiving: "recv_secure_frame P c (sm, w) = (r', sm', w') \<Longrightarrow> conn_step P (c, sm, w) (c, sm', w')"
| closing: "sc_close P c (sm, w) = (c', sm', w') \<Longrightarrow> conn_step P (c, sm, w) (c', sm', w')"
| elsewhere: "conn_step P (c, sm, w) (c, sm', w')"

definition life :: "secure_connection \<Rightarrow> u8" where
  "life c = lc_state (sc_lifecycle c)"

lemma transition_life: "transition l e n = (r, l') \<Longrightarrow> state_code e \<le> state_code n \<Longrightarrow> lc_state l \<le> 4 \<Longrightarrow>
    lc_state l \<le> lc_state l' \<and> lc_state l' \<le> 4"
  by (cases n) (auto simp: transition_def state_code_def split: if_splits)

lemma state_code_le: "state_code Connected \<le> state_code Handshaking" "state_code Handshaking \<le> state_code Active"
  by (simp_all add: state_code_def)

lemma client_start_life:
  "client_handshake_start P w c rng = (r, c', w') \<Longrightarrow> life c \<le> 4 \<Longrightarrow> life c \<le> life c' \<and> life c' \<le> 4"
  using transition_life [OF _ state_code_le(1), of "sc_lifecycle c"]
  by (auto simp: client_handshake_start_def life_def Let_def split: prod.splits outcome.splits option.splits)

lemma client_finish_life:
  "client_handshake_finish P w sm c cn key = (r, c', sm', w') \<Longrightarrow> life c \<le> 4 \<Longrightarrow> life c \<le> life c' \<and> life c' \<le> 4"
  using transition_life [OF _ state_code_le(2), of "sc_lifecycle c"]
  by (auto simp: client_handshake_finish_def life_def Let_def split: prod.splits outcome.splits option.splits if_splits)

lemma server_life:
  assumes "server_handshake P w sm c rng key = (r, c', sm', w')" "life c \<le> 4"
  shows "life c \<le> life c' \<and> life c' \<le> 4"
proof -
  obtain r1 l1 where t: "transition (sc_lifecycle c) Connected Handshaking = (r1, l1)" by fastforce
  note 1 = transition_life [OF t state_code_le(1) assms(2) [unfolded life_def]]
  obtain r2 l2 where t2: "transition l1 Handshaking Active = (r2, l2)" by fastforce
  note 2 = transition_life [OF t2 state_code_le(2) conjunct2 [OF 1]]
  from assms(1) have "c' = c\<lparr>sc_lifecycle := l1\<rparr> \<or> c' = c\<lparr>sc_lifecycle := l2\<rparr>"
    using t t2 by (auto simp: server_handshake_def Let_def split: prod.splits outcome.splits option.splits if_splits)
  with 1 2 show ?thesis by (auto simp: life_def)
qed

lemma conn_step_life: "conn_step P st st' \<Longrightarrow> life (fst st) \<le> 4 \<Longrightarrow> life (fst st) \<le> life (fst st') \<and> life (fst st') \<le> 4"
proof (induction rule: conn_step.induct)
  case (closing c sm w c' sm' w')
  then show ?case by (auto simp: sc_close_def Let_def life_def force_state_def state_code_def)
qed (auto dest: client_start_life client_finish_life server_life)

lemma conn_steps_life:
  "(conn_step P)\<^sup>*\<^sup>* st st' \<Longrightarrow> life (fst st) \<le> 4 \<Longrightarrow> life (fst st) \<le> life (fst st') \<and> life (fst st') \<le> 4"
  by (induction rule: rtranclp_induct) (auto dest!: conn_step_life)

lemma code_le: "(x :: u8) \<le> 4 \<Longrightarrow> x = 0 \<or> x = 1 \<or> x = 2 \<or> x = 3 \<or> x = 4"
  by (simp add: word_le_nat_alt word_unat_eq_iff) arith

lemma closed_life: "life c \<le> 4 \<Longrightarrow> sc_state c = Closed \<longleftrightarrow> life c = 4"
  using code_le [of "life c"] by (auto simp: sc_state_def get_state_def life_def state_of_code_def)

text \<open>C32: Along every interleaving of handshakes, sends, receives, closes and outside events the state of a connection
  only moves forward.  Once it is closed it stays closed: every further send, receive and handshake reports
  \<open>LifecycleError\<close> and leaves the session manager and the streams alone.\<close>
theorem closed_is_final:
  assumes "(conn_step P)\<^sup>*\<^sup>* (secure_new a i, sm0, w0) (c, sm, w)" "(conn_step P)\<^sup>*\<^sup>* (c, sm, w) (c', sm', w')"
  shows "lc_state (sc_lifecycle c) \<le> lc_state (sc_lifecycle c') \<and>
    (sc_state c = Closed \<longrightarrow> sc_state c' = Closed \<and>
      send_secure_frame P c' (sm', w') f = (Err LifecycleError, sm', w') \<and>
      recv_secure_frame P c' (sm', w') = (Some (Err LifecycleError), sm', w') \<and>
      client_handshake_start P w' c' rng = (Err LifecycleError, c', w') \<and>
      server_handshake P w' sm' c' rng key = (Some (Err LifecycleError), c', sm', w'))"
proof -
  have "life (secure_new a i) \<le> 4" by (simp add: life_def secure_new_def lifecycle_new_def state_code_def)
  then have c: "life c \<le> 4" using conn_steps_life [OF assms(1)] by simp
  then have m: "life c \<le> life c'" "life c' \<le> 4" using conn_steps_life [OF assms(2)] by simp_all
  have "sc_state c' = Closed \<and>
      send_secure_frame P c' (sm', w') f = (Err LifecycleError, sm', w') \<and>
      recv_secure_frame P c' (sm', w') = (Some (Err LifecycleError), sm', w') \<and>
      client_handshake_start P w' c' rng = (Err LifecycleError, c', w') \<and>
      server_handshake P w' sm' c' rng key = (Some (Err LifecycleError), c', sm', w')" if "sc_state c = Closed"
  proof -
    have l: "life c' = 4" using that m c closed_life by (metis antisym)
    then have s: "sc_state c' = Closed" using closed_life m(2) by blast
    have "transition (sc_lifecycle c') Connected Handshaking = (Err (), sc_lifecycle c')"
      using l by (simp add: transition_def life_def state_code_def)
    with s show ?thesis
      by (simp add: send_secure_frame_def recv_secure_frame_def client_handshake_start_def server_handshake_def)
  qed
  with m show ?thesis by (simp add: life_def)
qed

definition demo_conn :: secure_connection where
  "demo_conn = secure_new \<lparr>qa_send = 0, qa_recv = 1\<rparr> (SessionId [7])"

theorem closed_is_final_witness:
  "\<exists>c sm w. sc_close demo_platform demo_conn (manager_new, \<lambda>_. []) = (c, sm, w) \<and> sc_state c = Closed \<and>
     send_secure_frame demo_platform c (sm, w) demo_frame = (Err LifecycleError, sm, w)"
proof -
  obtain c sm w where c: "sc_close demo_platform demo_conn (manager_new, \<lambda>_. []) = (c, sm, w)" by (metis prod_cases3)
  then have "sc_state c = Closed" by (auto simp: sc_close_def Let_def sc_state_def)
  moreover have "(conn_step demo_platform)\<^sup>*\<^sup>* (demo_conn, manager_new, \<lambda>_. []) (c, sm, w)"
    using conn_step.closing [OF c] by blast
  ultimately show ?thesis
    using closed_is_final [of demo_platform _ _ manager_new "\<lambda>_. []" c sm w c sm w] c unfolding demo_conn_def by blast
qed

end
