(* ===== verification/BW_Auth.thy ===== *)
theory BW_Auth
  imports BW_Prelude
begin

text \<open>
  The OPAQUE flows of \<^verbatim>\<open>bw-auth\<close> (\<^verbatim>\<open>client.rs\<close>, \<^verbatim>\<open>server.rs\<close>) and the enrollment store with its files
  (\<^verbatim>\<open>store.rs\<close>).

  The \<^verbatim>\<open>opaque-ke\<close> library is the parameter \<open>opaque_lib\<close>; its messages, states and password files are
  values of the type \<open>'o\<close>.  The randomness a step draws is an argument.
\<close>

section \<open>The OPAQUE library\<close>

record 'o opaque_lib =
  ol_setup_new :: "nat \<Rightarrow> 'o"
  ol_client_registration_start :: "nat \<Rightarrow> bytes \<Rightarrow> ('o \<times> 'o, nat) outcome"
  ol_client_registration_finish :: "nat \<Rightarrow> 'o \<Rightarrow> bytes \<Rightarrow> 'o \<Rightarrow> ('o, nat) outcome"
  ol_server_registration_start :: "'o \<Rightarrow> 'o \<Rightarrow> bytes \<Rightarrow> ('o, nat) outcome"
  ol_server_registration_finish :: "'o \<Rightarrow> 'o"
  ol_client_login_start :: "nat \<Rightarrow> bytes \<Rightarrow> ('o \<times> 'o, nat) outcome"
  ol_client_login_finish :: "nat \<Rightarrow> 'o \<Rightarrow> bytes \<Rightarrow> 'o \<Rightarrow> ('o \<times> bytes, nat) outcome"
  ol_server_login_start :: "nat \<Rightarrow> 'o \<Rightarrow> 'o \<Rightarrow> 'o \<Rightarrow> bytes \<Rightarrow> ('o \<times> 'o, nat) outcome"
  ol_server_login_finish :: "'o \<Rightarrow> 'o \<Rightarrow> (bytes, nat) outcome"
  ol_serialize :: "'o \<Rightarrow> bytes"
  ol_request_deserialize :: "bytes \<Rightarrow> ('o, nat) outcome"
  ol_response_deserialize :: "bytes \<Rightarrow> ('o, nat) outcome"
  ol_finalization_deserialize :: "bytes \<Rightarrow> ('o, nat) outcome"
  ol_setup_deserialize :: "bytes \<Rightarrow> ('o, nat) outcome"
  ol_registration_deserialize :: "bytes \<Rightarrow> ('o, nat) outcome"

datatype auth_error = OpaqueProtocol nat | AuthSerialization

section \<open>Client\<close>

record 'o client_registration_start =
  crs_request :: 'o
  crs_state :: 'o

record 'o client_login_start =
  cls_request :: 'o
  cls_state :: 'o

record 'o client_login_finish =
  clf_finalization :: 'o
  clf_session_key :: bytes

definition client_start_registration :: "'o opaque_lib \<Rightarrow> nat \<Rightarrow> bytes \<Rightarrow> ('o client_registration_start, auth_error) outcome" where
  "client_start_registration L rng password =
     obind (map_err OpaqueProtocol (ol_client_registration_start L rng password))
       (\<lambda>(m, s). Ok \<lparr>crs_request = m, crs_state = s\<rparr>)"

definition client_finish_registration :: "'o opaque_lib \<Rightarrow> nat \<Rightarrow> 'o \<Rightarrow> 'o \<Rightarrow> bytes \<Rightarrow> ('o, auth_error) outcome" where
  "client_finish_registration L rng state response password =
     map_err OpaqueProtocol (ol_client_registration_finish L rng state password response)"

definition deserialize_credential_response :: "'o opaque_lib \<Rightarrow> bytes \<Rightarrow> ('o, auth_error) outcome" where
  "deserialize_credential_response L bs = map_err OpaqueProtocol (ol_response_deserialize L bs)"

definition client_start_login :: "'o opaque_lib \<Rightarrow> nat \<Rightarrow> bytes \<Rightarrow> ('o client_login_start, auth_error) outcome" where
  "client_start_login L rng password =
     obind (map_err OpaqueProtocol (ol_client_login_start L rng password))
       (\<lambda>(m, s). Ok \<lparr>cls_request = m, cls_state = s\<rparr>)"

definition client_finish_login :: "'o opaque_lib \<Rightarrow> nat \<Rightarrow> 'o \<Rightarrow> 'o \<Rightarrow> bytes \<Rightarrow> ('o client_login_finish, auth_error) outcome" where
  "client_finish_login L rng state response password =
     obind (map_err OpaqueProtocol (ol_client_login_finish L rng state password response))
       (\<lambda>(m, key). Ok \<lparr>clf_finalization = m, clf_session_key = key\<rparr>)"

section \<open>Server\<close>

record 'o server_login_start =
  sls_response :: 'o
  sls_state :: 'o

definition new_setup :: "'o opaque_lib \<Rightarrow> nat \<Rightarrow> 'o" where
  "new_setup L rng = ol_setup_new L rng"

definition server_start_registration :: "'o opaque_lib \<Rightarrow> 'o \<Rightarrow> 'o \<Rightarrow> bytes \<Rightarrow> ('o, auth_error) outcome" where
  "server_start_registration L setup request identifier =
     map_err OpaqueProtocol (ol_server_registration_start L setup request identifier)"

definition server_finish_registration :: "'o opaque_lib \<Rightarrow> 'o \<Rightarrow> 'o" where
  "server_finish_registration L upload = ol_server_registration_finish L upload"

definition server_start_login :: "'o opaque_lib \<Rightarrow> nat \<Rightarrow> 'o \<Rightarrow> 'o \<Rightarrow> 'o \<Rightarrow> bytes \<Rightarrow> ('o server_login_start, auth_error) outcome" where
  "server_start_login L rng setup password_file request identifier =
     obind (map_err OpaqueProtocol (ol_server_login_start L rng setup password_file request identifier))
       (\<lambda>(m, s). Ok \<lparr>sls_response = m, sls_state = s\<rparr>)"

definition server_finish_login :: "'o opaque_lib \<Rightarrow> 'o \<Rightarrow> 'o \<Rightarrow> (bytes, auth_error) outcome" where
  "server_finish_login L state finalization = map_err OpaqueProtocol (ol_server_login_finish L state finalization)"

definition serialize_setup :: "'o opaque_lib \<Rightarrow> 'o \<Rightarrow> bytes" where
  "serialize_setup L setup = ol_serialize L setup"

definition deserialize_setup :: "'o opaque_lib \<Rightarrow> bytes \<Rightarrow> ('o, auth_error) outcome" where
  "deserialize_setup L bs = map_err OpaqueProtocol (ol_setup_deserialize L bs)"

definition serialize_registration :: "'o opaque_lib \<Rightarrow> 'o \<Rightarrow> bytes" where
  "serialize_registration L registration = ol_serialize L registration"

definition deserialize_registration :: "'o opaque_lib \<Rightarrow> bytes \<Rightarrow> ('o, auth_error) outcome" where
  "deserialize_registration L bs = map_err OpaqueProtocol (ol_registration_deserialize L bs)"

section \<open>Enrollment store\<close>

datatype store_error = StoreAuth auth_error | StoreIo | MissingSetup | NotEnrolled

record 'o enrollment_store =
  es_setup :: 'o
  es_enrollments :: "bytes \<rightharpoonup> 'o"

definition store_new :: "'o opaque_lib \<Rightarrow> nat \<Rightarrow> 'o enrollment_store" where
  "store_new L rng = \<lparr>es_setup = new_setup L rng, es_enrollments = Map.empty\<rparr>"

definition store_register :: "'o opaque_lib \<Rightarrow> nat \<Rightarrow> nat \<Rightarrow> 'o enrollment_store \<Rightarrow> bytes \<Rightarrow> bytes \<Rightarrow>
    (unit, store_error) outcome \<times> 'o enrollment_store" where
  "store_register L rng rng' st identifier password =
     (case obind (map_err StoreAuth (client_start_registration L rng password)) (\<lambda>reg_start.
           obind (map_err StoreAuth (server_start_registration L (es_setup st) (crs_request reg_start) identifier)) (\<lambda>reg_resp.
           obind (map_err StoreAuth (client_finish_registration L rng' (crs_state reg_start) reg_resp password)) (\<lambda>reg_upload.
           Ok (server_finish_registration L reg_upload)))) of
        Ok password_file \<Rightarrow> (Ok (), st\<lparr>es_enrollments := (es_enrollments st)(identifier \<mapsto> password_file)\<rparr>)
      | Err e \<Rightarrow> (Err e, st)
      | Panic \<Rightarrow> (Panic, st))"

definition store_get :: "'o enrollment_store \<Rightarrow> bytes \<Rightarrow> 'o option" where
  "store_get st identifier = es_enrollments st identifier"

definition store_contains :: "'o enrollment_store \<Rightarrow> bytes \<Rightarrow> bool" where
  "store_contains st identifier \<longleftrightarrow> es_enrollments st identifier \<noteq> None"

definition store_start_login :: "'o opaque_lib \<Rightarrow> nat \<Rightarrow> 'o enrollment_store \<Rightarrow> bytes \<Rightarrow> bytes \<Rightarrow>
    ('o server_login_start \<times> bytes, store_error) outcome" where
  "store_start_login L rng st identifier credential_request =
     obind (map_err (StoreAuth \<circ> OpaqueProtocol) (ol_request_deserialize L credential_request)) (\<lambda>request.
     obind (ok_or (store_get st identifier) NotEnrolled) (\<lambda>password_file.
     obind (map_err StoreAuth (server_start_login L rng (es_setup st) password_file request identifier)) (\<lambda>login.
     Ok (login, ol_serialize L (sls_response login)))))"

definition store_finish_login :: "'o opaque_lib \<Rightarrow> 'o server_login_start \<Rightarrow> bytes \<Rightarrow> (bytes, store_error) outcome" where
  "store_finish_login L login finalization =
     obind (map_err (StoreAuth \<circ> OpaqueProtocol) (ol_finalization_deserialize L finalization)) (\<lambda>fin.
     map_err StoreAuth (server_finish_login L (sls_state login) fin))"

section \<open>Files\<close>

text \<open>
  A directory maps the names of its readable files to their contents.  \<open>can_create\<close> and
  \<open>can_write\<close> say which file-system calls succeed, \<open>ids\<close> is the order in which the hash map
  is traversed, and \<open>listing\<close> the order in which the directory is listed, with \<open>None\<close> for an
  entry that cannot be read.
\<close>

type_synonym directory = "string \<rightharpoonup> bytes"

definition hex_digit :: "u8 \<Rightarrow> char" where
  "hex_digit n = (if n < 10 then char_of (48 + unat n) else char_of (87 + unat n))"

definition hex :: "bytes \<Rightarrow> string" where
  "hex bs = concat (map (\<lambda>b. [hex_digit (drop_bit 4 b), hex_digit (b AND 15)]) bs)"

definition to_digit_16 :: "char \<Rightarrow> u8 option" where
  "to_digit_16 c =
     (let n = of_char c :: nat in
      if 48 \<le> n \<and> n \<le> 57 then Some (of_nat (n - 48))
      else if 97 \<le> n \<and> n \<le> 102 then Some (of_nat (n - 87))
      else if 65 \<le> n \<and> n \<le> 70 then Some (of_nat (n - 55))
      else None)"

fun unhex :: "string \<Rightarrow> bytes" where
  "unhex (c # d # cs) =
     (let hi = (case to_digit_16 c of None \<Rightarrow> 0 | Some v \<Rightarrow> v);
          lo = (case to_digit_16 d of None \<Rightarrow> 0 | Some v \<Rightarrow> v)
      in (push_bit 4 hi OR lo) # unhex cs)"
| "unhex _ = []"

definition opaque_suffix :: string where
  "opaque_suffix = ''.opaque''"

fun save_registrations :: "'o opaque_lib \<Rightarrow> (string \<Rightarrow> bool) \<Rightarrow> 'o enrollment_store \<Rightarrow> bytes list \<Rightarrow> directory \<Rightarrow>
    (unit, store_error) outcome \<times> directory" where
  "save_registrations L can_write st [] d = (Ok (), d)"
| "save_registrations L can_write st (i # ids) d =
     (case es_enrollments st i of
        None \<Rightarrow> save_registrations L can_write st ids d
      | Some registration \<Rightarrow>
          let name = hex i @ opaque_suffix
          in if can_write name
             then save_registrations L can_write st ids (d(name \<mapsto> serialize_registration L registration))
             else (Err StoreIo, d))"

definition save_to_dir :: "'o opaque_lib \<Rightarrow> bool \<Rightarrow> (string \<Rightarrow> bool) \<Rightarrow> 'o enrollment_store \<Rightarrow> bytes list \<Rightarrow> directory \<Rightarrow>
    (unit, store_error) outcome \<times> directory" where
  "save_to_dir L can_create can_write st ids d =
     (if \<not> can_create then (Err StoreIo, d)
      else if \<not> can_write ''setup.opaque'' then (Err StoreIo, d)
      else save_registrations L can_write st ids (d(''setup.opaque'' \<mapsto> serialize_setup L (es_setup st))))"

definition strip_suffix :: "string \<Rightarrow> string \<Rightarrow> string option" where
  "strip_suffix name s =
     (if length s \<le> length name \<and> drop (length name - length s) name = s
      then Some (take (length name - length s) name) else None)"

fun load_registrations :: "'o opaque_lib \<Rightarrow> directory \<Rightarrow> string option list \<Rightarrow> (bytes \<rightharpoonup> 'o) \<Rightarrow>
    (bytes \<rightharpoonup> 'o, store_error) outcome" where
  "load_registrations L d [] enrollments = Ok enrollments"
| "load_registrations L d (None # entries) enrollments = Err StoreIo"
| "load_registrations L d (Some name # entries) enrollments =
     (if name = ''setup.opaque'' \<or> strip_suffix name opaque_suffix = None
      then load_registrations L d entries enrollments
      else let identifier = unhex (the (strip_suffix name opaque_suffix)) in
           (case d name of
              None \<Rightarrow> load_registrations L d entries enrollments
            | Some bs \<Rightarrow>
                (case deserialize_registration L bs of
                   Ok registration \<Rightarrow> load_registrations L d entries (enrollments(identifier \<mapsto> registration))
                 | Err _ \<Rightarrow> load_registrations L d entries enrollments
                 | Panic \<Rightarrow> Panic)))"

definition load_from_dir :: "'o opaque_lib \<Rightarrow> directory \<Rightarrow> string option list option \<Rightarrow> ('o enrollment_store, store_error) outcome" where
  "load_from_dir L d listing =
     (case d ''setup.opaque'' of
        None \<Rightarrow> Err MissingSetup
      | Some setup_bytes \<Rightarrow>
          obind (map_err StoreAuth (deserialize_setup L setup_bytes)) (\<lambda>setup.
          obind (ok_or listing StoreIo) (\<lambda>entries.
          obind (load_registrations L d entries Map.empty) (\<lambda>enrollments.
          Ok \<lparr>es_setup = setup, es_enrollments = enrollments\<rparr>))))"

section \<open>File names\<close>

lemma to_digit_hex_digit:
  assumes "n < 16"
  shows "to_digit_16 (hex_digit n) = Some n"
proof (cases "n < 10")
  case True
  then have "unat n < 10" by (simp add: word_less_nat_alt)
  then show ?thesis using True by (simp add: to_digit_16_def hex_digit_def Let_def)
next
  case False
  then have "10 \<le> unat n" "unat n < 16" using assms by (simp_all add: word_less_nat_alt)
  then show ?thesis using False by (simp add: to_digit_16_def hex_digit_def Let_def)
qed

lemma nibbles: "push_bit 4 (drop_bit 4 b) OR (b AND 15) = (b :: u8)"
proof (rule bit_word_eqI)
  fix n assume n: "n < LENGTH(8)"
  have m: "(15 :: u8) = mask 4" by (simp add: mask_eq_exp_minus_1)
  have "bit (15 :: u8) n \<longleftrightarrow> n < 4" unfolding m bit_mask_iff using n by auto
  with n show "bit (push_bit 4 (drop_bit 4 b) OR b AND 15) n = bit b n" by (auto simp: bit_simps)
qed

lemma nibble_less: "drop_bit 4 (b :: u8) < 16" "(b :: u8) AND 15 < 16"
proof -
  show "drop_bit 4 b < 16" using unat_bound [of b] by (simp add: word_less_nat_alt drop_bit_eq_div unat_div)
  have "b AND 15 \<le> 15" by (rule word_and_le1)
  also have "\<dots> < (16 :: u8)" by simp
  finally show "b AND 15 < 16" .
qed

lemma unhex_hex [simp]: "unhex (hex bs) = bs"
  using nibble_less by (induction bs) (simp_all add: hex_def to_digit_hex_digit nibbles)

lemma hex_inject [simp]: "hex a = hex b \<longleftrightarrow> a = b"
  by (metis unhex_hex)

lemma hex_image [simp]: "hex i @ opaque_suffix \<in> (\<lambda>i. hex i @ opaque_suffix) ` A \<longleftrightarrow> i \<in> A"
  by auto

lemma strip_suffix_append [simp]: "strip_suffix (xs @ opaque_suffix) opaque_suffix = Some xs"
  by (simp add: strip_suffix_def)

lemma hex_not_setup [simp]: "hex bs @ opaque_suffix \<noteq> ''setup.opaque''"
proof
  assume a: "hex bs @ opaque_suffix = ''setup.opaque''"
  have "''setup.opaque'' = ''setup'' @ opaque_suffix" by (simp add: opaque_suffix_def)
  with a have h: "hex bs = ''setup''" by simp
  then obtain b bs' where "bs = b # bs'" by (cases bs) (auto simp: hex_def)
  with h have "hex_digit (drop_bit 4 b) = CHR ''s''" by (simp add: hex_def)
  then show False using to_digit_hex_digit [OF nibble_less(1) [of b]] by (simp add: to_digit_16_def)
qed

lemma setup_not_hex: "''setup.opaque'' \<notin> (\<lambda>i. hex i @ opaque_suffix) ` A"
  using hex_not_setup [THEN not_sym] by blast

section \<open>Saving and loading\<close>

definition opaque_serial_contract :: "'o opaque_lib \<Rightarrow> bool" where
  "opaque_serial_contract L \<longleftrightarrow>
     (\<forall>x. ol_setup_deserialize L (ol_serialize L x) = Ok x \<and> ol_registration_deserialize L (ol_serialize L x) = Ok x)"

lemma save_registrations_ok:
  assumes "set ids \<subseteq> dom (es_enrollments st)"
  shows "\<exists>d'. save_registrations L (\<lambda>_. True) st ids d = (Ok (), d') \<and>
    (\<forall>i \<in> set ids. d' (hex i @ opaque_suffix) = map_option (serialize_registration L) (es_enrollments st i)) \<and>
    (\<forall>n. n \<notin> (\<lambda>i. hex i @ opaque_suffix) ` set ids \<longrightarrow> d' n = d n)"
  using assms
proof (induction ids arbitrary: d)
  case (Cons i ids)
  then obtain r where r: "es_enrollments st i = Some r" by auto
  obtain d' where d': "save_registrations L (\<lambda>_. True) st ids (d(hex i @ opaque_suffix \<mapsto> serialize_registration L r)) = (Ok (), d')"
    "\<forall>i \<in> set ids. d' (hex i @ opaque_suffix) = map_option (serialize_registration L) (es_enrollments st i)"
    "\<forall>n. n \<notin> (\<lambda>i. hex i @ opaque_suffix) ` set ids \<longrightarrow> d' n = (d(hex i @ opaque_suffix \<mapsto> serialize_registration L r)) n"
    using Cons.IH [of "d(hex i @ opaque_suffix \<mapsto> serialize_registration L r)"] Cons.prems unfolding list.set(2) insert_subset by blast
  have "d' (hex i @ opaque_suffix) = Some (serialize_registration L r)"
    using d'(2,3) r by (cases "i \<in> set ids") auto
  with d' r show ?case by (auto simp: Let_def)
qed simp

lemma load_registrations_ok:
  assumes S: "opaque_serial_contract L"
    and d: "\<And>n h. n \<in> set names \<Longrightarrow> n \<noteq> ''setup.opaque'' \<Longrightarrow> strip_suffix n opaque_suffix = Some h \<Longrightarrow>
        \<exists>i r. n = hex i @ opaque_suffix \<and> E i = Some r \<and> d n = Some (serialize_registration L r)"
  shows "load_registrations L d (map Some names) acc =
    Ok (\<lambda>i. if hex i @ opaque_suffix \<in> set names then E i else acc i)"
  using d
proof (induction names arbitrary: acc)
  case (Cons n names)
  have IH: "load_registrations L d (map Some names) acc' =
      Ok (\<lambda>i. if hex i @ opaque_suffix \<in> set names then E i else acc' i)" for acc'
    using Cons.IH Cons.prems by (meson list.set_intros(2))
  show ?case
  proof (cases "n = ''setup.opaque'' \<or> strip_suffix n opaque_suffix = None")
    case True
    then have "hex i @ opaque_suffix \<noteq> n" for i using hex_not_setup by auto
    with True IH show ?thesis by simp
  next
    case False
    then obtain i r where i: "n = hex i @ opaque_suffix" "E i = Some r" "d n = Some (serialize_registration L r)"
      using Cons.prems [of n] by auto
    have "deserialize_registration L (serialize_registration L r) = Ok r"
      using S by (simp add: opaque_serial_contract_def deserialize_registration_def serialize_registration_def)
    with i IH show ?thesis by (auto simp: Let_def)
  qed
qed simp


section \<open>Enrollment and login\<close>

text \<open>
  \<open>logs_in L setup i pw file\<close>: every login with the password \<open>pw\<close> against the password file succeeds on
  both sides with one session key of 64 bytes (the output of SHA-512), its messages survive serialization and
  are short.  The contract of the library is that registration yields such files.
\<close>

definition carried :: "'o opaque_lib \<Rightarrow> (bytes \<Rightarrow> ('o, nat) outcome) \<Rightarrow> 'o \<Rightarrow> bool" where
  "carried L deser m \<longleftrightarrow> deser (ol_serialize L m) = Ok m \<and> length (ol_serialize L m) \<le> 1024"

definition logs_in :: "'o opaque_lib \<Rightarrow> 'o \<Rightarrow> bytes \<Rightarrow> bytes \<Rightarrow> 'o \<Rightarrow> bool" where
  "logs_in L setup i pw file \<longleftrightarrow>
     (\<forall>r1. \<exists>req cst. ol_client_login_start L r1 pw = Ok (req, cst) \<and> carried L (ol_request_deserialize L) req \<and>
     (\<forall>r2. \<exists>res sst. ol_server_login_start L r2 setup file req i = Ok (res, sst) \<and> carried L (ol_response_deserialize L) res \<and>
     (\<forall>r3. \<exists>fin key. ol_client_login_finish L r3 cst pw res = Ok (fin, key) \<and> carried L (ol_finalization_deserialize L) fin \<and>
        ol_server_login_finish L sst fin = Ok key \<and> length key = 64)))"

definition opaque_contract :: "'o opaque_lib \<Rightarrow> bool" where
  "opaque_contract L \<longleftrightarrow>
     (\<forall>r r' setup i pw. \<exists>req st res up. ol_client_registration_start L r pw = Ok (req, st) \<and>
        ol_server_registration_start L setup req i = Ok res \<and> ol_client_registration_finish L r' st pw res = Ok up \<and>
        logs_in L setup i pw (ol_server_registration_finish L up))"

definition enrolled :: "'o opaque_lib \<Rightarrow> 'o enrollment_store \<Rightarrow> bytes \<Rightarrow> bytes \<Rightarrow> bool" where
  "enrolled L st i pw \<longleftrightarrow> (\<exists>file. es_enrollments st i = Some file \<and> logs_in L (es_setup st) i pw file)"

lemma store_register_ok:
  assumes "opaque_contract L"
  obtains st' where "store_register L r r' st i pw = (Ok (), st')" "enrolled L st' i pw" "es_setup st' = es_setup st"
    "\<And>j. j \<noteq> i \<Longrightarrow> es_enrollments st' j = es_enrollments st j"
proof -
  obtain req cs res up where *: "ol_client_registration_start L r pw = Ok (req, cs)"
    "ol_server_registration_start L (es_setup st) req i = Ok res" "ol_client_registration_finish L r' cs pw res = Ok up"
    "logs_in L (es_setup st) i pw (ol_server_registration_finish L up)"
    using assms unfolding opaque_contract_def by blast
  show ?thesis
    by (rule that [of "st\<lparr>es_enrollments := (es_enrollments st)(i \<mapsto> ol_server_registration_finish L up)\<rparr>"])
      (use * in \<open>simp_all add: store_register_def client_start_registration_def server_start_registration_def
        client_finish_registration_def server_finish_registration_def enrolled_def\<close>)
qed

lemma enrolled_kept:
  assumes "opaque_contract L" "enrolled L st j pw'" "j \<noteq> i"
  shows "enrolled L (snd (store_register L r r' st i pw)) j pw'"
  by (rule store_register_ok [OF assms(1), of r r' st i pw]) (use assms(2,3) in \<open>auto simp: enrolled_def\<close>)

text \<open>An instance of the library, for the witnesses.\<close>

definition demo_opaque :: "bytes opaque_lib" where
  "demo_opaque = \<lparr>ol_setup_new = (\<lambda>_. [9]),
     ol_client_registration_start = (\<lambda>_ pw. Ok ([0], pw)), ol_client_registration_finish = (\<lambda>_ s pw m. Ok pw),
     ol_server_registration_start = (\<lambda>s m i. Ok [1]), ol_server_registration_finish = (\<lambda>m. m),
     ol_client_login_start = (\<lambda>_ pw. Ok ([2], pw)), ol_client_login_finish = (\<lambda>_ s pw m. Ok ([4], replicate 64 7)),
     ol_server_login_start = (\<lambda>_ s f m i. Ok ([3], f)), ol_server_login_finish = (\<lambda>s m. Ok (replicate 64 7)),
     ol_serialize = (\<lambda>x. x), ol_request_deserialize = Ok, ol_response_deserialize = Ok,
     ol_finalization_deserialize = Ok, ol_setup_deserialize = Ok, ol_registration_deserialize = Ok\<rparr>"

lemma demo_opaque_contracts: "opaque_contract demo_opaque" "opaque_serial_contract demo_opaque"
  by (simp_all add: opaque_contract_def logs_in_def carried_def opaque_serial_contract_def demo_opaque_def)

definition demo_store :: "bytes enrollment_store" where
  "demo_store = \<lparr>es_setup = [9], es_enrollments = [[] \<mapsto> [5], [255, 16] \<mapsto> [6]]\<rparr>"

definition demo_dir :: directory where
  "demo_dir = snd (save_to_dir demo_opaque True (\<lambda>_. True) demo_store [[255, 16], []] [''notes.txt'' \<mapsto> [1]])"

lemma demo_dir_names: "dom demo_dir = set [''ff10.opaque'', ''notes.txt'', ''setup.opaque'', ''.opaque'']"
proof -
  have h: "hex [255, 16] = ''ff10''" "hex [] = []" by code_simp+
  have e: "es_enrollments demo_store [255, 16] = Some [6]" "es_enrollments demo_store [] = Some [5]"
    by (simp_all add: demo_store_def)
  show ?thesis
    unfolding demo_dir_def save_to_dir_def save_registrations.simps h e
    by (simp add: opaque_suffix_def Let_def insert_commute)
qed


end
