(* ===== verification/BW_Wire.thy ===== *)
theory BW_Wire
  imports BW_SecureConn BW_Auth
begin

text \<open>
  The session wire protocol (\<^verbatim>\<open>bw-session/src/wire.rs\<close>): establishment of an authenticated session by the
  OPAQUE exchange and the secure handshake, and protocol messages over the secure connection.

  The two sides of the establishment wait for each other.  Each is modelled by its parts between two waits:
  \<open>client_establish_request\<close>, \<open>client_establish_login\<close>, \<open>client_establish_finish\<close> and
  \<open>server_establish_request\<close>, \<open>server_establish_finish\<close>.
\<close>

definition PACKET_TYPE_AUTH :: u16 where
  "PACKET_TYPE_AUTH = 3"

definition MESSAGE_FRAGMENT_SIZE :: nat where
  "MESSAGE_FRAGMENT_SIZE = 60000"

datatype wire_error =
    WAdapter adapter_error
  | WAuth auth_error
  | WStore store_error
  | WSession secure_conn_error
  | WProtocol protocol_error
  | UnexpectedFrame
  | MalformedRequest
  | WClosed
  | WFragmentOutOfOrder
  | WOversizedMessage nat

section \<open>Messages over the connection\<close>

type_synonym message_session = secure_connection
type_synonym message_sender = secure_sender
type_synonym message_receiver = secure_receiver

definition message_frame :: "u16 \<Rightarrow> bool \<Rightarrow> bytes \<Rightarrow> owned_protocol_frame" where
  "message_frame index is_more payload = \<lparr>pf_header = default_header\<lparr>magic := PROTOCOL_MAGIC,
     schema_version := u16_of_version CURRENT_VERSION, packet_type := PACKET_TYPE_MESSAGE,
     flags := fragment_flags index is_more, payload_length := of_nat (length payload)\<rparr>, pf_payload = payload\<rparr>"

definition session_emit :: "'w platform \<Rightarrow> message_session \<Rightarrow> session_manager \<times> 'w \<Rightarrow> u16 \<Rightarrow> bool \<Rightarrow> bytes \<Rightarrow>
    (unit, wire_error) outcome \<times> session_manager \<times> 'w" where
  "session_emit P c st index is_more payload =
     (case send_secure_frame P c st (message_frame index is_more payload) of (r, st') \<Rightarrow> (map_err WSession r, st'))"

definition session_next :: "'w platform \<Rightarrow> message_session \<Rightarrow> session_manager \<times> 'w \<Rightarrow>
    (owned_protocol_frame, wire_error) outcome option \<times> session_manager \<times> 'w" where
  "session_next P c st =
     (case recv_secure_frame P c st of (r, st') \<Rightarrow> (map_option (map_err WSession) r, st'))"

definition session_send_fragmented :: "'w platform \<Rightarrow> message_session \<Rightarrow> session_manager \<times> 'w \<Rightarrow> bytes \<Rightarrow>
    (unit, wire_error) outcome \<times> session_manager \<times> 'w" where
  "session_send_fragmented P c st payload = send_fragmented_with MESSAGE_FRAGMENT_SIZE (session_emit P c) st payload"

definition session_recv_reassembled :: "'w platform \<Rightarrow> message_session \<Rightarrow> session_manager \<times> 'w \<Rightarrow>
    (bytes, wire_error) outcome option \<times> session_manager \<times> 'w" where
  "session_recv_reassembled P c st = recv_reassembled_with (session_next P c) WFragmentOutOfOrder WOversizedMessage st"

definition session_send_message :: "protocol_message cbor \<Rightarrow> 'w platform \<Rightarrow> message_session \<Rightarrow> session_manager \<times> 'w \<Rightarrow>
    protocol_message \<Rightarrow> (unit, wire_error) outcome \<times> session_manager \<times> 'w" where
  "session_send_message cb P c st message =
     (case map_err WProtocol (msg_serialize cb message) of
        Err e \<Rightarrow> (Err e, st)
      | Panic \<Rightarrow> (Panic, st)
      | Ok payload \<Rightarrow> session_send_fragmented P c st payload)"

definition session_recv_message :: "protocol_message cbor \<Rightarrow> 'w platform \<Rightarrow> message_session \<Rightarrow> session_manager \<times> 'w \<Rightarrow>
    (protocol_message, wire_error) outcome option \<times> session_manager \<times> 'w" where
  "session_recv_message cb P c st =
     (case session_recv_reassembled P c st of
        (r, st') \<Rightarrow> (map_option (\<lambda>r. obind r (\<lambda>payload. map_err WProtocol (msg_deserialize cb payload))) r, st'))"

definition session_close :: "'w platform \<Rightarrow> message_session \<Rightarrow> session_manager \<times> 'w \<Rightarrow> message_session \<times> session_manager \<times> 'w" where
  "session_close P c st = sc_close P c st"

definition session_into_split :: "message_session \<Rightarrow> message_sender \<times> message_receiver" where
  "session_into_split c = sc_into_split c"

text \<open>The halves of a split session.\<close>

definition sender_emit :: "'w platform \<Rightarrow> message_sender \<Rightarrow> session_manager \<times> 'w \<Rightarrow> u16 \<Rightarrow> bool \<Rightarrow> bytes \<Rightarrow>
    (unit, wire_error) outcome \<times> session_manager \<times> 'w" where
  "sender_emit P s st index is_more payload =
     (case ss_send_secure_frame P s st (message_frame index is_more payload) of (r, st') \<Rightarrow> (map_err WSession r, st'))"

definition receiver_next :: "'w platform \<Rightarrow> message_receiver \<Rightarrow> session_manager \<times> 'w \<Rightarrow>
    (owned_protocol_frame, wire_error) outcome option \<times> session_manager \<times> 'w" where
  "receiver_next P r st =
     (case sr_recv_secure_frame P r st of (r, st') \<Rightarrow> (map_option (map_err WSession) r, st'))"

definition sender_send_fragmented :: "'w platform \<Rightarrow> message_sender \<Rightarrow> session_manager \<times> 'w \<Rightarrow> bytes \<Rightarrow>
    (unit, wire_error) outcome \<times> session_manager \<times> 'w" where
  "sender_send_fragmented P s st payload = send_fragmented_with MESSAGE_FRAGMENT_SIZE (sender_emit P s) st payload"

definition receiver_recv_reassembled :: "'w platform \<Rightarrow> message_receiver \<Rightarrow> session_manager \<times> 'w \<Rightarrow>
    (bytes, wire_error) outcome option \<times> session_manager \<times> 'w" where
  "receiver_recv_reassembled P r st = recv_reassembled_with (receiver_next P r) WFragmentOutOfOrder WOversizedMessage st"

definition send_message :: "protocol_message cbor \<Rightarrow> 'w platform \<Rightarrow> message_sender \<Rightarrow> session_manager \<times> 'w \<Rightarrow>
    protocol_message \<Rightarrow> (unit, wire_error) outcome \<times> session_manager \<times> 'w" where
  "send_message cb P s st message =
     (case map_err WProtocol (msg_serialize cb message) of
        Err e \<Rightarrow> (Err e, st)
      | Panic \<Rightarrow> (Panic, st)
      | Ok payload \<Rightarrow> sender_send_fragmented P s st payload)"

definition recv_message :: "protocol_message cbor \<Rightarrow> 'w platform \<Rightarrow> message_receiver \<Rightarrow> session_manager \<times> 'w \<Rightarrow>
    (protocol_message, wire_error) outcome option \<times> session_manager \<times> 'w" where
  "recv_message cb P r st =
     (case receiver_recv_reassembled P r st of
        (r, st') \<Rightarrow> (map_option (\<lambda>r. obind r (\<lambda>payload. map_err WProtocol (msg_deserialize cb payload))) r, st'))"

definition sender_close :: "'w platform \<Rightarrow> message_sender \<Rightarrow> 'w \<Rightarrow> 'w" where
  "sender_close P s w = p_finish P w (ss_stream s)"

section \<open>Establishment\<close>

definition auth_frame :: "bytes \<Rightarrow> protocol_frame" where
  "auth_frame payload = \<lparr>pf_header = default_header\<lparr>magic := PROTOCOL_MAGIC,
     schema_version := u16_of_version CURRENT_VERSION, packet_type := PACKET_TYPE_AUTH,
     payload_length := of_nat (length payload)\<rparr>, pf_payload = payload\<rparr>"

definition session_id_from_key :: "bytes \<Rightarrow> session_id" where
  "session_id_from_key key =
     (let n = min (length key) 16 in SessionId (take n key @ replicate (16 - n) 0))"

definition client_establish_request :: "'o opaque_lib \<Rightarrow> 'w platform \<Rightarrow> nat \<Rightarrow> 'w \<Rightarrow> quic_adapter \<Rightarrow> bytes \<Rightarrow> bytes \<Rightarrow>
    ('o, wire_error) outcome \<times> 'w" where
  "client_establish_request L P rng w a identifier password =
     (case map_err WAuth (client_start_login L rng password) of
        Err e \<Rightarrow> (Err e, w)
      | Panic \<Rightarrow> (Panic, w)
      | Ok login_start \<Rightarrow>
          let request_bytes = ol_serialize L (cls_request login_start);
              payload = to_be_bytes 2 (of_nat (length identifier) :: u16) @ identifier @ request_bytes
          in (case send_frame P w (qa_send a) (auth_frame payload) of
                (r, w') \<Rightarrow> (obind (map_err WAdapter r) (\<lambda>_. Ok (cls_state login_start)), w')))"

definition client_establish_login :: "'o opaque_lib \<Rightarrow> 'w platform \<Rightarrow> nat \<Rightarrow> bytes option \<Rightarrow> 'w \<Rightarrow> quic_adapter \<Rightarrow> 'o \<Rightarrow> bytes \<Rightarrow>
    (bytes \<times> secure_connection, wire_error) outcome option \<times> 'w" where
  "client_establish_login L P rng client_nonce w a login_state password =
     (case recv_frame P w (qa_recv a) of
        (None, w1) \<Rightarrow> (None, w1)
      | (Some (Err e), w1) \<Rightarrow> (Some (Err (WAdapter e)), w1)
      | (Some Panic, w1) \<Rightarrow> (Some Panic, w1)
      | (Some (Ok response_frame), w1) \<Rightarrow>
          if packet_type (pf_header response_frame) \<noteq> PACKET_TYPE_AUTH then (Some (Err UnexpectedFrame), w1)
          else (case map_err WAuth (obind (deserialize_credential_response L (pf_payload response_frame))
                       (\<lambda>credential_response. client_finish_login L rng login_state credential_response password)) of
                  Err e \<Rightarrow> (Some (Err e), w1)
                | Panic \<Rightarrow> (Some Panic, w1)
                | Ok login_finish \<Rightarrow>
                    (case send_frame P w1 (qa_send a) (auth_frame (ol_serialize L (clf_finalization login_finish))) of
                       (Err e, w2) \<Rightarrow> (Some (Err (WAdapter e)), w2)
                     | (Panic, w2) \<Rightarrow> (Some Panic, w2)
                     | (Ok _, w2) \<Rightarrow>
                         let key = clf_session_key login_finish
                         in (case client_handshake_start P w2 (secure_new a (session_id_from_key key)) client_nonce of
                               (r, c, w3) \<Rightarrow> (Some (obind (map_err WSession r) (\<lambda>_. Ok (key, c))), w3)))))"

definition client_establish_finish :: "'w platform \<Rightarrow> 'w \<Rightarrow> session_manager \<Rightarrow> secure_connection \<Rightarrow> bytes \<Rightarrow> bytes \<Rightarrow>
    (message_session, wire_error) outcome option \<times> session_manager \<times> 'w" where
  "client_establish_finish P w sm c client_nonce key =
     (case client_handshake_finish P w sm c client_nonce key of
        (r, c', sm', w') \<Rightarrow> (map_option (\<lambda>r. obind (map_err WSession r) (\<lambda>_. Ok c')) r, sm', w'))"

definition server_establish_request :: "'o opaque_lib \<Rightarrow> 'w platform \<Rightarrow> nat \<Rightarrow> 'w \<Rightarrow> quic_adapter \<Rightarrow> 'o enrollment_store \<Rightarrow>
    (bytes \<times> 'o server_login_start, wire_error) outcome option \<times> 'w" where
  "server_establish_request L P rng w a store =
     (case recv_frame P w (qa_recv a) of
        (None, w1) \<Rightarrow> (None, w1)
      | (Some (Err e), w1) \<Rightarrow> (Some (Err (WAdapter e)), w1)
      | (Some Panic, w1) \<Rightarrow> (Some Panic, w1)
      | (Some (Ok request_frame), w1) \<Rightarrow>
          let payload = pf_payload request_frame in
          if packet_type (pf_header request_frame) \<noteq> PACKET_TYPE_AUTH then (Some (Err UnexpectedFrame), w1)
          else if length payload < 2 then (Some (Err MalformedRequest), w1)
          else let id_len = unat (from_be_bytes (take 2 payload) :: u16) in
          if length payload < 2 + id_len then (Some (Err MalformedRequest), w1)
          else let identifier = slice_of 2 (2 + id_len) payload in
          (case map_err WStore (store_start_login L rng store identifier (drop (2 + id_len) payload)) of
             Err e \<Rightarrow> (Some (Err e), w1)
           | Panic \<Rightarrow> (Some Panic, w1)
           | Ok (login, response_bytes) \<Rightarrow>
               (case send_frame P w1 (qa_send a) (auth_frame response_bytes) of
                  (r, w2) \<Rightarrow> (Some (obind (map_err WAdapter r) (\<lambda>_. Ok (identifier, login))), w2))))"

definition server_establish_finish :: "'o opaque_lib \<Rightarrow> 'w platform \<Rightarrow> bytes option \<Rightarrow> 'w \<Rightarrow> session_manager \<Rightarrow> quic_adapter \<Rightarrow>
    bytes \<times> 'o server_login_start \<Rightarrow> (message_session \<times> bytes, wire_error) outcome option \<times> session_manager \<times> 'w" where
  "server_establish_finish L P server_nonce w sm a pending =
     (case pending of (identifier, login) \<Rightarrow>
      (case recv_frame P w (qa_recv a) of
         (None, w1) \<Rightarrow> (None, sm, w1)
       | (Some (Err e), w1) \<Rightarrow> (Some (Err (WAdapter e)), sm, w1)
       | (Some Panic, w1) \<Rightarrow> (Some Panic, sm, w1)
       | (Some (Ok finalization_frame), w1) \<Rightarrow>
           if packet_type (pf_header finalization_frame) \<noteq> PACKET_TYPE_AUTH then (Some (Err UnexpectedFrame), sm, w1)
           else (case map_err WStore (store_finish_login L login (pf_payload finalization_frame)) of
                   Err e \<Rightarrow> (Some (Err e), sm, w1)
                 | Panic \<Rightarrow> (Some Panic, sm, w1)
                 | Ok session_key \<Rightarrow>
                     (case server_handshake P w1 sm (secure_new a (session_id_from_key session_key)) server_nonce session_key of
                        (r, c, sm', w2) \<Rightarrow>
                          (map_option (\<lambda>r. obind (map_err WSession r) (\<lambda>_. Ok (c, identifier))) r, sm', w2)))))"

section \<open>The halves are the session\<close>

lemma session_emit_split: "sc_state c = Active \<Longrightarrow> session_emit P c = sender_emit P (fst (session_into_split c))"
  by (simp add: fun_eq_iff session_emit_def sender_emit_def session_into_split_def send_secure_frame_split)

lemma session_next_split: "sc_state c = Active \<Longrightarrow> session_next P c = receiver_next P (snd (session_into_split c))"
  by (simp add: fun_eq_iff session_next_def receiver_next_def session_into_split_def recv_secure_frame_split)

lemma session_fragmented_split:
  "sc_state c = Active \<Longrightarrow> session_send_fragmented P c = sender_send_fragmented P (fst (session_into_split c))"
  by (simp add: fun_eq_iff session_send_fragmented_def sender_send_fragmented_def session_emit_split)

lemma session_reassembled_split:
  "sc_state c = Active \<Longrightarrow> session_recv_reassembled P c = receiver_recv_reassembled P (snd (session_into_split c))"
  by (simp add: fun_eq_iff session_recv_reassembled_def receiver_recv_reassembled_def session_next_split)

lemma session_fragmented_inactive:
  assumes "sc_state c \<noteq> Active"
  shows "session_send_fragmented P c st bs = (Err (WSession LifecycleError), st)"
proof -
  have e: "session_emit P c st i m p = (Err (WSession LifecycleError), st)" for i m p
    using assms by (simp add: session_emit_def send_secure_frame_def)
  show ?thesis
  proof (cases "length bs \<le> MESSAGE_FRAGMENT_SIZE")
    case False
    then have "0 < MESSAGE_FRAGMENT_SIZE \<and> 0 < length bs" by (auto simp: MESSAGE_FRAGMENT_SIZE_def)
    with e False show ?thesis
      by (subst session_send_fragmented_def, subst send_fragmented_with_def, subst fragment_loop.simps) (simp add: Let_def)
  qed (simp add: session_send_fragmented_def send_fragmented_with_def e)
qed


section \<open>Fragments of messages over the secure connection\<close>

lemma message_frame_with: "message_frame i m p = frame_with (fragment_flags i m) p"
  by (simp add: message_frame_def frame_with_def)

definition wire_emit :: "'w platform \<Rightarrow> message_sender \<Rightarrow> session_manager \<times> session_manager \<times> 'w \<Rightarrow> u16 \<Rightarrow> bool \<Rightarrow> bytes \<Rightarrow>
    (unit, wire_error) outcome \<times> session_manager \<times> session_manager \<times> 'w" where
  "wire_emit P s st i m p = (case st of (smA, smB, w) \<Rightarrow>
     (case sender_emit P s (smA, w) i m p of (r, smA', w') \<Rightarrow> (r, smA', smB, w')))"

definition wire_next :: "'w platform \<Rightarrow> message_receiver \<Rightarrow> session_manager \<times> session_manager \<times> 'w \<Rightarrow>
    (owned_protocol_frame, wire_error) outcome option \<times> session_manager \<times> session_manager \<times> 'w" where
  "wire_next P r st = (case st of (smA, smB, w) \<Rightarrow>
     (case receiver_next P r (smB, w) of (x, smB', w') \<Rightarrow> (x, smA, smB', w')))"

definition wire_carries :: "'w platform \<Rightarrow> ('w \<Rightarrow> stream_id \<Rightarrow> bytes) \<Rightarrow> ('w \<Rightarrow> stream_id \<Rightarrow> bool) \<Rightarrow> message_sender \<Rightarrow>
    message_receiver \<Rightarrow> session_manager \<times> session_manager \<times> 'w \<Rightarrow> (u16 \<times> bytes) list \<Rightarrow> nat \<Rightarrow> bool" where
  "wire_carries P flight live s r st q k \<longleftrightarrow>
     secure_carries P flight live s r st (map (\<lambda>(fl, p). frame_with fl p) q) k"

interpretation message_link: fragment_link MESSAGE_FRAGMENT_SIZE "wire_emit P s" "wire_next P r"
  WFragmentOutOfOrder WOversizedMessage "wire_carries P flight live s r"
proof
  show "0 < MESSAGE_FRAGMENT_SIZE" by (simp add: MESSAGE_FRAGMENT_SIZE_def)
  fix st q k and p :: bytes and i m
  assume c: "wire_carries P flight live s r st q (Suc k)" and l: "length p \<le> MESSAGE_FRAGMENT_SIZE"
  obtain smA smB w where st: "st = (smA, smB, w)" by (cases st)
  have "frame_ok (message_frame i m p)" using l by (simp add: message_frame_with frame_with_ok MESSAGE_FRAGMENT_SIZE_def)
  then obtain smA' w' where "ss_send_secure_frame P s (smA, w) (message_frame i m p) = (Ok (), smA', w')"
    "secure_carries P flight live s r (smA', smB, w') (map (\<lambda>(fl, p). frame_with fl p) q @ [message_frame i m p]) k"
    using secure_send_ok [of P flight live s r smA smB w "map (\<lambda>(fl, p). frame_with fl p) q" k "message_frame i m p"] c l st
    by (auto simp: wire_carries_def message_frame_with MESSAGE_FRAGMENT_SIZE_def FRAGMENT_SIZE_def)
  then show "\<exists>c'. wire_emit P s st i m p = (Ok (), c') \<and> wire_carries P flight live s r c' (q @ [(fragment_flags i m, p)]) k"
    by (auto simp: wire_emit_def sender_emit_def wire_carries_def st message_frame_with)
next
  fix st fl p q k
  assume c: "wire_carries P flight live s r st ((fl, p) # q) k"
  obtain smA smB w where st: "st = (smA, smB, w)" by (cases st)
  obtain smB' w' where "sr_recv_secure_frame P r (smB, w) = (Some (Ok (frame_with fl p)), smB', w')"
    "secure_carries P flight live s r (smA, smB', w') (map (\<lambda>(fl, p). frame_with fl p) q) k"
    using secure_recv_ok [of P flight live s r smA smB w "frame_with fl p" "map (\<lambda>(fl, p). frame_with fl p) q" k] c st
    by (auto simp: wire_carries_def)
  then show "\<exists>f c'. wire_next P r st = (Some (Ok f), c') \<and> flags (pf_header f) = fl \<and> pf_payload f = p \<and>
      wire_carries P flight live s r c' q k"
    by (auto simp: wire_next_def receiver_next_def wire_carries_def st intro!: exI [of _ "frame_with fl p"])
qed

lemma sender_send_fragmented_ok:
  assumes "wire_carries P flight live s r (smA, smB, w) q (length (frags MESSAGE_FRAGMENT_SIZE bs) + k)"
  shows "\<exists>smA' w'. sender_send_fragmented P s (smA, w) bs = (Ok (), smA', w') \<and>
    wire_carries P flight live s r (smA', smB, w') (q @ frags MESSAGE_FRAGMENT_SIZE bs) k"
proof -
  let ?g = "\<lambda>(smA, w). (smA, smB, w)"
  have e: "wire_emit P s (?g st) i m p = (case sender_emit P s st i m p of (r, st') \<Rightarrow> (r, ?g st'))" for st i m p
    by (cases st) (simp add: wire_emit_def split: prod.split)
  show ?thesis
    using message_link.send_ok [OF assms] send_fragmented_embed [of "wire_emit P s" ?g "sender_emit P s", OF e, of MESSAGE_FRAGMENT_SIZE "(smA, w)" bs]
    by (auto simp: sender_send_fragmented_def split: prod.splits)
qed

lemma receiver_recv_reassembled_ok:
  assumes "wire_carries P flight live s r (smA, smB, w) (frags MESSAGE_FRAGMENT_SIZE bs @ q) k" "length bs \<le> MAX_REASSEMBLED_SIZE"
  shows "\<exists>smB' w'. receiver_recv_reassembled P r (smB, w) = (Some (Ok bs), smB', w') \<and>
    wire_carries P flight live s r (smA, smB', w') q k"
proof -
  let ?g = "\<lambda>(smB, w). (smA, smB, w)"
  have e: "wire_next P r (?g st) = (case receiver_next P r st of (x, st') \<Rightarrow> (x, ?g st'))" for st
    by (cases st) (simp add: wire_next_def split: prod.split)
  have n: "length (frags MESSAGE_FRAGMENT_SIZE bs) \<le> 2 ^ 15"
    using frags_count [OF assms(2)] by (simp add: FRAGMENT_SIZE_def MESSAGE_FRAGMENT_SIZE_def)
  show ?thesis
    using message_link.recv_ok_whole [OF assms n]
      recv_reassembled_embed [of "wire_next P r" ?g "receiver_next P r", OF e, of WFragmentOutOfOrder WOversizedMessage "(smB, w)"]
    by (auto simp: receiver_recv_reassembled_def split: prod.splits)
qed

section \<open>Messages\<close>

definition msg_ok :: "protocol_message cbor \<Rightarrow> protocol_message \<Rightarrow> bool" where
  "msg_ok cb m \<longleftrightarrow> (case into_writer cb m of None \<Rightarrow> False | Some bs \<Rightarrow> length bs \<le> MAX_REASSEMBLED_SIZE)"

definition msg_frags :: "protocol_message cbor \<Rightarrow> protocol_message list \<Rightarrow> (u16 \<times> bytes) list" where
  "msg_frags cb ms = concat (map (\<lambda>m. frags MESSAGE_FRAGMENT_SIZE (the (into_writer cb m))) ms)"

lemma msg_okE:
  assumes "msg_ok cb m"
  obtains bs where "into_writer cb m = Some bs" "length bs \<le> MAX_REASSEMBLED_SIZE" "length (frags MESSAGE_FRAGMENT_SIZE bs) \<le> 70"
proof -
  obtain bs where bs: "into_writer cb m = Some bs" "length bs \<le> MAX_REASSEMBLED_SIZE"
    using assms by (auto simp: msg_ok_def split: option.splits)
  then show ?thesis using that frags_count [OF bs(2)] by (simp add: MESSAGE_FRAGMENT_SIZE_def FRAGMENT_SIZE_def)
qed

lemma wire_carries_less: "wire_carries P flight live s r st q k \<Longrightarrow> j \<le> k \<Longrightarrow> wire_carries P flight live s r st q j"
  unfolding wire_carries_def secure_carries_def by (cases st) (auto, fastforce)

lemma send_message_ok:
  assumes "msg_ok cb m" and c: "wire_carries P flight live s r (smA, smB, w) (msg_frags cb ms) (70 + k)"
  shows "\<exists>smA' w'. send_message cb P s (smA, w) m = (Ok (), smA', w') \<and>
    wire_carries P flight live s r (smA', smB, w') (msg_frags cb (ms @ [m])) k"
proof -
  obtain bs where bs: "into_writer cb m = Some bs" "length (frags MESSAGE_FRAGMENT_SIZE bs) \<le> 70" using assms(1) by (rule msg_okE)
  have "wire_carries P flight live s r (smA, smB, w) (msg_frags cb ms) (length (frags MESSAGE_FRAGMENT_SIZE bs) + k)"
    using wire_carries_less [OF c] bs(2) by simp
  from sender_send_fragmented_ok [OF this] bs(1) show ?thesis by (auto simp: send_message_def msg_serialize_def msg_frags_def)
qed

lemma recv_message_ok:
  assumes "cbor_contract cb" "msg_ok cb m" and c: "wire_carries P flight live s r (smA, smB, w) (msg_frags cb (m # ms)) k"
  shows "\<exists>smB' w'. recv_message cb P r (smB, w) = (Some (Ok m), smB', w') \<and>
    wire_carries P flight live s r (smA, smB', w') (msg_frags cb ms) k"
proof -
  obtain bs where bs: "into_writer cb m = Some bs" "length bs \<le> MAX_REASSEMBLED_SIZE" using assms(2) by (rule msg_okE)
  then have "msg_deserialize cb bs = Ok m"
    using assms(1) by (auto simp: msg_deserialize_def MSG_MAX_DESER_SIZE_def MAX_REASSEMBLED_SIZE_def cbor_contract_def)
  moreover have "wire_carries P flight live s r (smA, smB, w) (frags MESSAGE_FRAGMENT_SIZE bs @ msg_frags cb ms) k"
    using c bs by (simp add: msg_frags_def)
  ultimately show ?thesis using receiver_recv_reassembled_ok [of P flight live s r smA smB w bs] bs(2)
    by (fastforce simp: recv_message_def)
qed

lemma send_message_all:
  "wire_carries P flight live s r (smA, smB, w) (msg_frags cb ns) (70 * length ms + k) \<Longrightarrow> \<forall>m \<in> set ms. msg_ok cb m \<Longrightarrow>
   \<exists>smA' w'. run_all (send_message cb P s) (smA, w) ms = (map (\<lambda>_. Ok ()) ms, smA', w') \<and>
     wire_carries P flight live s r (smA', smB, w') (msg_frags cb (ns @ ms)) k"
proof (induction ms arbitrary: ns smA w)
  case (Cons m ms)
  have c: "wire_carries P flight live s r (smA, smB, w) (msg_frags cb ns) (70 + (70 * length ms + k))"
    using Cons.prems(1) by (simp add: add.assoc)
  obtain smA1 w1 where 1: "send_message cb P s (smA, w) m = (Ok (), smA1, w1)"
    "wire_carries P flight live s r (smA1, smB, w1) (msg_frags cb (ns @ [m])) (70 * length ms + k)"
    using send_message_ok [OF _ c, of m] Cons.prems(2) by auto
  with Cons.IH [OF 1(2)] Cons.prems(2) show ?case by auto
qed auto

lemma recv_message_all:
  "wire_carries P flight live s r (smA, smB, w) (msg_frags cb ms) k \<Longrightarrow> \<forall>m \<in> set ms. msg_ok cb m \<Longrightarrow> cbor_contract cb \<Longrightarrow>
   \<exists>smB' w'. run_all (\<lambda>st _. recv_message cb P r st) (smB, w) ms = (map (\<lambda>m. Some (Ok m)) ms, smB', w')"
proof (induction ms arbitrary: smB w)
  case (Cons m ms)
  obtain smB1 w1 where 1: "recv_message cb P r (smB, w) = (Some (Ok m), smB1, w1)"
    "wire_carries P flight live s r (smA, smB1, w1) (msg_frags cb ms) k"
    using recv_message_ok [OF Cons.prems(3) _ Cons.prems(1)] Cons.prems(2) by auto
  with Cons.IH [OF 1(2)] Cons.prems(2,3) show ?case by auto
qed auto

text \<open>All messages of a list sent over one session and then received from the other.\<close>

definition delivers_messages :: "protocol_message cbor \<Rightarrow> 'w platform \<Rightarrow> message_session \<Rightarrow> message_session \<Rightarrow> session_manager \<Rightarrow>
    session_manager \<Rightarrow> 'w \<Rightarrow> protocol_message list \<Rightarrow> bool" where
  "delivers_messages cb P c d smC smD w ms \<longleftrightarrow>
     (case run_all (session_send_message cb P c) (smC, w) ms of
        (rs, smC', w') \<Rightarrow> rs = map (\<lambda>_. Ok ()) ms \<and>
          fst (run_all (\<lambda>st _. session_recv_message cb P d st) (smD, w') ms) = map (\<lambda>m. Some (Ok m)) ms)"

lemma carries_delivers_messages:
  assumes c: "secure_carries P flight live (fst (sc_into_split c)) (snd (sc_into_split d)) (smC, smD, w) [] (2 ^ 64 - 1)"
    and a: "sc_state c = Active" "sc_state d = Active"
    and m: "70 * length ms < 2 ^ 64" "\<forall>m \<in> set ms. msg_ok cb m" "cbor_contract cb"
  shows "delivers_messages cb P c d smC smD w ms"
proof -
  let ?s = "fst (sc_into_split c)" and ?r = "snd (sc_into_split d)"
  have s: "session_send_message cb P c = send_message cb P ?s" and r: "session_recv_message cb P d = recv_message cb P ?r"
    using a by (simp_all add: fun_eq_iff session_send_message_def send_message_def session_recv_message_def recv_message_def
        session_fragmented_split session_reassembled_split session_into_split_def cong: outcome.case_cong)
  have "wire_carries P flight live ?s ?r (smC, smD, w) (msg_frags cb []) (2 ^ 64 - 1)"
    using c by (simp add: wire_carries_def msg_frags_def)
  then have "wire_carries P flight live ?s ?r (smC, smD, w) (msg_frags cb []) (70 * length ms + 0)"
    by (rule wire_carries_less) (use m(1) in simp)
  from send_message_all [OF this m(2)] obtain smC' w' where
    1: "run_all (send_message cb P ?s) (smC, w) ms = (map (\<lambda>_. Ok ()) ms, smC', w')"
    "wire_carries P flight live ?s ?r (smC', smD, w') (msg_frags cb ms) 0" by auto
  with recv_message_all [OF 1(2) m(2,3)] show ?thesis by (auto simp: delivers_messages_def s r)
qed

section \<open>Establishment succeeds\<close>

lemma auth_frame_simps [simp]:
  "packet_type (pf_header (auth_frame p)) = PACKET_TYPE_AUTH" "pf_payload (auth_frame p) = p"
  by (simp_all add: auth_frame_def)

lemma auth_frame_ok: "length p < 2 ^ 16 \<Longrightarrow> frame_ok (auth_frame p)"
  by (simp add: frame_ok_def auth_frame_def wf_header_def PROTOCOL_MAGIC_def header_validate_def is_compatible_with_def
      unat_of_nat take_bit_nat_eq_self)

text \<open>The request carries the identifier behind its length.\<close>

definition request_payload :: "bytes \<Rightarrow> bytes \<Rightarrow> bytes" where
  "request_payload identifier request_bytes = to_be_bytes 2 (of_nat (length identifier) :: u16) @ identifier @ request_bytes"

lemma request_payload_parse:
  assumes "length i < 2 ^ 16"
  shows "unat (from_be_bytes (take 2 (request_payload i rest)) :: u16) = length i"
    and "slice_of 2 (2 + length i) (request_payload i rest) = i" "drop (2 + length i) (request_payload i rest) = rest"
    and "2 + length i \<le> length (request_payload i rest)"
  using assms by (simp_all add: request_payload_def from_to_be_bytes unat_of_nat take_bit_nat_eq_self slice_of_def)

lemma client_request_ok:
  assumes P: "platform_ok P flight live" and lv: "live w (qa_send a)" and cl: "ol_client_login_start L r1 pw = Ok (req, cst)"
  shows "\<exists>w1. client_establish_request L P r1 w a i pw = (Ok cst, w1) \<and>
    flight w1 (qa_send a) = flight w (qa_send a) @ encode_frame (p_bm P) (auth_frame (request_payload i (ol_serialize L req))) \<and>
    live w1 (qa_send a) \<and> (\<forall>t. t \<noteq> qa_send a \<longrightarrow> flight w1 t = flight w t \<and> live w1 t = live w t)"
  using send_frame_ok [OF P lv, of "auth_frame (request_payload i (ol_serialize L req))"] cl
  by (auto simp: client_establish_request_def client_start_login_def request_payload_def Let_def)

lemma server_request_ok:
  assumes P: "platform_ok P flight live" and ad: "qa_send a \<noteq> qa_recv a" and lv: "live w (qa_send a)" and i: "length i \<le> 60000"
    and fl: "flight w (qa_recv a) = encode_frame (p_bm P) (auth_frame (request_payload i (ol_serialize L req)))"
    and rq: "carried L (ol_request_deserialize L) req" and f: "es_enrollments st i = Some file"
    and sl: "ol_server_login_start L r2 (es_setup st) file req i = Ok (res, sst)"
  shows "\<exists>w2. server_establish_request L P r2 w a st = (Some (Ok (i, \<lparr>sls_response = res, sls_state = sst\<rparr>)), w2) \<and>
    flight w2 (qa_recv a) = [] \<and> flight w2 (qa_send a) = flight w (qa_send a) @ encode_frame (p_bm P) (auth_frame (ol_serialize L res)) \<and>
    (\<forall>t. live w2 t = live w t)"
proof -
  let ?p = "request_payload i (ol_serialize L req)"
  have i': "length i < 2 ^ 16" using i by simp
  have "length ?p < 2 ^ 16" using i rq by (simp add: request_payload_def carried_def)
  then obtain w1 where w1: "recv_frame P w (qa_recv a) = (Some (Ok (auth_frame ?p)), w1)" "flight w1 (qa_recv a) = []"
    "\<forall>t. live w1 t = live w t" "\<forall>t. t \<noteq> qa_recv a \<longrightarrow> flight w1 t = flight w t"
    using recv_frame_ok [OF P auth_frame_ok, of ?p w "qa_recv a" "[]"] fl by auto
  have l1: "live w1 (qa_send a)" using w1(3) lv by simp
  obtain w2 where w2: "send_frame P w1 (qa_send a) (auth_frame (ol_serialize L res)) = (Ok (), w2)"
    "flight w2 (qa_send a) = flight w1 (qa_send a) @ encode_frame (p_bm P) (auth_frame (ol_serialize L res))" "live w2 (qa_send a)"
    "\<forall>t. t \<noteq> qa_send a \<longrightarrow> flight w2 t = flight w1 t \<and> live w2 t = live w1 t"
    using send_frame_ok [OF P l1] by blast
  have "live w2 t = live w t" for t using w2(3,4) w1(3) l1 by (cases "t = qa_send a") auto
  moreover have "store_start_login L r2 st i (ol_serialize L req) =
      Ok (\<lparr>sls_response = res, sls_state = sst\<rparr>, ol_serialize L res)"
    using rq f sl by (simp add: store_start_login_def carried_def store_get_def server_start_login_def)
  then have "server_establish_request L P r2 w a st = (Some (Ok (i, \<lparr>sls_response = res, sls_state = sst\<rparr>)), w2)"
    using w1(1) w2(1) request_payload_parse [OF i', of "ol_serialize L req"]
    by (simp add: server_establish_request_def Let_def)
  ultimately show ?thesis using w1 w2 ad by auto
qed

lemma client_login_ok:
  assumes P: "platform_ok P flight live" and ad: "qa_send a \<noteq> qa_recv a" and lv: "live w (qa_send a)"
    and fl: "flight w (qa_recv a) = encode_frame (p_bm P) (auth_frame (ol_serialize L res))" "flight w (qa_send a) = []"
    and rs: "carried L (ol_response_deserialize L) res" and fin: "ol_client_login_finish L r3 cst pw res = Ok (fin, key)"
  shows "\<exists>w3. client_establish_login L P r3 (Some cn) w a cst pw = (Some (Ok (key, (secure_new a (session_id_from_key key))
        \<lparr>sc_lifecycle := force_state lifecycle_new Handshaking\<rparr>)), w3) \<and>
    flight w3 (qa_recv a) = [] \<and>
    flight w3 (qa_send a) = encode_frame (p_bm P) (auth_frame (ol_serialize L fin)) @ encode_frame (p_bm P) (handshake_frame cn) \<and>
    (\<forall>t. live w3 t = live w t)"
proof -
  have "length (ol_serialize L res) < 2 ^ 16" using rs by (simp add: carried_def)
  then obtain w1 where w1: "recv_frame P w (qa_recv a) = (Some (Ok (auth_frame (ol_serialize L res))), w1)" "flight w1 (qa_recv a) = []"
    "\<forall>t. live w1 t = live w t" "\<forall>t. t \<noteq> qa_recv a \<longrightarrow> flight w1 t = flight w t"
    using recv_frame_ok [OF P auth_frame_ok, of "ol_serialize L res" w "qa_recv a" "[]"] fl by auto
  have l1: "live w1 (qa_send a)" using w1(3) lv by simp
  obtain w2 where w2: "send_frame P w1 (qa_send a) (auth_frame (ol_serialize L fin)) = (Ok (), w2)"
    "flight w2 (qa_send a) = flight w1 (qa_send a) @ encode_frame (p_bm P) (auth_frame (ol_serialize L fin))" "live w2 (qa_send a)"
    "\<forall>t. t \<noteq> qa_send a \<longrightarrow> flight w2 t = flight w1 t \<and> live w2 t = live w1 t"
    using send_frame_ok [OF P l1] by blast
  let ?i = "session_id_from_key key"
  obtain w3 where w3: "client_handshake_start P w2 (secure_new a ?i) (Some cn) =
      (Ok (), (secure_new a ?i)\<lparr>sc_lifecycle := force_state lifecycle_new Handshaking\<rparr>, w3)"
    "flight w3 (qa_send a) = flight w2 (qa_send a) @ encode_frame (p_bm P) (handshake_frame cn)" "live w3 (qa_send a)"
    "\<forall>t. t \<noteq> qa_send a \<longrightarrow> flight w3 t = flight w2 t \<and> live w3 t = live w2 t"
    using client_start_ok [OF P w2(3), of ?i cn] by blast
  have "live w3 t = live w t" for t using w3(3,4) w2(3,4) w1(3) l1 by (cases "t = qa_send a") auto
  moreover have "client_establish_login L P r3 (Some cn) w a cst pw =
      (Some (Ok (key, (secure_new a ?i)\<lparr>sc_lifecycle := force_state lifecycle_new Handshaking\<rparr>)), w3)"
    using w1(1) w2(1) w3(1) rs fin
    by (simp add: client_establish_login_def deserialize_credential_response_def carried_def client_finish_login_def Let_def)
  ultimately show ?thesis using w1 w2 w3 ad fl by auto
qed

lemma server_finish_ok:
  assumes P: "platform_ok P flight live" and ad: "qa_send a \<noteq> qa_recv a" and lv: "live w (qa_send a)"
    and fl: "flight w (qa_recv a) = encode_frame (p_bm P) (auth_frame (ol_serialize L fin)) @ encode_frame (p_bm P) (handshake_frame cn)"
      "flight w (qa_send a) = []"
    and fin: "carried L (ol_finalization_deserialize L) fin" "ol_server_login_finish L sst fin = Ok key"
    and n: "length cn = 16" and sm: "\<not> poisoned sm" "active_sessions sm (session_id_from_key key) = None"
    and ms: "hkdf_derive (p_crypto P) None key (Some (ascii ''opaque-session'')) = Ok m"
    and ks: "derive_session_keys (p_crypto P) m cn sn = Ok ks"
  shows "\<exists>w2. server_establish_finish L P (Some sn) w sm a (i, \<lparr>sls_response = res, sls_state = sst\<rparr>) =
      (Some (Ok ((secure_new a (session_id_from_key key))\<lparr>sc_lifecycle := force_state lifecycle_new Active\<rparr>, i)),
       sm\<lparr>active_sessions := (active_sessions sm)(session_id_from_key key \<mapsto> Some (context_new
          \<lparr>sk_send_key = sk_recv_key ks, sk_recv_key = sk_send_key ks, sk_epoch = sk_epoch ks\<rparr> (Counter 10000)))\<rparr>, w2) \<and>
    flight w2 (qa_recv a) = [] \<and> flight w2 (qa_send a) = encode_frame (p_bm P) (handshake_frame sn) \<and>
    (\<forall>t. live w2 t = live w t)"
proof -
  have "length (ol_serialize L fin) < 2 ^ 16" using fin by (simp add: carried_def)
  then obtain w1 where w1: "recv_frame P w (qa_recv a) = (Some (Ok (auth_frame (ol_serialize L fin))), w1)"
    "flight w1 (qa_recv a) = encode_frame (p_bm P) (handshake_frame cn)"
    "\<forall>t. live w1 t = live w t" "\<forall>t. t \<noteq> qa_recv a \<longrightarrow> flight w1 t = flight w t"
    using recv_frame_ok [OF P auth_frame_ok] fl(1) by blast
  have f1: "flight w1 (qa_send a) = []" and l1: "live w1 (qa_send a)" using w1 fl ad lv by auto
  from server_handshake_ok [OF P ad l1 w1(2) f1 n sm ms ks] w1(1,3) fin show ?thesis
    by (fastforce simp: server_establish_finish_def store_finish_login_def carried_def server_finish_login_def)
qed

text \<open>The login: up to here both sides have the key, and the finalization and the client's nonce are on the way.\<close>

lemma login_exchange:
  assumes P: "platform_ok P flight live" and e: "enrolled L store i pw"
    and st: "s \<noteq> t" "live w s" "live w t" "flight w s = []" "flight w t = []" and i: "length i \<le> 60000"
  obtains cst w1 res sst w2 fin key w3 where
    "client_establish_request L P r1 w \<lparr>qa_send = s, qa_recv = t\<rparr> i pw = (Ok cst, w1)"
    "server_establish_request L P r2 w1 \<lparr>qa_send = t, qa_recv = s\<rparr> store = (Some (Ok (i, \<lparr>sls_response = res, sls_state = sst\<rparr>)), w2)"
    "client_establish_login L P r3 (Some cn) w2 \<lparr>qa_send = s, qa_recv = t\<rparr> cst pw =
       (Some (Ok (key, (secure_new \<lparr>qa_send = s, qa_recv = t\<rparr> (session_id_from_key key))
          \<lparr>sc_lifecycle := force_state lifecycle_new Handshaking\<rparr>)), w3)"
    "flight w3 s = encode_frame (p_bm P) (auth_frame (ol_serialize L fin)) @ encode_frame (p_bm P) (handshake_frame cn)"
    "flight w3 t = []" "live w3 s" "live w3 t" "carried L (ol_finalization_deserialize L) fin" "ol_server_login_finish L sst fin = Ok key"
proof -
  let ?a = "\<lparr>qa_send = s, qa_recv = t\<rparr>" and ?b = "\<lparr>qa_send = t, qa_recv = s\<rparr>"
  obtain pf where f: "es_enrollments store i = Some pf" "logs_in L (es_setup store) i pw pf"
    using e by (auto simp: enrolled_def)
  from f(2) obtain req cst res sst fin key where
    ol: "ol_client_login_start L r1 pw = Ok (req, cst)" "carried L (ol_request_deserialize L) req"
      "ol_server_login_start L r2 (es_setup store) pf req i = Ok (res, sst)" "carried L (ol_response_deserialize L) res"
      "ol_client_login_finish L r3 cst pw res = Ok (fin, key)" "carried L (ol_finalization_deserialize L) fin"
      "ol_server_login_finish L sst fin = Ok key"
    unfolding logs_in_def by metis
  obtain w1 where w1: "client_establish_request L P r1 w ?a i pw = (Ok cst, w1)"
    "flight w1 s = encode_frame (p_bm P) (auth_frame (request_payload i (ol_serialize L req)))" "flight w1 t = []" "live w1 s" "live w1 t"
    using client_request_ok [OF P, of w ?a, OF _ ol(1), of i] st by auto
  obtain w2 where w2: "server_establish_request L P r2 w1 ?b store = (Some (Ok (i, \<lparr>sls_response = res, sls_state = sst\<rparr>)), w2)"
    "flight w2 s = []" "flight w2 t = encode_frame (p_bm P) (auth_frame (ol_serialize L res))" "live w2 s" "live w2 t"
    using server_request_ok [OF P, of ?b w1 i L req store, OF _ _ i _ ol(2) f(1) ol(3)] w1 st(1) by auto
  obtain w3 where "client_establish_login L P r3 (Some cn) w2 ?a cst pw =
      (Some (Ok (key, (secure_new ?a (session_id_from_key key))\<lparr>sc_lifecycle := force_state lifecycle_new Handshaking\<rparr>)), w3)"
    "flight w3 s = encode_frame (p_bm P) (auth_frame (ol_serialize L fin)) @ encode_frame (p_bm P) (handshake_frame cn)"
    "flight w3 t = []" "live w3 s" "live w3 t"
    using client_login_ok [OF P, of ?a w2 L res, OF _ _ _ _ ol(4,5), of cn] w2 st(1) by auto
  with that [OF w1(1) w2(1)] ol(6,7) show ?thesis by blast
qed

text \<open>Two managers that hold contexts with the same keys in opposite roles carry messages both ways.\<close>

lemma opposite_deliver:
  assumes P: "platform_ok P flight live" and cb: "cbor_contract cb"
    and sm: "\<not> poisoned smA" "\<not> poisoned smB" and w: "live w s" "live w t" "flight w s = []" "flight w t = []"
    and c: "c = (secure_new \<lparr>qa_send = s, qa_recv = t\<rparr> i)\<lparr>sc_lifecycle := force_state lifecycle_new Active\<rparr>"
    and d: "d = (secure_new \<lparr>qa_send = t, qa_recv = s\<rparr> i)\<lparr>sc_lifecycle := force_state lifecycle_new Active\<rparr>"
    and A: "active_sessions smA i = Some (Some (context_new ks (Counter 10000)))"
    and B: "active_sessions smB i = Some (Some (context_new \<lparr>sk_send_key = sk_recv_key ks, sk_recv_key = sk_send_key ks,
        sk_epoch = sk_epoch ks\<rparr> (Counter 10000)))"
    and ks: "length (sk_send_key ks) = 32" "length (sk_recv_key ks) = 32"
    and ms: "70 * length ms < 2 ^ 64" "\<forall>m \<in> set ms. msg_ok cb m"
  shows "delivers_messages cb P c d smA smB w ms \<and> delivers_messages cb P d c smB smA w ms"
proof -
  have lt: "(2 :: nat) ^ 64 - 1 < 2 ^ 64" by simp
  have a: "sc_state c = Active" "sc_state d = Active" by (simp_all add: c d sc_state_def)
  have AB: "secure_carries P flight live (fst (sc_into_split c)) (snd (sc_into_split d)) (smA, smB, w) [] (2 ^ 64 - 1)"
    using established_carries [OF P sm w(1,3) A B _ _ _ lt] ks by (simp add: c d sc_into_split_def secure_new_def)
  have BA: "secure_carries P flight live (fst (sc_into_split d)) (snd (sc_into_split c)) (smB, smA, w) [] (2 ^ 64 - 1)"
    using established_carries [OF P sm(2,1) w(2,4) B A _ _ _ lt] ks by (simp add: c d sc_into_split_def secure_new_def)
  show ?thesis using carries_delivers_messages [OF AB a ms cb] carries_delivers_messages [OF BA a(2,1) ms cb] by blast
qed


section \<open>Concrete sessions\<close>

definition demo_message :: protocol_message where
  "demo_message = \<lparr>msg_type = InputKeyboard, msg_id = 1, msg_flags = 0, msg_payload = [1, 2, 3]\<rparr>"

lemma demo_enrolled: "enrolled demo_opaque demo_store [255, 16] [6]"
  by (simp add: enrolled_def logs_in_def carried_def demo_store_def demo_opaque_def)


section \<open>No session without a login\<close>

lemma server_handshake_sessions:
  assumes "server_handshake P w sm c rng key = (r, c', sm', w')"
  shows "sm' = sm \<or> (\<exists>ctx. active_sessions sm (sc_session_id c) = None \<and>
    sm' = sm\<lparr>active_sessions := (active_sessions sm)(sc_session_id c \<mapsto> Some ctx)\<rparr>)"
  using assms
  by (auto simp: server_handshake_def create_session_with_context_def Let_def
      split: prod.splits outcome.splits option.splits if_splits)



end
