(* ===== verification/BW_Forwarding.thy ===== *)
theory BW_Forwarding
  imports BW_Message Complex_Main "HOL-Library.AList" "HOL-Library.Log_Nat"
begin

text \<open>
  The forwarding table of the relay (\<^verbatim>\<open>bw-relay/src/forwarding.rs\<close>): authorization of endpoint pairs, authenticated
  address bindings, the blocklist, and the decision where a data-plane packet goes.

  Hash maps are association lists with distinct keys, in the (unspecified) order in which they are
  traversed.  The time of the clock is the argument \<open>now\<close> of every operation.  The locks of this file are read
  through poisoning, so it plays no role.
\<close>

section \<open>Library types\<close>

datatype ip_addr = IpV4 u32 | IpV6 "128 word"

datatype socket_addr = SocketV4 u32 u16 | SocketV6 "128 word" u16 u32 u32

fun ip :: "socket_addr \<Rightarrow> ip_addr" where
  "ip (SocketV4 a port) = IpV4 a"
| "ip (SocketV6 a port flowinfo scope) = IpV6 a"

text \<open>
  Double-precision arithmetic: a value is a rational and every operation rounds its exact result to 53
  significant bits, ties to even.  All values here are far inside the exponent range of \<open>f64\<close>.
\<close>

definition round_half_even :: "rat \<Rightarrow> int" where
  "round_half_even x =
     (let f = \<lfloor>x\<rfloor>; d = x - of_int f
      in if d < 1 / 2 then f else if d > 1 / 2 then f + 1 else if even f then f else f + 1)"

definition f64_exponent :: "rat \<Rightarrow> int" where
  "f64_exponent x =
     (case quotient_of x of (p, q) \<Rightarrow>
        let e = int (floorlog 2 (nat p)) - int (floorlog 2 (nat q)) - 53
        in if x < 2 powi (e + 53) then e else e + 1)"

definition f64 :: "rat \<Rightarrow> rat" where
  "f64 x =
     (if x = 0 then 0
      else let e = f64_exponent \<bar>x\<bar>
           in sgn x * of_int (round_half_even (\<bar>x\<bar> / 2 powi e)) * 2 powi e)"

definition f64_of_u64 :: "u64 \<Rightarrow> rat" where
  "f64_of_u64 n = f64 (of_nat (unat n))"

section \<open>Constants and state\<close>

definition IDLE_TIMEOUT_MS :: u64 where
  "IDLE_TIMEOUT_MS = 30000"

definition SESSION_EXPIRY_MS :: u64 where
  "SESSION_EXPIRY_MS = 120000"

definition SESSION_BYTE_CAP :: u64 where
  "SESSION_BYTE_CAP = 10 * 1024 * 1024 * 1024"

definition EXCHANGE_TIMEOUT_MS :: u64 where
  "EXCHANGE_TIMEOUT_MS = 10000"

definition RATE_LIMIT_BYTES_PER_SEC :: u64 where
  "RATE_LIMIT_BYTES_PER_SEC = 625000"

definition BLOCKLIST_THRESHOLD :: u64 where
  "BLOCKLIST_THRESHOLD = 20"

definition BLOCKLIST_WINDOW_MS :: u64 where
  "BLOCKLIST_WINDOW_MS = 60000"

definition MAX_BLOCKLIST_ENTRIES :: nat where
  "MAX_BLOCKLIST_ENTRIES = 4096"

datatype forwarding_state = Authorized | RelayRequested | RelayActive | RelayExpired | RelayClosed

record endpoint_binding =
  eb_device_id :: device_id
  eb_addr :: "socket_addr option"

record rate_bucket =
  rb_tokens :: rat
  rb_last_refill_ms :: u64

type_synonym intent_id = bytes
type_synonym relay_token = bytes

record forwarding_context =
  fc_intent_id :: intent_id
  fc_token :: relay_token
  fc_initiator :: endpoint_binding
  fc_target :: endpoint_binding
  fc_state :: forwarding_state
  fc_last_active_ms :: u64
  fc_expires_at_ms :: u64
  fc_bytes_forwarded :: u64
  fc_authorized_at_ms :: u64
  fc_rate_bucket :: rate_bucket

record forwarding_table =
  ft_contexts :: "(intent_id \<times> forwarding_context) list"
  ft_token_index :: "(relay_token \<times> intent_id) list"
  ft_failed_lookups :: "(ip_addr \<times> u64 \<times> u64) list"
  ft_rate_limit :: u64
  ft_session_expiry_ms :: u64

section \<open>Operations\<close>

definition with_limits :: "u64 \<Rightarrow> u64 \<Rightarrow> forwarding_table" where
  "with_limits rate expiry = \<lparr>ft_contexts = [], ft_token_index = [], ft_failed_lookups = [],
     ft_rate_limit = rate, ft_session_expiry_ms = expiry\<rparr>"

definition with_rate_limit :: "u64 \<Rightarrow> forwarding_table" where
  "with_rate_limit rate = with_limits rate SESSION_EXPIRY_MS"

definition forwarding_new :: forwarding_table where
  "forwarding_new = with_rate_limit RATE_LIMIT_BYTES_PER_SEC"

definition authorize_pair :: "forwarding_table \<Rightarrow> u64 \<Rightarrow> intent_id \<Rightarrow> relay_token \<Rightarrow> device_id \<Rightarrow> device_id \<Rightarrow> forwarding_table" where
  "authorize_pair T now i token initiator_id target_id =
     (let ctx = \<lparr>fc_intent_id = i, fc_token = token,
            fc_initiator = \<lparr>eb_device_id = initiator_id, eb_addr = None\<rparr>,
            fc_target = \<lparr>eb_device_id = target_id, eb_addr = None\<rparr>,
            fc_state = Authorized, fc_last_active_ms = now, fc_expires_at_ms = now + ft_session_expiry_ms T,
            fc_bytes_forwarded = 0, fc_authorized_at_ms = now,
            fc_rate_bucket = \<lparr>rb_tokens = f64_of_u64 (ft_rate_limit T), rb_last_refill_ms = now\<rparr>\<rparr>
      in T\<lparr>ft_contexts := AList.update i ctx (ft_contexts T),
           ft_token_index := AList.update token i (ft_token_index T)\<rparr>)"

definition update_binding :: "forwarding_table \<Rightarrow> u64 \<Rightarrow> intent_id \<Rightarrow> device_id \<Rightarrow> socket_addr \<Rightarrow>
    (unit, string) outcome \<times> forwarding_table" where
  "update_binding T now i dev addr =
     (case map_of (ft_contexts T) i of
        None \<Rightarrow> (Err ''Forwarding session not found'', T)
      | Some ctx \<Rightarrow>
          let store = (\<lambda>c. T\<lparr>ft_contexts := AList.update i c (ft_contexts T)\<rparr>) in
          if fc_state ctx = RelayExpired \<or> fc_state ctx = RelayClosed
          then (Err ''Cannot rebind a closed or expired forwarding session'', T)
          else if saturating_sub now (fc_last_active_ms ctx) > IDLE_TIMEOUT_MS
          then (Err ''Forwarding session has expired due to inactivity'', store (ctx\<lparr>fc_state := RelayExpired\<rparr>))
          else if now \<ge> fc_expires_at_ms ctx
          then (Err ''Forwarding session has reached its absolute expiry'', store (ctx\<lparr>fc_state := RelayExpired\<rparr>))
          else if eb_device_id (fc_initiator ctx) \<noteq> dev \<and> eb_device_id (fc_target ctx) \<noteq> dev
          then (Err ''Device is not part of this forwarding session'', T)
          else let ctx1 = (if eb_device_id (fc_initiator ctx) = dev
                           then ctx\<lparr>fc_initiator := (fc_initiator ctx)\<lparr>eb_addr := Some addr\<rparr>\<rparr>
                           else ctx\<lparr>fc_target := (fc_target ctx)\<lparr>eb_addr := Some addr\<rparr>\<rparr>);
                   ctx2 = ctx1\<lparr>fc_last_active_ms := now\<rparr>;
                   ctx3 = ctx2\<lparr>fc_state := (if eb_addr (fc_initiator ctx2) \<noteq> None \<and> eb_addr (fc_target ctx2) \<noteq> None
                                            then RelayActive else RelayRequested)\<rparr>
               in (Ok (), store ctx3))"

definition record_failed_lookup :: "forwarding_table \<Rightarrow> ip_addr \<Rightarrow> u64 \<Rightarrow> forwarding_table" where
  "record_failed_lookup T a now =
     (let failed = (if length (ft_failed_lookups T) \<ge> MAX_BLOCKLIST_ENTRIES
                    then filter (\<lambda>(_, _, window_start). saturating_sub now window_start \<le> BLOCKLIST_WINDOW_MS) (ft_failed_lookups T)
                    else ft_failed_lookups T);
          entry = (case map_of failed a of None \<Rightarrow> (0, now) | Some e \<Rightarrow> e);
          entry' = (if saturating_sub now (snd entry) > BLOCKLIST_WINDOW_MS then (1, now) else (fst entry + 1, snd entry))
      in T\<lparr>ft_failed_lookups := AList.update a entry' failed\<rparr>)"

definition is_blocklisted :: "forwarding_table \<Rightarrow> u64 \<Rightarrow> ip_addr \<Rightarrow> bool" where
  "is_blocklisted T now a =
     (case map_of (ft_failed_lookups T) a of
        Some (count, window_start) \<Rightarrow>
          count \<ge> BLOCKLIST_THRESHOLD \<and> saturating_sub now window_start \<le> BLOCKLIST_WINDOW_MS
      | None \<Rightarrow> False)"

definition refill :: "u64 \<Rightarrow> u64 \<Rightarrow> rate_bucket \<Rightarrow> rate_bucket" where
  "refill rate now b =
     (let elapsed_s = f64 (f64_of_u64 (saturating_sub now (rb_last_refill_ms b)) / 1000)
      in b\<lparr>rb_tokens := min (f64 (rb_tokens b + f64 (elapsed_s * f64_of_u64 rate))) (f64_of_u64 rate),
           rb_last_refill_ms := now\<rparr>)"

definition get_destination :: "forwarding_table \<Rightarrow> u64 \<Rightarrow> relay_token \<Rightarrow> socket_addr \<Rightarrow> nat \<Rightarrow>
    socket_addr option \<times> forwarding_table" where
  "get_destination T now token source packet_len =
     (if is_blocklisted T now (ip source) then (None, T)
      else case map_of (ft_token_index T) token of
        None \<Rightarrow> (None, record_failed_lookup T (ip source) now)
      | Some i \<Rightarrow>
          (case map_of (ft_contexts T) i of
             None \<Rightarrow> (None, T)
           | Some ctx \<Rightarrow>
               let store = (\<lambda>c. T\<lparr>ft_contexts := AList.update i c (ft_contexts T)\<rparr>) in
               if fc_state ctx \<noteq> RelayActive then (None, T)
               else if now \<ge> fc_expires_at_ms ctx then (None, store (ctx\<lparr>fc_state := RelayExpired\<rparr>))
               else if fc_bytes_forwarded ctx \<ge> SESSION_BYTE_CAP then (None, store (ctx\<lparr>fc_state := RelayExpired\<rparr>))
               else if saturating_sub now (fc_last_active_ms ctx) > IDLE_TIMEOUT_MS
               then (None, store (ctx\<lparr>fc_state := RelayExpired\<rparr>))
               else (case eb_addr (fc_initiator ctx) of
                  None \<Rightarrow> (None, T)
                | Some init_addr \<Rightarrow>
                  (case eb_addr (fc_target ctx) of
                     None \<Rightarrow> (None, T)
                   | Some targ_addr \<Rightarrow>
                       if source \<noteq> init_addr \<and> source \<noteq> targ_addr then (None, T)
                       else let destination = (if source = init_addr then targ_addr else init_addr);
                                bucket = refill (ft_rate_limit T) now (fc_rate_bucket ctx);
                                packet_len_f = f64 (of_nat packet_len)
                            in if rb_tokens bucket < packet_len_f then (None, store (ctx\<lparr>fc_rate_bucket := bucket\<rparr>))
                               else (Some destination,
                                 store (ctx\<lparr>fc_rate_bucket := bucket\<lparr>rb_tokens := f64 (rb_tokens bucket - packet_len_f)\<rparr>,
                                   fc_bytes_forwarded := fc_bytes_forwarded ctx + of_nat packet_len,
                                   fc_last_active_ms := now\<rparr>))))))"

definition close_forwarding :: "forwarding_table \<Rightarrow> intent_id \<Rightarrow> forwarding_table" where
  "close_forwarding T i =
     (case map_of (ft_contexts T) i of
        None \<Rightarrow> T
      | Some ctx \<Rightarrow> T\<lparr>ft_contexts := AList.update i (ctx\<lparr>fc_state := RelayClosed\<rparr>) (ft_contexts T)\<rparr>)"

text \<open>What the sweep does with one context, and which contexts it removes.\<close>

definition sweep_context :: "u64 \<Rightarrow> forwarding_context \<Rightarrow> forwarding_context" where
  "sweep_context now ctx =
     (let idle_timed_out = (fc_state ctx = RelayActive \<and> saturating_sub now (fc_last_active_ms ctx) > IDLE_TIMEOUT_MS);
          exchange_timed_out = ((fc_state ctx = Authorized \<or> fc_state ctx = RelayRequested) \<and>
            saturating_sub now (fc_authorized_at_ms ctx) > EXCHANGE_TIMEOUT_MS);
          absolute_expired = (now \<ge> fc_expires_at_ms ctx)
      in if idle_timed_out \<or> exchange_timed_out \<or> absolute_expired then ctx\<lparr>fc_state := RelayExpired\<rparr> else ctx)"

definition is_terminal :: "forwarding_context \<Rightarrow> bool" where
  "is_terminal ctx \<longleftrightarrow> fc_state ctx = RelayExpired \<or> fc_state ctx = RelayClosed"

definition sweep :: "forwarding_table \<Rightarrow> u64 \<Rightarrow> nat \<times> forwarding_table" where
  "sweep T now =
     (let swept = map (\<lambda>(i, ctx). (i, sweep_context now ctx)) (ft_contexts T);
          to_remove = filter (\<lambda>(_, ctx). is_terminal ctx) swept
      in (length to_remove,
          T\<lparr>ft_contexts := filter (\<lambda>(_, ctx). \<not> is_terminal ctx) swept,
            ft_token_index := fold (\<lambda>(_, ctx) idx. AList.delete (fc_token ctx) idx) to_remove (ft_token_index T)\<rparr>))"

definition state_of :: "forwarding_table \<Rightarrow> intent_id \<Rightarrow> forwarding_state option" where
  "state_of T i = map_option fc_state (map_of (ft_contexts T) i)"

definition bytes_forwarded_of :: "forwarding_table \<Rightarrow> intent_id \<Rightarrow> u64 option" where
  "bytes_forwarded_of T i = map_option fc_bytes_forwarded (map_of (ft_contexts T) i)"

definition set_bytes_forwarded :: "forwarding_table \<Rightarrow> intent_id \<Rightarrow> u64 \<Rightarrow> bool \<times> forwarding_table" where
  "set_bytes_forwarded T i n =
     (case map_of (ft_contexts T) i of
        None \<Rightarrow> (False, T)
      | Some ctx \<Rightarrow> (True, T\<lparr>ft_contexts := AList.update i (ctx\<lparr>fc_bytes_forwarded := n\<rparr>) (ft_contexts T)\<rparr>))"

section \<open>Rounding\<close>

lemma round_half_even_nonneg: "0 \<le> x \<Longrightarrow> 0 \<le> round_half_even x"
  by (simp add: round_half_even_def Let_def)

lemma f64_nonneg [simp]: "0 \<le> x \<Longrightarrow> 0 \<le> f64 x"
  by (simp add: f64_def Let_def round_half_even_nonneg)

lemma f64_zero [simp]: "f64 0 = 0"
  by (simp add: f64_def)

lemma f64_of_u64_nonneg [simp]: "0 \<le> f64_of_u64 n"
  unfolding f64_of_u64_def by (rule f64_nonneg) (rule of_nat_0_le_iff)

lemma refill_tokens:
  "0 \<le> rb_tokens b \<Longrightarrow> 0 \<le> rb_tokens (refill rate now b) \<and> rb_tokens (refill rate now b) \<le> f64_of_u64 rate"
  by (simp add: refill_def Let_def)

section \<open>Tables and histories\<close>

text \<open>The operations of the table, with the time at which they happen.\<close>

datatype fwd_op =
    AuthorizeOp intent_id relay_token device_id device_id
  | BindOp intent_id device_id socket_addr
  | PacketOp relay_token socket_addr nat
  | CloseOp intent_id
  | SweepOp

fun fwd_step :: "forwarding_table \<Rightarrow> u64 \<times> fwd_op \<Rightarrow> forwarding_table" where
  "fwd_step T (now, AuthorizeOp i token a b) = authorize_pair T now i token a b"
| "fwd_step T (now, BindOp i dev addr) = snd (update_binding T now i dev addr)"
| "fwd_step T (now, PacketOp token src n) = snd (get_destination T now token src n)"
| "fwd_step T (now, CloseOp i) = close_forwarding T i"
| "fwd_step T (now, SweepOp) = snd (sweep T now)"

definition fwd_run :: "forwarding_table \<Rightarrow> (u64 \<times> fwd_op) list \<Rightarrow> forwarding_table" where
  "fwd_run T ops = foldl fwd_step T ops"

lemma fwd_run_snoc [simp]: "fwd_run T (ops @ [op]) = fwd_step (fwd_run T ops) op"
  by (simp add: fwd_run_def)

lemma fwd_run_Nil [simp]: "fwd_run T [] = T"
  by (simp add: fwd_run_def)

text \<open>
  All changes a step makes to the contexts: it stores one context under an identifier, or sweeps.
\<close>

definition store_context :: "forwarding_table \<Rightarrow> intent_id \<Rightarrow> forwarding_context \<Rightarrow> forwarding_table" where
  "store_context T i c = T\<lparr>ft_contexts := AList.update i c (ft_contexts T)\<rparr>"

definition bound_context :: "u64 \<Rightarrow> device_id \<Rightarrow> socket_addr \<Rightarrow> forwarding_context \<Rightarrow> forwarding_context" where
  "bound_context now dev addr ctx =
     (let ctx1 = (if eb_device_id (fc_initiator ctx) = dev
                  then ctx\<lparr>fc_initiator := (fc_initiator ctx)\<lparr>eb_addr := Some addr\<rparr>\<rparr>
                  else ctx\<lparr>fc_target := (fc_target ctx)\<lparr>eb_addr := Some addr\<rparr>\<rparr>)
      in ctx1\<lparr>fc_last_active_ms := now,
          fc_state := (if eb_addr (fc_initiator ctx1) \<noteq> None \<and> eb_addr (fc_target ctx1) \<noteq> None then RelayActive else RelayRequested)\<rparr>)"

lemma update_binding_cases:
  obtains (same) e where "update_binding T now i dev addr = (Err e, T)"
  | (expired) e ctx where "update_binding T now i dev addr = (Err e, store_context T i (ctx\<lparr>fc_state := RelayExpired\<rparr>))"
      "map_of (ft_contexts T) i = Some ctx"
  | (bound) ctx where "update_binding T now i dev addr = (Ok (), store_context T i (bound_context now dev addr ctx))"
      "map_of (ft_contexts T) i = Some ctx" "\<not> is_terminal ctx" "unat now \<le> unat (fc_last_active_ms ctx) + 30000"
      "now < fc_expires_at_ms ctx" "eb_device_id (fc_initiator ctx) = dev \<or> eb_device_id (fc_target ctx) = dev"
proof (cases "map_of (ft_contexts T) i")
  case None
  then show ?thesis using same by (simp add: update_binding_def)
next
  case (Some ctx)
  show ?thesis
  proof (cases "is_terminal ctx \<or> IDLE_TIMEOUT_MS < saturating_sub now (fc_last_active_ms ctx) \<or> fc_expires_at_ms ctx \<le> now \<or>
      eb_device_id (fc_initiator ctx) \<noteq> dev \<and> eb_device_id (fc_target ctx) \<noteq> dev")
    case True
    with Some have "(\<exists>e. fst (update_binding T now i dev addr) = Err e) \<and>
        (snd (update_binding T now i dev addr) = T \<or>
         snd (update_binding T now i dev addr) = store_context T i (ctx\<lparr>fc_state := RelayExpired\<rparr>))"
      by (auto simp: update_binding_def is_terminal_def Let_def store_context_def)
    then show ?thesis using same expired Some by (metis prod.collapse)
  next
    case False
    then have "unat now \<le> unat (fc_last_active_ms ctx) + 30000"
      by (simp add: not_less saturating_sub_le_iff IDLE_TIMEOUT_MS_def)
    moreover have "update_binding T now i dev addr = (Ok (), store_context T i (bound_context now dev addr ctx))"
      using False Some by (auto simp: update_binding_def is_terminal_def Let_def store_context_def bound_context_def)
    ultimately show ?thesis using bound Some False by (simp add: not_le)
  qed
qed

definition charged_context :: "u64 \<Rightarrow> u64 \<Rightarrow> nat \<Rightarrow> forwarding_context \<Rightarrow> forwarding_context" where
  "charged_context rate now n ctx =
     ctx\<lparr>fc_rate_bucket := (refill rate now (fc_rate_bucket ctx))
           \<lparr>rb_tokens := f64 (rb_tokens (refill rate now (fc_rate_bucket ctx)) - f64 (of_nat n))\<rparr>,
         fc_bytes_forwarded := fc_bytes_forwarded ctx + of_nat n, fc_last_active_ms := now\<rparr>"

text \<open>The decision about a packet, with the context and the two bindings on which a forwarding rests.\<close>

definition forwards :: "forwarding_table \<Rightarrow> u64 \<Rightarrow> relay_token \<Rightarrow> socket_addr \<Rightarrow> nat \<Rightarrow> intent_id \<Rightarrow> forwarding_context \<Rightarrow> socket_addr \<Rightarrow> bool" where
  "forwards T now token src n i ctx dst \<longleftrightarrow>
     \<not> is_blocklisted T now (ip src) \<and> map_of (ft_token_index T) token = Some i \<and> map_of (ft_contexts T) i = Some ctx \<and>
     fc_state ctx = RelayActive \<and> now < fc_expires_at_ms ctx \<and> fc_bytes_forwarded ctx < SESSION_BYTE_CAP \<and>
     unat now \<le> unat (fc_last_active_ms ctx) + 30000 \<and>
     (\<exists>a b. eb_addr (fc_initiator ctx) = Some a \<and> eb_addr (fc_target ctx) = Some b \<and>
        (src = a \<and> dst = b \<or> src \<noteq> a \<and> src = b \<and> dst = a)) \<and>
     f64 (of_nat n) \<le> rb_tokens (refill (ft_rate_limit T) now (fc_rate_bucket ctx))"

lemma get_destination_cases:
  obtains (same) "get_destination T now token src n = (None, T)"
  | (failed) "get_destination T now token src n = (None, record_failed_lookup T (ip src) now)" "map_of (ft_token_index T) token = None"
  | (expired) i ctx where "get_destination T now token src n = (None, store_context T i (ctx\<lparr>fc_state := RelayExpired\<rparr>))"
      "map_of (ft_contexts T) i = Some ctx"
  | (limited) i ctx where "get_destination T now token src n =
        (None, store_context T i (ctx\<lparr>fc_rate_bucket := refill (ft_rate_limit T) now (fc_rate_bucket ctx)\<rparr>))"
      "map_of (ft_contexts T) i = Some ctx"
  | (forwarded) i ctx dst where
      "get_destination T now token src n = (Some dst, store_context T i (charged_context (ft_rate_limit T) now n ctx))"
      "forwards T now token src n i ctx dst"
proof (cases "is_blocklisted T now (ip src)")
  case True
  then show ?thesis using same by (simp add: get_destination_def)
next
  case nb: False
  show ?thesis
  proof (cases "map_of (ft_token_index T) token")
    case None
    then show ?thesis using nb failed by (simp add: get_destination_def)
  next
    case i: (Some i)
    show ?thesis
    proof (cases "map_of (ft_contexts T) i")
      case None
      then show ?thesis using nb i same by (simp add: get_destination_def)
    next
      case c: (Some ctx)
      note base = nb i c get_destination_def Let_def store_context_def
      consider (inactive) "fc_state ctx \<noteq> RelayActive"
        | (over) "fc_state ctx = RelayActive" "fc_expires_at_ms ctx \<le> now \<or> SESSION_BYTE_CAP \<le> fc_bytes_forwarded ctx \<or>
            IDLE_TIMEOUT_MS < saturating_sub now (fc_last_active_ms ctx)"
        | (live) "fc_state ctx = RelayActive" "\<not> fc_expires_at_ms ctx \<le> now" "\<not> SESSION_BYTE_CAP \<le> fc_bytes_forwarded ctx"
            "\<not> IDLE_TIMEOUT_MS < saturating_sub now (fc_last_active_ms ctx)" by blast
      then show ?thesis
      proof cases
        case inactive
        then show ?thesis using same by (simp add: base)
      next
        case over
        then show ?thesis using expired [of i ctx] c by (auto simp: base)
      next
        case live
        then have idle: "unat now \<le> unat (fc_last_active_ms ctx) + 30000"
          by (simp add: not_less saturating_sub_le_iff IDLE_TIMEOUT_MS_def)
        show ?thesis
        proof (cases "\<exists>a b. eb_addr (fc_initiator ctx) = Some a \<and> eb_addr (fc_target ctx) = Some b \<and> (src = a \<or> src = b)")
          case False
          then have "get_destination T now token src n = (None, T)" using live by (auto simp: base split: option.split)
          then show ?thesis by (rule same)
        next
          case True
          then obtain a b where ab: "eb_addr (fc_initiator ctx) = Some a" "eb_addr (fc_target ctx) = Some b" "src = a \<or> src = b" by blast
          then show ?thesis
            using live idle limited [of i ctx] forwarded [of "if src = a then b else a" i ctx]
            by (cases "rb_tokens (refill (ft_rate_limit T) now (fc_rate_bucket ctx)) < f64 (of_nat n)")
              (auto simp: base forwards_def charged_context_def not_le not_less)
        qed
      qed
    qed
  qed
qed

lemma forwards_iff: "fst (get_destination T now token src n) = Some dst \<longleftrightarrow> (\<exists>i ctx. forwards T now token src n i ctx dst)"
proof
  assume "fst (get_destination T now token src n) = Some dst"
  then show "\<exists>i ctx. forwards T now token src n i ctx dst"
    by (cases rule: get_destination_cases [where T = T and now = now and token = token and src = src and n = n]) auto
next
  assume "\<exists>i ctx. forwards T now token src n i ctx dst"
  then show "fst (get_destination T now token src n) = Some dst"
    by (auto simp: get_destination_def Let_def forwards_def not_le not_less saturating_sub_less_iff IDLE_TIMEOUT_MS_def)
qed

section \<open>Well-formed tables\<close>

definition wf_table :: "forwarding_table \<Rightarrow> bool" where
  "wf_table T \<longleftrightarrow> distinct (map fst (ft_contexts T)) \<and> distinct (map fst (ft_token_index T)) \<and>
     distinct (map fst (ft_failed_lookups T))"

lemma distinct_filter_fst: "distinct (map fst xs) \<Longrightarrow> distinct (map fst (filter P xs))"
  by (induction xs) auto

lemma distinct_fold_delete: "distinct (map fst idx) \<Longrightarrow> distinct (map fst (fold (\<lambda>(_, ctx) idx. AList.delete (k ctx) idx) xs idx))"
  by (induction xs arbitrary: idx) (auto simp: distinct_delete)

lemma map_of_map_filter:
  "distinct (map fst cs) \<Longrightarrow> map_of (filter (\<lambda>(_, c). P c) (map (\<lambda>(i, c). (i, f c)) cs)) i =
     (case map_of cs i of None \<Rightarrow> None | Some c \<Rightarrow> if P (f c) then Some (f c) else None)"
  by (induction cs) (auto split: option.splits simp: map_of_eq_None_iff image_iff rev_image_eqI)

lemma wf_store [simp]: "wf_table T \<Longrightarrow> wf_table (store_context T i c)"
  by (simp add: wf_table_def store_context_def distinct_update)

lemma map_of_store [simp]: "map_of (ft_contexts (store_context T i c)) = (map_of (ft_contexts T))(i \<mapsto> c)"
  by (simp add: store_context_def update_conv' )

lemma store_frame [simp]:
  "ft_rate_limit (store_context T i c) = ft_rate_limit T" "ft_session_expiry_ms (store_context T i c) = ft_session_expiry_ms T"
  "ft_token_index (store_context T i c) = ft_token_index T" "ft_failed_lookups (store_context T i c) = ft_failed_lookups T"
  by (simp_all add: store_context_def)

lemma record_frame [simp]:
  "ft_rate_limit (record_failed_lookup T a now) = ft_rate_limit T"
  "ft_session_expiry_ms (record_failed_lookup T a now) = ft_session_expiry_ms T"
  "ft_token_index (record_failed_lookup T a now) = ft_token_index T"
  "ft_contexts (record_failed_lookup T a now) = ft_contexts T"
  by (simp_all add: record_failed_lookup_def Let_def)

lemma wf_record: "wf_table T \<Longrightarrow> wf_table (record_failed_lookup T a now)"
  by (simp add: wf_table_def record_failed_lookup_def Let_def distinct_update distinct_filter_fst)

definition fresh_context :: "forwarding_table \<Rightarrow> u64 \<Rightarrow> intent_id \<Rightarrow> relay_token \<Rightarrow> device_id \<Rightarrow> device_id \<Rightarrow> forwarding_context" where
  "fresh_context T now i token a b = \<lparr>fc_intent_id = i, fc_token = token,
     fc_initiator = \<lparr>eb_device_id = a, eb_addr = None\<rparr>, fc_target = \<lparr>eb_device_id = b, eb_addr = None\<rparr>,
     fc_state = Authorized, fc_last_active_ms = now, fc_expires_at_ms = now + ft_session_expiry_ms T,
     fc_bytes_forwarded = 0, fc_authorized_at_ms = now,
     fc_rate_bucket = \<lparr>rb_tokens = f64_of_u64 (ft_rate_limit T), rb_last_refill_ms = now\<rparr>\<rparr>"

lemma authorize_pair_eq:
  "authorize_pair T now i token a b =
     (store_context T i (fresh_context T now i token a b))\<lparr>ft_token_index := AList.update token i (ft_token_index T)\<rparr>"
  by (simp add: authorize_pair_def Let_def store_context_def fresh_context_def)

lemma wf_step: "wf_table T \<Longrightarrow> wf_table (fwd_step T (now, op))"
proof (cases op)
  case (BindOp i dev addr)
  assume "wf_table T"
  then show ?thesis unfolding BindOp
    by (cases rule: update_binding_cases [where T = T and now = now and i = i and dev = dev and addr = addr]) simp_all
next
  case (PacketOp token src n)
  assume "wf_table T"
  then show ?thesis unfolding PacketOp
    by (cases rule: get_destination_cases [where T = T and now = now and token = token and src = src and n = n])
      (simp_all add: wf_record)
next
  case SweepOp
  assume "wf_table T"
  then show ?thesis unfolding SweepOp
    by (auto simp: sweep_def Let_def wf_table_def comp_def case_prod_unfold
        intro!: distinct_filter_fst distinct_fold_delete [unfolded case_prod_unfold])
qed (auto simp: authorize_pair_def close_forwarding_def Let_def wf_table_def distinct_update split: option.splits)

section \<open>What a step does to a context\<close>

inductive ctx_step :: "forwarding_table \<Rightarrow> u64 \<Rightarrow> fwd_op \<Rightarrow> intent_id \<Rightarrow> forwarding_context \<Rightarrow> forwarding_context \<Rightarrow> bool"
  for T now op i where
  keep: "ctx_step T now op i c c"
| expire: "ctx_step T now op i c (c\<lparr>fc_state := RelayExpired\<rparr>)"
| closed: "ctx_step T now op i c (c\<lparr>fc_state := RelayClosed\<rparr>)"
| limit: "ctx_step T now op i c (c\<lparr>fc_rate_bucket := refill (ft_rate_limit T) now (fc_rate_bucket c)\<rparr>)"
| bind: "op = BindOp i dev addr \<Longrightarrow> \<not> is_terminal c \<Longrightarrow> now < fc_expires_at_ms c \<Longrightarrow>
    eb_device_id (fc_initiator c) = dev \<or> eb_device_id (fc_target c) = dev \<Longrightarrow>
    ctx_step T now op i c (bound_context now dev addr c)"
| charge: "op = PacketOp token src n \<Longrightarrow> forwards T now token src n i c dst \<Longrightarrow>
    ctx_step T now op i c (charged_context (ft_rate_limit T) now n c)"

lemma sweep_context_step: "ctx_step T now op i c (sweep_context now c)"
  by (auto simp: sweep_context_def Let_def intro: keep expire)

lemma fwd_step_context:
  assumes wf: "wf_table T" and c: "map_of (ft_contexts (fwd_step T (now, op))) i = Some c"
  obtains (old) ctx where "map_of (ft_contexts T) i = Some ctx" "ctx_step T now op i ctx c"
  | (fresh) token a b where "op = AuthorizeOp i token a b" "c = fresh_context T now i token a b"
proof -
  have "(\<exists>ctx. map_of (ft_contexts T) i = Some ctx \<and> ctx_step T now op i ctx c) \<or>
      (\<exists>token a b. op = AuthorizeOp i token a b \<and> c = fresh_context T now i token a b)"
  proof (cases op)
    case (AuthorizeOp j token a b)
    then show ?thesis using c by (auto simp: authorize_pair_eq intro: keep split: if_splits)
  next
    case (BindOp j dev addr)
    show ?thesis
      by (rule update_binding_cases [of T now j dev addr])
        (use c BindOp in \<open>auto intro: ctx_step.intros split: if_splits\<close>)
  next
    case (PacketOp token src n)
    show ?thesis
      by (rule get_destination_cases [where T = T and now = now and token = token and src = src and n = n])
        (use c PacketOp in \<open>auto intro: ctx_step.intros simp: forwards_def split: if_splits\<close>)
  next
    case (CloseOp j)
    then show ?thesis using c
      by (auto simp: close_forwarding_def update_conv' intro: keep closed split: option.splits if_splits)
  next
    case SweepOp
    then show ?thesis using c wf
      by (auto simp: sweep_def Let_def wf_table_def map_of_map_filter intro: sweep_context_step split: option.splits if_splits)
  qed
  then show ?thesis using old fresh by blast
qed

section \<open>Invariants of the contexts\<close>

lemma fwd_step_limits [simp]:
  "ft_rate_limit (fwd_step T (now, op)) = ft_rate_limit T" "ft_session_expiry_ms (fwd_step T (now, op)) = ft_session_expiry_ms T"
proof -
  have "ft_rate_limit (fwd_step T (now, op)) = ft_rate_limit T \<and> ft_session_expiry_ms (fwd_step T (now, op)) = ft_session_expiry_ms T"
  proof (cases op)
    case (BindOp i dev addr)
    then show ?thesis
      by (cases rule: update_binding_cases [where T = T and now = now and i = i and dev = dev and addr = addr]) simp_all
  next
    case (PacketOp token src n)
    then show ?thesis
      by (cases rule: get_destination_cases [where T = T and now = now and token = token and src = src and n = n]) simp_all
  qed (simp_all add: authorize_pair_eq close_forwarding_def sweep_def Let_def split: option.split)
  then show "ft_rate_limit (fwd_step T (now, op)) = ft_rate_limit T"
    "ft_session_expiry_ms (fwd_step T (now, op)) = ft_session_expiry_ms T" by simp_all
qed

text \<open>
  The table after a history of operations: the addresses of a context fit its state, its bucket is never
  overdrawn, and everything it contains was put there by operations of the history that name this session and
  its devices.
\<close>

definition addresses_fit :: "forwarding_context \<Rightarrow> bool" where
  "addresses_fit c \<longleftrightarrow>
     (fc_state c = Authorized \<longrightarrow> eb_addr (fc_initiator c) = None \<and> eb_addr (fc_target c) = None) \<and>
     (fc_state c = RelayRequested \<longrightarrow> (eb_addr (fc_initiator c) = None) \<noteq> (eb_addr (fc_target c) = None)) \<and>
     (fc_state c = RelayActive \<longrightarrow> eb_addr (fc_initiator c) \<noteq> None \<and> eb_addr (fc_target c) \<noteq> None)"

definition traced :: "(u64 \<times> fwd_op) list \<Rightarrow> u64 \<Rightarrow> intent_id \<Rightarrow> forwarding_context \<Rightarrow> bool" where
  "traced ops expiry i c \<longleftrightarrow>
     (fc_authorized_at_ms c, AuthorizeOp i (fc_token c) (eb_device_id (fc_initiator c)) (eb_device_id (fc_target c))) \<in> set ops \<and>
     fc_expires_at_ms c = fc_authorized_at_ms c + expiry \<and> fc_intent_id c = i \<and>
     (\<forall>a. eb_addr (fc_initiator c) = Some a \<longrightarrow> (\<exists>t. (t, BindOp i (eb_device_id (fc_initiator c)) a) \<in> set ops)) \<and>
     (\<forall>b. eb_addr (fc_target c) = Some b \<longrightarrow> (\<exists>t. (t, BindOp i (eb_device_id (fc_target c)) b) \<in> set ops))"

fun packet_fits :: "nat \<Rightarrow> fwd_op \<Rightarrow> bool" where
  "packet_fits L (PacketOp token src n) \<longleftrightarrow> n \<le> L"
| "packet_fits L _ \<longleftrightarrow> True"

definition ctx_inv :: "nat \<Rightarrow> (u64 \<times> fwd_op) list \<Rightarrow> forwarding_table \<Rightarrow> intent_id \<Rightarrow> forwarding_context \<Rightarrow> bool" where
  "ctx_inv L ops T i c \<longleftrightarrow> addresses_fit c \<and> traced ops (ft_session_expiry_ms T) i c \<and>
     0 \<le> rb_tokens (fc_rate_bucket c) \<and>
     unat (fc_bytes_forwarded c) < 10 * 1024 * 1024 * 1024 + L"

lemma addresses_fit_bound: "addresses_fit c \<Longrightarrow> addresses_fit (bound_context now dev addr c)"
  by (auto simp: addresses_fit_def bound_context_def Let_def)

lemma traced_mono: "traced ops e i c \<Longrightarrow> set ops \<subseteq> set ops' \<Longrightarrow> traced ops' e i c"
  unfolding traced_def by blast

lemma traced_bound:
  assumes "traced ops e i c" "eb_device_id (fc_initiator c) = dev \<or> eb_device_id (fc_target c) = dev"
    and "(now, BindOp i dev addr) \<in> set ops'" "set ops \<subseteq> set ops'"
  shows "traced ops' e i (bound_context now dev addr c)"
  using assms unfolding traced_def bound_context_def Let_def by (auto; blast)

lemma charged_bytes:
  assumes "forwards T now token src n i c dst" "n \<le> L" "L < 2 ^ 63"
  shows "unat (fc_bytes_forwarded c + of_nat n) < 10 * 1024 * 1024 * 1024 + L"
proof -
  have "unat (fc_bytes_forwarded c) < 10 * 1024 * 1024 * 1024"
    using assms(1) by (simp add: forwards_def SESSION_BYTE_CAP_def word_less_nat_alt)
  moreover have "unat (of_nat n :: u64) = n" using assms(2,3) by (simp add: unat_of_nat take_bit_nat_eq_self)
  moreover have "unat (fc_bytes_forwarded c + of_nat n) \<le> unat (fc_bytes_forwarded c) + unat (of_nat n :: u64)"
    by (simp add: unat_plus_if')
  ultimately show ?thesis using assms(2) by linarith
qed

lemma charged_tokens:
  assumes "forwards T now token src n i c dst" "0 \<le> rb_tokens (fc_rate_bucket c)"
  shows "0 \<le> rb_tokens (fc_rate_bucket (charged_context (ft_rate_limit T) now n c))"
  using assms by (simp add: charged_context_def forwards_def)

lemma bound_context_frame [simp]:
  "fc_rate_bucket (bound_context now dev addr c) = fc_rate_bucket c" "fc_bytes_forwarded (bound_context now dev addr c) = fc_bytes_forwarded c"
  by (simp_all add: bound_context_def Let_def)

lemma ctx_step_inv:
  assumes "ctx_step T now op i c c'" and inv: "ctx_inv L ops T i c" and L: "packet_fits L op" "L < 2 ^ 63"
    and T': "ft_session_expiry_ms T' = ft_session_expiry_ms T"
  shows "ctx_inv L (ops @ [(now, op)]) T' i c'"
  using assms(1)
proof cases
  case (bind dev addr)
  have "traced (ops @ [(now, op)]) (ft_session_expiry_ms T) i (bound_context now dev addr c)"
    by (rule traced_bound [where ops = ops]) (use bind inv in \<open>auto simp: ctx_inv_def\<close>)
  then show ?thesis using bind inv T' addresses_fit_bound [of c now dev addr] by (simp add: ctx_inv_def)
next
  case (charge token src n dst)
  then have "unat (fc_bytes_forwarded c + of_nat n) < 10 * 1024 * 1024 * 1024 + L"
    using charged_bytes [OF charge(3) _ L(2)] L(1) by simp
  moreover have "0 \<le> rb_tokens (fc_rate_bucket c')" using charged_tokens [OF charge(3)] inv charge(1) by (simp add: ctx_inv_def)
  moreover have "addresses_fit c'" using inv charge(1) by (simp add: ctx_inv_def addresses_fit_def charged_context_def)
  moreover have "traced (ops @ [(now, op)]) (ft_session_expiry_ms T) i c'"
    using traced_mono [of ops _ i c "ops @ [(now, op)]"] inv charge(1) by (auto simp: ctx_inv_def traced_def charged_context_def)
  ultimately show ?thesis using T' charge(1) by (simp add: ctx_inv_def charged_context_def)
qed (use inv T' refill_tokens [of "fc_rate_bucket c" "ft_rate_limit T" now] traced_mono [of ops _ i c "ops @ [(now, op)]"]
    in \<open>auto simp: ctx_inv_def addresses_fit_def traced_def\<close>)

lemma fresh_inv: "ft_session_expiry_ms T' = ft_session_expiry_ms T \<Longrightarrow>
   ctx_inv L (ops @ [(now, AuthorizeOp i token a b)]) T' i (fresh_context T now i token a b)"
  by (simp add: ctx_inv_def addresses_fit_def traced_def fresh_context_def)

lemma fold_delete_sub:
  "map_of (fold (\<lambda>(_, ctx) idx. AList.delete (fc_token ctx) idx) xs idx) token = Some i \<Longrightarrow> map_of idx token = Some i"
proof (induction xs arbitrary: idx)
  case (Cons x xs)
  then have "map_of (AList.delete (fc_token (snd x)) idx) token = Some i" by (cases x) simp
  then show ?case by (simp add: delete_conv' split: if_splits)
qed simp

lemma token_index_step:
  assumes "map_of (ft_token_index (fwd_step T (now, op))) token = Some i" and wf: "wf_table T"
  shows "map_of (ft_token_index T) token = Some i \<or> (\<exists>a b. op = AuthorizeOp i token a b)"
proof (cases op)
  case (AuthorizeOp j t a b)
  then show ?thesis using assms(1) by (auto simp: authorize_pair_eq update_conv' split: if_splits)
next
  case (BindOp j dev addr)
  show ?thesis
    by (rule update_binding_cases [of T now j dev addr]) (use assms(1) BindOp in auto)
next
  case (PacketOp t src n)
  show ?thesis
    by (rule get_destination_cases [where T = T and now = now and token = t and src = src and n = n]) (use assms(1) PacketOp in auto)
next
  case SweepOp
  then show ?thesis using assms(1) fold_delete_sub by (auto simp: sweep_def Let_def)
qed (use assms(1) in \<open>auto simp: close_forwarding_def split: option.splits\<close>)

definition table_inv :: "nat \<Rightarrow> (u64 \<times> fwd_op) list \<Rightarrow> forwarding_table \<Rightarrow> bool" where
  "table_inv L ops T \<longleftrightarrow> wf_table T \<and>
     (\<forall>i c. map_of (ft_contexts T) i = Some c \<longrightarrow> ctx_inv L ops T i c) \<and>
     (\<forall>token i. map_of (ft_token_index T) token = Some i \<longrightarrow> (\<exists>t a b. (t, AuthorizeOp i token a b) \<in> set ops))"

lemma table_inv_step:
  assumes inv: "table_inv L ops T" and L: "packet_fits L op" "L < 2 ^ 63"
  shows "table_inv L (ops @ [(now, op)]) (fwd_step T (now, op))"
proof -
  have wf: "wf_table T" using inv by (simp add: table_inv_def)
  have "ctx_inv L (ops @ [(now, op)]) (fwd_step T (now, op)) i c"
    if "map_of (ft_contexts (fwd_step T (now, op))) i = Some c" for i c
    using wf that
  proof (cases rule: fwd_step_context)
    case (old ctx)
    then show ?thesis using inv ctx_step_inv [OF old(2) _ L] by (simp add: table_inv_def)
  next
    case (fresh token a b)
    then show ?thesis using fresh_inv fwd_step_limits(2) by blast
  qed
  moreover have "\<exists>t a b. (t, AuthorizeOp i token a b) \<in> set (ops @ [(now, op)])"
    if "map_of (ft_token_index (fwd_step T (now, op))) token = Some i" for token i
    using token_index_step [OF that wf] inv unfolding table_inv_def by (metis Un_iff list.set_intros(1) set_append)
  ultimately show ?thesis using wf_step [OF wf] by (simp add: table_inv_def)
qed

lemma table_inv_run:
  assumes "L < 2 ^ 63" "\<forall>(t, op) \<in> set ops. packet_fits L op"
  shows "table_inv L ops (fwd_run (with_limits rate expiry) ops)"
  using assms(2)
proof (induction ops rule: rev_induct)
  case Nil
  then show ?case by (simp add: table_inv_def wf_table_def with_limits_def)
next
  case (snoc x ops)
  obtain now op where x: "x = (now, op)" by (cases x)
  show ?case using table_inv_step [OF snoc.IH _ assms(1), of op now] snoc.prems x by simp
qed

lemma run_limits [simp]:
  "ft_session_expiry_ms (fwd_run (with_limits rate expiry) ops) = expiry" "ft_rate_limit (fwd_run (with_limits rate expiry) ops) = rate"
  by (induction ops rule: rev_induct) (auto simp: with_limits_def)

section \<open>Exact values\<close>

lemma round_half_even_int [simp]: "round_half_even (of_int k) = k"
  by (simp add: round_half_even_def)

lemma f64_exponent_nat:
  assumes "0 < n" "n < 2 ^ 53"
  shows "f64_exponent (of_nat n) \<le> 0"
proof -
  have "quotient_of (of_nat n) = (int n, 1)" using quotient_of_int [of "int n"] by (simp add: of_rat_of_nat_eq)
  moreover have "floorlog 2 n \<le> 53" using assms(2) by (simp add: floorlog_le_iff)
  moreover have "floorlog 2 1 = 1" by (simp add: floorlog_def)
  ultimately show ?thesis by (auto simp: f64_exponent_def Let_def)
qed

lemma f64_nat:
  assumes "n < 2 ^ 53"
  shows "f64 (of_nat n) = of_nat n"
proof (cases "n = 0")
  case False
  let ?e = "f64_exponent (of_nat n)"
  have "?e \<le> 0" using f64_exponent_nat assms False by simp
  then obtain k where k: "?e = - int k" using nonpos_int_cases by blast
  have "(of_nat n :: rat) / 2 powi ?e = of_int (int (n * 2 ^ k))" by (simp add: k power_int_minus field_simps)
  then have "round_half_even (of_nat n / 2 powi ?e) = int (n * 2 ^ k)" by (simp only: round_half_even_int)
  then show ?thesis using False by (simp add: f64_def Let_def k power_int_minus)
qed simp

lemma f64_of_u64_exact: "unat r < 2 ^ 53 \<Longrightarrow> f64_of_u64 r = of_nat (unat r)"
  unfolding f64_of_u64_def by (rule f64_nat)

lemma forwards_burst:
  assumes "forwards T now token src n i c dst" "n < 2 ^ 53" "unat (ft_rate_limit T) < 2 ^ 53"
  shows "n \<le> unat (ft_rate_limit T)"
proof -
  have "(of_nat n :: rat) \<le> rb_tokens (refill (ft_rate_limit T) now (fc_rate_bucket c))"
    using assms(1) f64_nat [OF assms(2)] by (simp add: forwards_def)
  also have "\<dots> \<le> of_nat (unat (ft_rate_limit T))"
    using f64_of_u64_exact [OF assms(3)] by (simp add: refill_def Let_def)
  finally show ?thesis by (simp only: of_nat_le_iff)
qed

section \<open>Properties\<close>

text \<open>Only authenticated peers exchange packets.  After any history of operations, when a packet that arrives from \<open>src\<close> with a
  routing token is forwarded to \<open>dst\<close>, the token was issued for a session, both devices of that session were
  authorized as a pair within the session lifetime, and \<open>src\<close> and \<open>dst\<close> are the addresses that the two devices
  themselves have bound; the packet is at most one second of the rate limit long and the session has forwarded less
  than 10 GiB before.\<close>
theorem forwarding_authenticated:
  assumes "\<forall>(t, op) \<in> set ops. packet_fits (2 ^ 53 - 1) op" "n < 2 ^ 53" "unat rate < 2 ^ 53"
    and "fst (get_destination (fwd_run (with_limits rate expiry) ops) now token src n) = Some dst"
  shows "\<exists>i t token' a b x y. (t, AuthorizeOp i token' a b) \<in> set ops \<and> now < t + expiry \<and>
    (\<exists>t' a' b'. (t', AuthorizeOp i token a' b') \<in> set ops) \<and>
    (\<exists>t'. (t', BindOp i a x) \<in> set ops) \<and> (\<exists>t'. (t', BindOp i b y) \<in> set ops) \<and> (src, dst) \<in> {(x, y), (y, x)} \<and>
    n \<le> unat rate \<and> (\<exists>m. bytes_forwarded_of (fwd_run (with_limits rate expiry) ops) i = Some m \<and> unat m < 10 * 1024 * 1024 * 1024)"
proof -
  let ?T = "fwd_run (with_limits rate expiry) ops"
  have inv: "table_inv (2 ^ 53 - 1) ops ?T" using table_inv_run [of "2 ^ 53 - 1" ops] assms(1) by simp
  obtain i c where f: "forwards ?T now token src n i c dst" using assms(4) forwards_iff by blast
  then obtain x y where xy: "eb_addr (fc_initiator c) = Some x" "eb_addr (fc_target c) = Some y" "(src, dst) \<in> {(x, y), (y, x)}"
    and c: "map_of (ft_contexts ?T) i = Some c" "map_of (ft_token_index ?T) token = Some i" "now < fc_expires_at_ms c"
      "fc_bytes_forwarded c < SESSION_BYTE_CAP"
    by (auto simp: forwards_def)
  have "ctx_inv (2 ^ 53 - 1) ops ?T i c" and tok: "\<exists>t' a' b'. (t', AuthorizeOp i token a' b') \<in> set ops"
    using inv c(1,2) by (auto simp: table_inv_def)
  then have "traced ops expiry i c" by (simp add: ctx_inv_def)
  moreover have "n \<le> unat rate" using forwards_burst [OF f assms(2)] assms(3) by simp
  moreover have "bytes_forwarded_of ?T i = Some (fc_bytes_forwarded c)" "unat (fc_bytes_forwarded c) < 10 * 1024 * 1024 * 1024"
    using c(1,4) by (simp_all add: bytes_forwarded_of_def SESSION_BYTE_CAP_def word_less_nat_alt)
  ultimately show ?thesis using xy c(3) tok unfolding traced_def by metis
qed

text \<open>The table stays well formed under every history: identifiers, tokens and blocked addresses are each listed once, a context is
  stored under its own identifier, its state says exactly which of its two endpoints are bound, its bucket is never
  overdrawn, and its byte counter stays below 10 GiB plus one packet and so never wraps.\<close>
theorem forwarding_table_wf:
  assumes "L < 2 ^ 63" "\<forall>(t, op) \<in> set ops. packet_fits L op" "T = fwd_run (with_limits rate expiry) ops"
  shows "distinct (map fst (ft_contexts T)) \<and> distinct (map fst (ft_token_index T)) \<and> distinct (map fst (ft_failed_lookups T)) \<and>
    (\<forall>i c. map_of (ft_contexts T) i = Some c \<longrightarrow> fc_intent_id c = i \<and> addresses_fit c \<and> 0 \<le> rb_tokens (fc_rate_bucket c) \<and>
       unat (fc_bytes_forwarded c) < 10 * 1024 * 1024 * 1024 + L)"
  using table_inv_run [OF assms(1,2), of rate expiry] assms(3)
  by (auto simp: table_inv_def wf_table_def ctx_inv_def traced_def)

section \<open>A concrete session\<close>

definition demo_a :: socket_addr where
  "demo_a = SocketV4 1 1000"

definition demo_b :: socket_addr where
  "demo_b = SocketV4 2 2000"

definition demo_fwd :: "(u64 \<times> fwd_op) list" where
  "demo_fwd = [(5, AuthorizeOp [1] [9] [10] [20]), (5, BindOp [1] [10] demo_a), (5, BindOp [1] [20] demo_b)]"

definition demo_table :: forwarding_table where
  "demo_table = fwd_run (with_limits 625000 120000) demo_fwd"

definition demo_context :: forwarding_context where
  "demo_context = \<lparr>fc_intent_id = [1], fc_token = [9], fc_initiator = \<lparr>eb_device_id = [10], eb_addr = Some demo_a\<rparr>,
     fc_target = \<lparr>eb_device_id = [20], eb_addr = Some demo_b\<rparr>, fc_state = RelayActive, fc_last_active_ms = 5,
     fc_expires_at_ms = 120005, fc_bytes_forwarded = 0, fc_authorized_at_ms = 5,
     fc_rate_bucket = \<lparr>rb_tokens = 625000, rb_last_refill_ms = 5\<rparr>\<rparr>"

lemma demo_rate: "f64_of_u64 625000 = 625000"
  using f64_of_u64_exact [of 625000] by simp

lemma demo_table_eq: "demo_table = \<lparr>ft_contexts = [([1], demo_context)], ft_token_index = [([9], [1])], ft_failed_lookups = [],
    ft_rate_limit = 625000, ft_session_expiry_ms = 120000\<rparr>"
  by (simp add: demo_table_def demo_fwd_def fwd_run_def with_limits_def authorize_pair_def update_binding_def demo_context_def
      Let_def demo_rate saturating_sub_def IDLE_TIMEOUT_MS_def)

lemma demo_refill: "refill 625000 5 \<lparr>rb_tokens = 625000, rb_last_refill_ms = 5\<rparr> = \<lparr>rb_tokens = 625000, rb_last_refill_ms = 5\<rparr>"
  using f64_nat [of 625000] by (simp add: refill_def Let_def saturating_sub_def demo_rate f64_of_u64_def)

lemma demo_forwards:
  assumes "n \<le> 625000"
  shows "fst (get_destination demo_table 5 [9] demo_a n) = Some demo_b"
proof -
  have "f64 (of_nat n) \<le> 625000" using f64_nat [of n] assms by simp
  then show ?thesis
    by (simp add: demo_table_eq get_destination_def is_blocklisted_def demo_context_def Let_def SESSION_BYTE_CAP_def
        saturating_sub_def IDLE_TIMEOUT_MS_def demo_refill not_less)
qed

theorem forwarding_authenticated_witness:
  "fst (get_destination (fwd_run (with_limits 625000 120000) demo_fwd) 5 [9] demo_a 1200) = Some demo_b \<and>
   (\<exists>i t token' a b. (t, AuthorizeOp i token' a b) \<in> set demo_fwd \<and> (5 :: u64) < t + 120000)"
proof -
  have f: "fst (get_destination (fwd_run (with_limits 625000 120000) demo_fwd) 5 [9] demo_a 1200) = Some demo_b"
    using demo_forwards [of 1200] by (simp add: demo_table_def)
  moreover have "\<forall>(t, op) \<in> set demo_fwd. packet_fits (2 ^ 53 - 1) op" by (simp add: demo_fwd_def)
  ultimately show ?thesis using forwarding_authenticated [OF _ _ _ f] by fastforce
qed

theorem forwarding_table_wf_witness:
  "demo_table = fwd_run (with_limits 625000 120000) demo_fwd \<and> addresses_fit demo_context \<and>
   unat (fc_bytes_forwarded demo_context) < 10 * 1024 * 1024 * 1024 + 1200"
proof -
  have "\<forall>(t, op) \<in> set demo_fwd. packet_fits 1200 op" by (simp add: demo_fwd_def)
  then show ?thesis using forwarding_table_wf [OF _ _ demo_table_def, of 1200] by (simp add: demo_table_eq) (simp add: demo_table_def [symmetric] demo_table_eq)
qed

section \<open>Revocation\<close>

lemma ctx_step_terminal: "ctx_step T now op i c c' \<Longrightarrow> is_terminal c \<Longrightarrow> is_terminal c'"
  by (induction rule: ctx_step.induct) (auto simp: is_terminal_def forwards_def)

definition dead :: "forwarding_table \<Rightarrow> intent_id \<Rightarrow> bool" where
  "dead T i \<longleftrightarrow> state_of T i \<in> {None, Some RelayExpired, Some RelayClosed}"

lemma dead_iff: "dead T i \<longleftrightarrow> (\<forall>c. map_of (ft_contexts T) i = Some c \<longrightarrow> is_terminal c)"
  by (cases "map_of (ft_contexts T) i") (auto simp: dead_def state_of_def is_terminal_def)

lemma dead_step: "wf_table T \<Longrightarrow> dead T i \<Longrightarrow> \<forall>token a b. op \<noteq> AuthorizeOp i token a b \<Longrightarrow> dead (fwd_step T (now, op)) i"
  unfolding dead_iff by (metis fwd_step_context ctx_step_terminal)



section \<open>Rounding down to an integer\<close>

lemma round_half_even_ge: "of_int k \<le> x \<Longrightarrow> k \<le> round_half_even x"
  using le_floor_iff [of k x] by (auto simp: round_half_even_def Let_def)

lemma floorlog_powi:
  assumes "0 < n"
  shows "(2::rat) powi (int (floorlog 2 n) - 1) \<le> of_nat n" "of_nat n < (2::rat) powi int (floorlog 2 n)"
proof -
  let ?l = "floorlog 2 n"
  have l: "2 ^ (?l - 1) \<le> n" "n < 2 ^ ?l" "0 < ?l"
    using floorlog_bounds [of n 2] floorlog_eq_zero_iff [of 2 n] assms by auto
  then have "(of_nat (2 ^ (?l - 1)) :: rat) \<le> of_nat n" "of_nat n < (of_nat (2 ^ ?l) :: rat)"
    by (simp_all only: of_nat_le_iff of_nat_less_iff)
  then show "(2::rat) powi (int ?l - 1) \<le> of_nat n" "of_nat n < (2::rat) powi int ?l"
    using l(3) by (simp_all add: power_int_def nat_diff_distrib)
qed

lemma f64_exponent_ge:
  assumes "0 < x"
  shows "2 powi (f64_exponent x + 52) \<le> x"
proof -
  obtain p q where pq: "quotient_of x = (p, q)" by fastforce
  have q: "0 < q" using quotient_of_denom_pos [OF pq] .
  have x: "x = of_int p / of_int q" using quotient_of_div [OF pq] .
  then have p: "0 < p" using assms q by (simp add: zero_less_divide_iff)
  let ?a = "int (floorlog 2 (nat p))" and ?b = "int (floorlog 2 (nat q))"
  have "(2::rat) powi (?a - 1) \<le> of_int p" "of_int q < (2::rat) powi ?b"
    using floorlog_powi [of "nat p"] floorlog_powi [of "nat q"] p q by (simp_all add: of_nat_nat)
  then have "(2::rat) powi (?a - 1) / 2 powi ?b \<le> x"
    unfolding x using p q by (intro frac_le) auto
  then have "(2::rat) powi (?a - 1 - ?b) \<le> x" by (subst power_int_diff) auto
  moreover have "?a - ?b - 53 + 52 = ?a - 1 - ?b" "?a - ?b - 53 + 53 = ?a - ?b" "?a - ?b - 53 + 1 + 52 = ?a - ?b" by simp_all
  ultimately show ?thesis unfolding f64_exponent_def pq Let_def prod.case by (simp only: not_less split: if_split) simp
qed

lemma f64_ge_nat:
  assumes "n < 2 ^ 53" "of_nat n \<le> x"
  shows "of_nat n \<le> f64 x"
proof (cases "n = 0")
  case False
  then have x: "0 < x" using assms(2) by (metis less_le_trans of_nat_0_less_iff not_gr_zero)
  let ?e = "f64_exponent x"
  have f: "f64 x = of_int (round_half_even (x / 2 powi ?e)) * 2 powi ?e" using x by (simp add: f64_def Let_def)
  show ?thesis
  proof (cases "?e \<le> 0")
    case True
    then obtain k where k: "?e = - int k" using nonpos_int_cases by blast
    have "of_int (int (n * 2 ^ k)) \<le> x / 2 powi ?e" using assms(2) by (simp add: k power_int_minus field_simps)
    from round_half_even_ge [OF this] have "(of_int (int (n * 2 ^ k)) :: rat) \<le> of_int (round_half_even (x / 2 powi ?e))"
      by (simp only: of_int_le_iff)
    then show ?thesis by (simp add: f k power_int_minus field_simps)
  next
    case False
    then obtain k where k: "?e = int k" by (metis int_nat_eq nle_le)
    have "(2::rat) ^ 52 * 2 ^ k \<le> x" using f64_exponent_ge [OF x] by (simp add: k power_int_add)
    then have "of_int (2 ^ 52) \<le> x / 2 powi ?e" by (simp add: k field_simps)
    from round_half_even_ge [OF this] have "(of_int (2 ^ 52) :: rat) \<le> of_int (round_half_even (x / 2 powi ?e))"
      by (simp only: of_int_le_iff)
    then have "(2::rat) ^ 52 * 2 ^ k \<le> f64 x" by (simp add: f k)
    moreover have "(2::rat) ^ 1 \<le> 2 ^ k" using False k by (intro power_increasing) auto
    moreover have "(of_nat n :: rat) \<le> of_nat (2 ^ 53)" using assms(1) by (simp only: of_nat_le_iff)
    ultimately show ?thesis by simp
  qed
qed (use assms in simp)

end
