(* ===== verification/BW_Blocklist.thy ===== *)
theory BW_Blocklist
  imports BW_Forwarding
begin

text \<open>
  The blocklist of the forwarding table (\<^verbatim>\<open>bw-relay/src/forwarding.rs\<close>): how failed lookups block an address, and two
  ways in which the table keeps entries it should not.
\<close>

section \<open>The blocklist\<close>

lemma map_of_filter:
  "distinct (map fst xs) \<Longrightarrow> map_of (filter (\<lambda>(_, v). P v) xs) k =
     (case map_of xs k of None \<Rightarrow> None | Some v \<Rightarrow> if P v then Some v else None)"
  using map_of_map_filter [of xs P "\<lambda>c. c" k] by simp

text \<open>The entry of an address as recording sees it; only stale entries are ever evicted.\<close>

lemma record_entry:
  assumes "wf_table T"
  shows "map_of (ft_failed_lookups (record_failed_lookup T a t)) b =
    (let old = (case map_of (ft_failed_lookups T) b of
          None \<Rightarrow> None
        | Some (n, s) \<Rightarrow> if MAX_BLOCKLIST_ENTRIES \<le> length (ft_failed_lookups T) \<and> BLOCKLIST_WINDOW_MS < saturating_sub t s then None else Some (n, s))
     in if b = a then (case old of None \<Rightarrow> Some (1, t)
          | Some (n, s) \<Rightarrow> Some (if BLOCKLIST_WINDOW_MS < saturating_sub t s then (1, t) else (n + 1, s)))
        else old)"
proof -
  let ?F = "if MAX_BLOCKLIST_ENTRIES \<le> length (ft_failed_lookups T)
    then filter (\<lambda>(_, _, window_start). saturating_sub t window_start \<le> BLOCKLIST_WINDOW_MS) (ft_failed_lookups T)
    else ft_failed_lookups T"
  have d: "distinct (map fst (ft_failed_lookups T))" using assms by (simp add: wf_table_def)
  have F: "map_of ?F b = (case map_of (ft_failed_lookups T) b of
      None \<Rightarrow> None
    | Some (n, s) \<Rightarrow> if MAX_BLOCKLIST_ENTRIES \<le> length (ft_failed_lookups T) \<and> BLOCKLIST_WINDOW_MS < saturating_sub t s then None else Some (n, s))" for b
    by (cases "map_of (ft_failed_lookups T) b") (auto simp: map_of_filter [OF d] not_le not_less)
  have t: "\<not> BLOCKLIST_WINDOW_MS < saturating_sub t t" by (simp add: saturating_sub_def)
  show ?thesis
    unfolding record_failed_lookup_def Let_def F [symmetric]
    by (cases "map_of ?F a") (auto simp: update_conv' t simp del: filter.simps split: if_split)
qed

definition probe :: "forwarding_table \<Rightarrow> u64 \<times> relay_token \<times> socket_addr \<times> nat \<Rightarrow> forwarding_table" where
  "probe T p = (case p of (t, token, src, n) \<Rightarrow> snd (get_destination T t token src n))"

definition unknown_probe :: "forwarding_table \<Rightarrow> ip_addr \<Rightarrow> u64 \<Rightarrow> u64 \<times> relay_token \<times> socket_addr \<times> nat \<Rightarrow> bool" where
  "unknown_probe T a t0 p = (case p of (t, token, src, n) \<Rightarrow>
     ip src = a \<and> map_of (ft_token_index T) token = None \<and> unat t0 \<le> unat t \<and> unat t \<le> unat t0 + 60000)"

lemma probe_unknown:
  assumes "unknown_probe T a t0 p"
  shows "probe T p = (if is_blocklisted T (fst p) a then T else record_failed_lookup T a (fst p))"
  using assms by (cases p) (auto simp: probe_def unknown_probe_def get_destination_def)

lemma probes_entry:
  assumes wf: "wf_table T" and none: "map_of (ft_failed_lookups T) a = None"
    and ps: "\<forall>p \<in> set ps. unknown_probe T a t0 p" "ps \<noteq> [] \<longrightarrow> fst (hd ps) = t0"
  shows "wf_table (foldl probe T ps) \<and> ft_token_index (foldl probe T ps) = ft_token_index T \<and>
    map_of (ft_failed_lookups (foldl probe T ps)) a = (if ps = [] then None else Some (of_nat (min 20 (length ps)), t0))"
  using ps
proof (induction ps rule: rev_induct)
  case (snoc p ps)
  let ?T = "foldl probe T ps"
  have IH: "wf_table ?T" "ft_token_index ?T = ft_token_index T"
    "map_of (ft_failed_lookups ?T) a = (if ps = [] then None else Some (of_nat (min 20 (length ps)), t0))"
    using snoc by (auto simp: hd_append split: if_splits)
  have t: "unat t0 \<le> unat (fst p)" "unat (fst p) \<le> unat t0 + 60000" using snoc.prems(1) by (auto simp: unknown_probe_def)
  have fresh: "\<not> BLOCKLIST_WINDOW_MS < saturating_sub (fst p) t0" "saturating_sub (fst p) t0 \<le> BLOCKLIST_WINDOW_MS"
    using t by (simp_all add: saturating_sub_less_iff saturating_sub_le_iff BLOCKLIST_WINDOW_MS_def)
  have bl: "is_blocklisted ?T (fst p) a \<longleftrightarrow> 20 \<le> length ps"
    using IH(3) fresh by (auto simp: is_blocklisted_def BLOCKLIST_THRESHOLD_def word_le_nat_alt unat_of_nat take_bit_nat_eq_self min_def)
  have up: "unknown_probe ?T a t0 p" using snoc.prems(1) IH(2) by (simp add: unknown_probe_def)
  have eq: "foldl probe T (ps @ [p]) = (if 20 \<le> length ps then ?T else record_failed_lookup ?T a (fst p))"
    using probe_unknown [OF up] bl by simp
  show ?case
  proof (cases "20 \<le> length ps")
    case True
    then show ?thesis using eq IH by (auto simp: min_def)
  next
    case False
    have t0: "ps = [] \<Longrightarrow> fst p = t0" using snoc.prems(2) by simp
    have m: "min 20 (Suc (length ps)) = Suc (length ps)" "min 20 (length ps) = length ps" using False by simp_all
    show ?thesis using eq IH wf_record [OF IH(1)] record_entry [OF IH(1), of a "fst p" a] fresh False t0
      by (auto simp: Let_def m add.commute)
  qed
qed (use wf none in simp)

text \<open>Brute-force protection is exact: starting from an address without failed lookups, after \<open>k\<close> packets with unknown tokens from
  it within 60 seconds the address is blocked exactly when \<open>k\<close> is at least 20, and a blocked address cannot
  forward anything, not even with a valid token from a bound endpoint.\<close>
theorem blocklist_exact:
  assumes "wf_table T" "map_of (ft_failed_lookups T) a = None" "\<forall>p \<in> set ps. unknown_probe T a t0 p"
    and "ps \<noteq> [] \<longrightarrow> fst (hd ps) = t0" "unat t0 \<le> unat now" "unat now \<le> unat t0 + 60000"
  shows "(is_blocklisted (foldl probe T ps) now a \<longleftrightarrow> 20 \<le> length ps) \<and>
    (20 \<le> length ps \<longrightarrow> (\<forall>token src n. ip src = a \<longrightarrow> get_destination (foldl probe T ps) now token src n = (None, foldl probe T ps)))"
proof -
  have "saturating_sub now t0 \<le> BLOCKLIST_WINDOW_MS"
    using assms(5,6) by (simp add: saturating_sub_le_iff BLOCKLIST_WINDOW_MS_def)
  then have "is_blocklisted (foldl probe T ps) now a \<longleftrightarrow> 20 \<le> length ps"
    using probes_entry [OF assms(1-4)]
    by (auto simp: is_blocklisted_def BLOCKLIST_THRESHOLD_def word_le_nat_alt unat_of_nat take_bit_nat_eq_self min_def)
  then show ?thesis by (auto simp: get_destination_def)
qed

theorem blocklist_exact_witness:
  "is_blocklisted (foldl probe demo_table (replicate 20 (5, [7], demo_a, 40))) 6 (ip demo_a) \<and>
   get_destination (foldl probe demo_table (replicate 20 (5, [7], demo_a, 40))) 6 [9] demo_a 100 =
     (None, foldl probe demo_table (replicate 20 (5, [7], demo_a, 40)))"
proof -
  have "wf_table demo_table" "map_of (ft_failed_lookups demo_table) (ip demo_a) = None"
    by (simp_all add: demo_table_eq wf_table_def)
  moreover have "\<forall>p \<in> set (replicate 20 (5, [7], demo_a, 40)). unknown_probe demo_table (ip demo_a) 5 p"
    by (auto simp: unknown_probe_def demo_table_eq)
  ultimately show ?thesis
    using blocklist_exact [of demo_table "ip demo_a" "replicate 20 (5, [7], demo_a, 40)" 5 6] by simp
qed

section \<open>Entries that stay\<close>

text \<open>The list of failed lookups grows without bound while its entries are fresh.\<close>

lemma length_update_new: "a \<notin> fst ` set xs \<Longrightarrow> length (AList.update a e xs) = length xs + 1"
  by (induction xs) auto

lemma blocklist_grows:
  assumes "\<forall>(b, n, s) \<in> set (ft_failed_lookups T). saturating_sub t s \<le> BLOCKLIST_WINDOW_MS" "map_of (ft_failed_lookups T) a = None"
  shows "length (ft_failed_lookups (record_failed_lookup T a t)) = length (ft_failed_lookups T) + 1"
proof -
  have "filter (\<lambda>(_, _, s). saturating_sub t s \<le> BLOCKLIST_WINDOW_MS) (ft_failed_lookups T) = ft_failed_lookups T"
    using assms(1) by (simp add: filter_id_conv case_prod_unfold)
  moreover have "a \<notin> fst ` set (ft_failed_lookups T)" using assms(2) by (simp add: map_of_eq_None_iff)
  then have "length (AList.update a e (ft_failed_lookups T)) = length (ft_failed_lookups T) + 1" for e
    by (rule length_update_new)
  ultimately show ?thesis by (simp add: record_failed_lookup_def Let_def)
qed

text \<open>A packet far above the 1168 bytes announced as the maximum forwarding payload is forwarded.\<close>

lemma oversized_packet_forwarded: "fst (get_destination demo_table 5 [9] demo_a 60000) = Some demo_b"
  by (rule demo_forwards) simp

lemma fold_delete_keep:
  "\<forall>(j, c) \<in> set xs. fc_token c \<noteq> t \<Longrightarrow> map_of (fold (\<lambda>(_, ctx) idx. AList.delete (fc_token ctx) idx) xs idx) t = map_of idx t"
  by (induction xs arbitrary: idx) (auto simp: delete_conv')

lemma sweep_context_token [simp]: "fc_token (sweep_context now c) = fc_token c"
  by (simp add: sweep_context_def Let_def)

lemma sweep_keeps_token:
  assumes "\<forall>(j, c) \<in> set (ft_contexts T). fc_token c \<noteq> t"
  shows "map_of (ft_token_index (snd (sweep T now))) t = map_of (ft_token_index T) t"
  using assms unfolding sweep_def Let_def by (fastforce intro!: fold_delete_keep)

text \<open>When the pair of a session is authorized a second time, which re-registering its intent identifier leads to, the routing
  token of the first authorization stays valid: it routes to the new session, and no later sweep ever removes it,
  not even the one that removes the session.\<close>
theorem stale_token_survives:
  assumes "wf_table T" "t1 \<noteq> t2" "\<forall>j c. j \<noteq> i \<longrightarrow> map_of (ft_contexts T) j = Some c \<longrightarrow> fc_token c \<noteq> t1"
    and "T2 = authorize_pair (authorize_pair T now1 i t1 a b) now2 i t2 a' b'"
  shows "map_of (ft_token_index T2) t1 = Some i \<and> map_of (ft_token_index (snd (sweep T2 now))) t1 = Some i"
proof -
  have idx: "map_of (ft_token_index T2) t1 = Some i" using assms(2,4) by (simp add: authorize_pair_eq update_conv')
  have "wf_table T2" using assms(1) wf_step [of T now1 "AuthorizeOp i t1 a b"] wf_step [of _ now2 "AuthorizeOp i t2 a' b'"]
    by (simp add: assms(4))
  moreover have ctx: "map_of (ft_contexts T2) = (map_of (ft_contexts T))(i \<mapsto> fresh_context (authorize_pair T now1 i t1 a b) now2 i t2 a' b')"
    by (simp add: assms(4) authorize_pair_eq)
  ultimately have "fc_token c \<noteq> t1" if "(j, c) \<in> set (ft_contexts T2)" for j c
    using that assms(2,3) map_of_is_SomeI [of "ft_contexts T2" j c]
    by (auto simp: wf_table_def fresh_context_def split: if_splits)
  then show ?thesis using idx sweep_keeps_token [of T2 t1 now] by auto
qed

theorem stale_token_survives_witness:
  "map_of (ft_token_index (snd (sweep (authorize_pair (authorize_pair forwarding_new 0 [1] [8] [10] [20]) 10 [1] [9] [20] [10]) 999999))) [8] =
     Some [1]"
  by (rule stale_token_survives [THEN conjunct2, of forwarding_new "[8]" "[9]" "[1]", OF _ _ _ refl])
    (simp_all add: forwarding_new_def with_rate_limit_def with_limits_def wf_table_def)

end
