(* ===== verification/BW_Rendezvous.thy ===== *)
theory BW_Rendezvous
  imports BW_Forwarding
begin

text \<open>
  The rendezvous registry of the relay (\<^verbatim>\<open>bw-relay/src/rendezvous.rs\<close>) with the candidates it stores
  (\<^verbatim>\<open>candidate.rs\<close>).  No operation can panic while it holds the lock, so the branches for a poisoned lock are
  never taken and the registry has no such flag.
\<close>

section \<open>Candidates\<close>

datatype candidate_type = Host | ServerReflexive | RelayCandidate

record candidate =
  cand_type :: candidate_type
  cand_addr :: socket_addr
  cand_priority :: u32

definition cand_host :: "socket_addr \<Rightarrow> candidate" where
  "cand_host a = \<lparr>cand_type = Host, cand_addr = a, cand_priority = 30000\<rparr>"

definition cand_server_reflexive :: "socket_addr \<Rightarrow> candidate" where
  "cand_server_reflexive a = \<lparr>cand_type = ServerReflexive, cand_addr = a, cand_priority = 20000\<rparr>"

definition cand_relay_addr :: "socket_addr \<Rightarrow> candidate" where
  "cand_relay_addr a = \<lparr>cand_type = RelayCandidate, cand_addr = a, cand_priority = 10000\<rparr>"

section \<open>Intents\<close>

definition INTENT_TIMEOUT_MS :: u64 where
  "INTENT_TIMEOUT_MS = 30000"

definition MAX_INTENTS :: nat where
  "MAX_INTENTS = 2048"

datatype intent_state = Pending (created_at: u64) | Accepted (accepted_token: relay_token) | Expired

record pending_intent =
  pi_initiator :: device_id
  pi_target :: device_id
  pi_initiator_candidates :: "candidate list"
  pi_target_candidates :: "candidate list"
  pi_state :: intent_state

type_synonym rendezvous_registry = "(intent_id \<times> pending_intent) list"

definition rendezvous_new :: rendezvous_registry where
  "rendezvous_new = []"

fun is_pending :: "intent_state \<Rightarrow> bool" where
  "is_pending (Pending _) = True"
| "is_pending _ = False"

definition keep_intent :: "u64 \<Rightarrow> pending_intent \<Rightarrow> bool" where
  "keep_intent stale_before p \<longleftrightarrow>
     (case pi_state p of Pending created \<Rightarrow> created > stale_before | _ \<Rightarrow> True)"

definition register_intent :: "rendezvous_registry \<Rightarrow> u64 \<Rightarrow> intent_id \<Rightarrow> device_id \<Rightarrow> device_id \<Rightarrow> candidate list \<Rightarrow>
    (unit, string) outcome \<times> rendezvous_registry" where
  "register_intent R now i initiator target candidates =
     (let stale_before = saturating_sub now INTENT_TIMEOUT_MS;
          R1 = filter (\<lambda>(_, p). keep_intent stale_before p) R
      in if length R1 \<ge> MAX_INTENTS then (Err ''Rendezvous registry is at capacity'', R1)
         else if (case map_of R1 i of None \<Rightarrow> False | Some existing \<Rightarrow> is_pending (pi_state existing))
         then (Err ''Duplicate intent_id: an active intent with this ID already exists'', R1)
         else (Ok (), AList.update i \<lparr>pi_initiator = initiator, pi_target = target, pi_initiator_candidates = candidates,
                 pi_target_candidates = [], pi_state = Pending now\<rparr> R1))"

definition accept_intent :: "rendezvous_registry \<Rightarrow> u64 \<Rightarrow> relay_token option \<Rightarrow> intent_id \<Rightarrow> device_id \<Rightarrow> candidate list \<Rightarrow>
    (device_id \<times> candidate list \<times> relay_token, string) outcome \<times> rendezvous_registry" where
  "accept_intent R now rng i acceptor candidates =
     (case map_of R i of
        None \<Rightarrow> (Err ''Intent not found'', R)
      | Some p \<Rightarrow>
          (case pi_state p of
             Accepted _ \<Rightarrow> (Err ''Intent is already accepted'', R)
           | Expired \<Rightarrow> (Err ''Intent has expired'', R)
           | Pending created \<Rightarrow>
               if saturating_sub now created > INTENT_TIMEOUT_MS
               then (Err ''Intent has expired'', AList.update i (p\<lparr>pi_state := Expired\<rparr>) R)
               else if pi_target p \<noteq> acceptor
               then (Err ''Acceptor identity does not match the intended target'', R)
               else let p1 = p\<lparr>pi_target_candidates := candidates\<rparr> in
                    (case rng of
                       None \<Rightarrow> (Err ''Failed to generate random token'', AList.update i p1 R)
                     | Some token \<Rightarrow> (Ok (pi_initiator p, pi_initiator_candidates p, token),
                         AList.update i (p1\<lparr>pi_state := Accepted token\<rparr>) R))))"

definition get_target_candidates :: "rendezvous_registry \<Rightarrow> intent_id \<Rightarrow> device_id \<Rightarrow>
    (candidate list \<times> relay_token, string) outcome" where
  "get_target_candidates R i requester =
     (case map_of R i of
        None \<Rightarrow> Err ''Intent not found''
      | Some p \<Rightarrow>
          (case pi_state p of
             Pending _ \<Rightarrow> Err ''Intent not yet accepted by the target''
           | Expired \<Rightarrow> Err ''Intent has expired''
           | Accepted token \<Rightarrow>
               if pi_initiator p \<noteq> requester
               then Err ''Unauthorized: requester is not the initiator of this intent''
               else Ok (pi_target_candidates p, token)))"

definition expire_intent :: "u64 \<Rightarrow> pending_intent \<Rightarrow> pending_intent" where
  "expire_intent now p =
     (case pi_state p of
        Pending created \<Rightarrow> if saturating_sub now created > INTENT_TIMEOUT_MS then p\<lparr>pi_state := Expired\<rparr> else p
      | _ \<Rightarrow> p)"

definition sweep_expired :: "rendezvous_registry \<Rightarrow> u64 \<Rightarrow> nat \<times> rendezvous_registry" where
  "sweep_expired R now =
     (length (filter (\<lambda>(_, p). expire_intent now p \<noteq> p) R), map (\<lambda>(i, p). (i, expire_intent now p)) R)"

definition registry_peek_initiator :: "rendezvous_registry \<Rightarrow> intent_id \<Rightarrow> (device_id, string) outcome" where
  "registry_peek_initiator R i = ok_or (map_option pi_initiator (map_of R i)) ''Intent not found''"

definition pending_for :: "rendezvous_registry \<Rightarrow> u64 \<Rightarrow> device_id \<Rightarrow> (intent_id \<times> device_id) list" where
  "pending_for R now target =
     (let stale_before = saturating_sub now INTENT_TIMEOUT_MS
      in map (\<lambda>(i, p). (i, pi_initiator p))
           (filter (\<lambda>(i, p). pi_target p = target \<and>
              (case pi_state p of Pending created \<Rightarrow> created > stale_before | _ \<Rightarrow> False)) R))"

end
