(* ===== verification/BW_Identity.thy ===== *)
theory BW_Identity
  imports BW_Auth
begin

text \<open>
  Device identities and signature keys (\<^verbatim>\<open>bw-crypto/src/identity.rs\<close>): the textual form of a device identifier with
  its parser, and the wrappers of verification keys.

  Strings are sequences of UTF-8 code units.  SHA-256 and Ed25519 are the parameter \<open>sig_lib\<close>.
\<close>

section \<open>The textual form\<close>

definition DEVICE_ID_BYTES :: nat where
  "DEVICE_ID_BYTES = 32"

definition DEVICE_ID_HEX_LEN :: nat where
  "DEVICE_ID_HEX_LEN = 64"

definition DEVICE_ID_PREFIX :: string where
  "DEVICE_ID_PREFIX = ''bw-id-''"

definition DEVICE_ID_STR_LEN :: nat where
  "DEVICE_ID_STR_LEN = length DEVICE_ID_PREFIX + DEVICE_ID_HEX_LEN"

datatype device_id_parse_error = InvalidPrefix | InvalidLength | InvalidHex | UppercaseNotAllowed

definition device_id_display :: "bytes \<Rightarrow> string" where
  "device_id_display d = DEVICE_ID_PREFIX @ hex d"

text \<open>\<open>str::is_char_boundary\<close> and \<open>u8::from_str_radix(_, 16)\<close>, which accepts a leading plus sign.\<close>

definition is_continuation :: "char \<Rightarrow> bool" where
  "is_continuation c \<longleftrightarrow> (128 :: nat) \<le> of_char c \<and> of_char c < (192 :: nat)"

definition is_char_boundary :: "string \<Rightarrow> nat \<Rightarrow> bool" where
  "is_char_boundary s k \<longleftrightarrow> k = 0 \<or> k = length s \<or> k < length s \<and> \<not> is_continuation (s ! k)"

fun radix_16 :: "nat \<Rightarrow> string \<Rightarrow> nat option" where
  "radix_16 acc [] = Some acc"
| "radix_16 acc (c # cs) =
     (case to_digit_16 c of
        None \<Rightarrow> None
      | Some d \<Rightarrow> if acc * 16 + unat d < 256 then radix_16 (acc * 16 + unat d) cs else None)"

definition u8_from_str_radix_16 :: "string \<Rightarrow> u8 option" where
  "u8_from_str_radix_16 s =
     (let ds = (if 1 < length s \<and> hd s = CHR ''+'' then tl s else s)
      in if ds = [] then None else map_option of_nat (radix_16 0 ds))"

definition is_ascii_uppercase :: "char \<Rightarrow> bool" where
  "is_ascii_uppercase c \<longleftrightarrow> (65 :: nat) \<le> of_char c \<and> of_char c \<le> (90 :: nat)"

fun parse_device_bytes :: "string \<Rightarrow> nat list \<Rightarrow> (bytes, device_id_parse_error) outcome" where
  "parse_device_bytes body [] = Ok []"
| "parse_device_bytes body (i # is) =
     (let start = i * 2 in
      if \<not> is_char_boundary body start \<or> \<not> is_char_boundary body (start + 2) then Panic
      else (case u8_from_str_radix_16 (slice_of start (start + 2) body) of
              None \<Rightarrow> Err InvalidHex
            | Some b \<Rightarrow> obind (parse_device_bytes body is) (\<lambda>bs. Ok (b # bs))))"

definition device_id_from_str :: "string \<Rightarrow> (bytes, device_id_parse_error) outcome" where
  "device_id_from_str s =
     (if take (length DEVICE_ID_PREFIX) s \<noteq> DEVICE_ID_PREFIX then Err InvalidPrefix
      else if length s \<noteq> DEVICE_ID_STR_LEN then Err InvalidLength
      else let hex_body = drop (length DEVICE_ID_PREFIX) s
           in if list_ex is_ascii_uppercase hex_body then Err UppercaseNotAllowed
              else parse_device_bytes hex_body [0..<DEVICE_ID_BYTES])"

section \<open>Keys\<close>

record sig_lib =
  sl_sha256 :: "bytes \<Rightarrow> bytes"
  sl_key_valid :: "bytes \<Rightarrow> bool"
  sl_verify :: "bytes \<Rightarrow> bytes \<Rightarrow> bytes \<Rightarrow> bool"

datatype verify_key = VerifyKey (verify_key_bytes: bytes)

definition verify_key_from_bytes :: "sig_lib \<Rightarrow> bytes \<Rightarrow> verify_key option" where
  "verify_key_from_bytes S bs = (if sl_key_valid S bs then Some (VerifyKey bs) else None)"

definition device_id_of_key :: "sig_lib \<Rightarrow> verify_key \<Rightarrow> bytes" where
  "device_id_of_key S k = sl_sha256 S (verify_key_bytes k)"

definition key_verify :: "sig_lib \<Rightarrow> verify_key \<Rightarrow> bytes \<Rightarrow> bytes \<Rightarrow> bool" where
  "key_verify S k message signature = sl_verify S (verify_key_bytes k) message signature"

section \<open>Parsing is the inverse of printing\<close>

lemma length_hex [simp]: "length (hex bs) = 2 * length bs"
  by (induction bs) (simp_all add: hex_def)

lemma hex_Cons: "hex (b # bs) = hex_digit (drop_bit 4 b) # hex_digit (b AND 15) # hex bs"
  by (simp add: hex_def)

lemma hex_digit_code:
  assumes "n < 16"
  shows "of_char (hex_digit n) = (if unat n < 10 then 48 + unat n else 87 + unat n)"
  using assms by (simp add: hex_digit_def word_less_nat_alt)

lemma hex_digit_plain:
  assumes "n < 16"
  shows "hex_digit n \<noteq> CHR ''+''" "\<not> is_ascii_uppercase (hex_digit n)" "\<not> is_continuation (hex_digit n)"
proof -
  have "unat n < 16" using assms by (simp add: word_less_nat_alt)
  moreover have "of_char (CHR ''+'') = (43 :: nat)" by simp
  ultimately show "hex_digit n \<noteq> CHR ''+''" "\<not> is_ascii_uppercase (hex_digit n)" "\<not> is_continuation (hex_digit n)"
    using hex_digit_code [OF assms] by (auto simp: is_ascii_uppercase_def is_continuation_def split: if_splits)
qed

lemma digit_hex:
  assumes "to_digit_16 c = Some d" "\<not> is_ascii_uppercase c"
  shows "d < 16" "hex_digit d = c" "\<not> is_continuation c"
proof -
  let ?n = "of_char c :: nat"
  consider (dec) "48 \<le> ?n" "?n \<le> 57" "d = of_nat (?n - 48)" | (low) "97 \<le> ?n" "?n \<le> 102" "d = of_nat (?n - 87)"
    using assms by (auto simp: to_digit_16_def Let_def is_ascii_uppercase_def split: if_splits)
  then have "unat d < 16 \<and> char_of (if unat d < 10 then 48 + unat d else 87 + unat d) = c \<and> \<not> is_continuation c"
  proof cases
    case dec
    then have "unat d = ?n - 48" by (simp add: unat_of_nat take_bit_nat_eq_self del: of_nat_diff)
    then have "unat d < 10" "48 + unat d = ?n" using dec(1,2) by linarith+
    then show ?thesis using dec(2) by (simp add: is_continuation_def)
  next
    case low
    then have "unat d = ?n - 87" by (simp add: unat_of_nat take_bit_nat_eq_self del: of_nat_diff)
    then have "10 \<le> unat d" "unat d < 16" "87 + unat d = ?n" using low(1,2) by linarith+
    then show ?thesis using low(2) by (simp add: is_continuation_def)
  qed
  then show "d < 16" "hex_digit d = c" "\<not> is_continuation c"
    by (auto simp: word_less_nat_alt hex_digit_def split: if_splits)
qed

lemma nibble_parts: "unat (drop_bit 4 (b :: u8)) * 16 + unat (b AND 15) = unat b"
proof -
  have m: "(15 :: u8) = mask 4" by (simp add: mask_eq_exp_minus_1)
  have "b AND 15 = take_bit 4 b" unfolding m by (simp only: take_bit_eq_mask)
  then have "unat (b AND 15) = unat b mod 16" by (simp add: take_bit_eq_mod unat_mod)
  then show ?thesis by (simp add: drop_bit_eq_div unat_div)
qed

lemma unat_of_nat_u8: "n < 256 \<Longrightarrow> unat (of_nat n :: u8) = n"
  by (simp add: unat_of_nat take_bit_nat_eq_self)

lemma radix_pair:
  "radix_16 0 [c, e] = Some n \<longleftrightarrow>
     (\<exists>h l. to_digit_16 c = Some h \<and> to_digit_16 e = Some l \<and> unat h < 256 \<and> unat h * 16 + unat l < 256 \<and> n = unat h * 16 + unat l)"
  by (auto split: option.splits if_splits)

text \<open>One step of the parser: two characters, neither of them a plus sign, against the printed byte.\<close>

lemma from_str_radix_hex: "u8_from_str_radix_16 [hex_digit (drop_bit 4 b), hex_digit (b AND 15)] = Some b"
proof -
  have "radix_16 0 [hex_digit (drop_bit 4 b), hex_digit (b AND 15)] = Some (unat b)"
    unfolding radix_pair using to_digit_hex_digit [OF nibble_less(1)] to_digit_hex_digit [OF nibble_less(2)] nibble_parts [of b]
      unat_bound [of b] unat_bound [of "drop_bit 4 b"] by auto
  then show ?thesis using hex_digit_plain(1) [OF nibble_less(1), of b] by (simp add: u8_from_str_radix_16_def)
qed

lemma hex_from_str_radix:
  assumes "u8_from_str_radix_16 [c, e] = Some b" "c \<noteq> CHR ''+''" "\<not> is_ascii_uppercase c" "\<not> is_ascii_uppercase e"
  shows "[c, e] = [hex_digit (drop_bit 4 b), hex_digit (b AND 15)]"
proof -
  obtain h l where hl: "to_digit_16 c = Some h" "to_digit_16 e = Some l" and b: "b = of_nat (unat h * 16 + unat l)"
    using assms(1,2) radix_pair [of c e] by (auto simp: u8_from_str_radix_16_def Let_def simp del: radix_16.simps)
  note H = digit_hex [OF hl(1) assms(3)] and L = digit_hex [OF hl(2) assms(4)]
  have "unat h < 16" "unat l < 16" using H(1) L(1) by (simp_all add: word_less_nat_alt)
  then have "unat h * 16 + unat l < 256" by linarith
  then have ub: "unat b = unat h * 16 + unat l" unfolding b by (rule unat_of_nat_u8)
  then have "unat (drop_bit 4 b) = unat h" "unat (b AND 15) = unat l"
    using \<open>unat l < 16\<close> nibble_parts [of b] by (simp_all add: drop_bit_eq_div unat_div)
  then have "drop_bit 4 b = h" "b AND 15 = l" by (simp_all add: word_unat_eq_iff)
  then show ?thesis using H(2) L(2) by simp
qed

lemma slice_pair: "2 * i + 2 \<le> length s \<Longrightarrow> slice_of (i * 2) (i * 2 + 2) s = [s ! (2 * i), s ! (2 * i + 1)]"
  by (auto simp: slice_of_def intro!: nth_equalityI simp: less_2_cases_iff mult.commute)

lemma hex_nth: "i < length bs \<Longrightarrow> hex bs ! (2 * i) = hex_digit (drop_bit 4 (bs ! i)) \<and> hex bs ! (2 * i + 1) = hex_digit (bs ! i AND 15)"
proof (induction bs arbitrary: i)
  case (Cons b bs)
  then show ?case by (cases i) (auto simp: hex_Cons)
qed simp

lemma hex_plain:
  assumes "c \<in> set (hex bs)"
  shows "c \<noteq> CHR ''+''" "\<not> is_ascii_uppercase c" "\<not> is_continuation c"
proof -
  obtain n where "c = hex_digit n" "n < 16" using assms nibble_less by (auto simp: hex_def)
  then show "c \<noteq> CHR ''+''" "\<not> is_ascii_uppercase c" "\<not> is_continuation c" using hex_digit_plain by auto
qed

lemma boundary_plain: "k \<le> length s \<Longrightarrow> \<forall>c \<in> set s. \<not> is_continuation c \<Longrightarrow> is_char_boundary s k"
  by (auto simp: is_char_boundary_def)

lemma parse_hex:
  assumes "length bs = 32" "\<forall>i \<in> set is. i < 32"
  shows "parse_device_bytes (hex bs) is = Ok (map ((!) bs) is)"
  using assms(2)
proof (induction "is")
  case (Cons i "is")
  then have i: "i < 32" by simp
  have "is_char_boundary (hex bs) (i * 2)" "is_char_boundary (hex bs) (i * 2 + 2)"
    using i assms(1) hex_plain(3) by (auto intro!: boundary_plain)
  moreover have "slice_of (i * 2) (i * 2 + 2) (hex bs) = [hex_digit (drop_bit 4 (bs ! i)), hex_digit (bs ! i AND 15)]"
    using slice_pair [of i "hex bs"] hex_nth [of i bs] i assms(1) by simp
  ultimately show ?case using Cons by (simp add: from_str_radix_hex Let_def)
qed simp

lemma parse_OkD:
  assumes "parse_device_bytes body is = Ok ds" "length body = 64" "\<forall>i \<in> set is. i < 32"
    and "CHR ''+'' \<notin> set body" "\<not> list_ex is_ascii_uppercase body"
  shows "length ds = length is \<and> (\<forall>k < length is. body ! (2 * (is ! k)) = hex_digit (drop_bit 4 (ds ! k)) \<and>
    body ! (2 * (is ! k) + 1) = hex_digit (ds ! k AND 15))"
  using assms(1,3)
proof (induction "is" arbitrary: ds)
  case (Cons i "is")
  then have i: "i < 32" by simp
  obtain b bs where b: "u8_from_str_radix_16 (slice_of (i * 2) (i * 2 + 2) body) = Some b" "parse_device_bytes body is = Ok bs" "ds = b # bs"
    using Cons.prems(1) by (auto simp: Let_def outcome_simps split: if_splits option.splits)
  have sl: "slice_of (i * 2) (i * 2 + 2) body = [body ! (2 * i), body ! (2 * i + 1)]" using slice_pair [of i body] i assms(2) by simp
  have mem: "body ! (2 * i) \<in> set body" "body ! (2 * i + 1) \<in> set body" using i assms(2) by simp_all
  have "[body ! (2 * i), body ! (2 * i + 1)] = [hex_digit (drop_bit 4 b), hex_digit (b AND 15)]"
    by (rule hex_from_str_radix) (use b(1) sl mem assms(4,5) in \<open>auto simp: list_ex_iff\<close>)
  moreover have "length bs = length is \<and> (\<forall>k < length is. body ! (2 * (is ! k)) = hex_digit (drop_bit 4 (bs ! k)) \<and>
      body ! (2 * (is ! k) + 1) = hex_digit (bs ! k AND 15))"
    using Cons.IH [OF b(2)] Cons.prems(2) by simp
  ultimately show ?case by (auto simp: b(3) nth_Cons split: nat.split)
qed simp

lemma parse_canonical:
  assumes "parse_device_bytes body [0..<32] = Ok ds" "length body = 64" "CHR ''+'' \<notin> set body" "\<not> list_ex is_ascii_uppercase body"
  shows "length ds = 32 \<and> hex ds = body"
proof -
  have P: "length ds = 32" "\<And>k. k < 32 \<Longrightarrow> body ! (2 * k) = hex_digit (drop_bit 4 (ds ! k)) \<and> body ! (2 * k + 1) = hex_digit (ds ! k AND 15)"
    using parse_OkD [OF assms(1,2) _ assms(3,4)] by auto
  have "hex ds ! j = body ! j" if "j < 64" for j
  proof -
    have "j div 2 < 32" using that by simp
    then show ?thesis using P(2) [of "j div 2"] hex_nth [of "j div 2" ds] P(1) by (cases "even j") auto
  qed
  then show ?thesis using P(1) assms(2) by (auto intro: nth_equalityI)
qed

lemma device_id_from_str_eq:
  "device_id_from_str s =
     (if take 6 s \<noteq> DEVICE_ID_PREFIX then Err InvalidPrefix else if length s \<noteq> 70 then Err InvalidLength
      else if list_ex is_ascii_uppercase (drop 6 s) then Err UppercaseNotAllowed else parse_device_bytes (drop 6 s) [0..<32])"
proof -
  have "length DEVICE_ID_PREFIX = 6" by (simp add: DEVICE_ID_PREFIX_def)
  then show ?thesis by (simp add: device_id_from_str_def DEVICE_ID_STR_LEN_def DEVICE_ID_HEX_LEN_def DEVICE_ID_BYTES_def)
qed

text \<open>Device identifiers have one canonical text: printing an identifier and parsing the result gives the identifier back, and a
  string without a plus sign is accepted exactly when it is the text of the identifier that is returned.\<close>
theorem device_id_text_canonical:
  assumes "CHR ''+'' \<notin> set s"
  shows "device_id_from_str s = Ok d \<longleftrightarrow> length d = 32 \<and> s = device_id_display d"
proof
  assume r: "device_id_from_str s = Ok d"
  let ?body = "drop 6 s"
  have s: "take 6 s = DEVICE_ID_PREFIX" "length s = 70" "\<not> list_ex is_ascii_uppercase ?body" "parse_device_bytes ?body [0..<32] = Ok d"
    using r by (auto simp: device_id_from_str_eq split: if_splits)
  have "CHR ''+'' \<notin> set ?body" using assms by (meson in_set_dropD)
  then have "length d = 32 \<and> hex d = ?body" using parse_canonical [OF s(4)] s(2,3) by simp
  then show "length d = 32 \<and> s = device_id_display d"
    using s(1) append_take_drop_id [of 6 s] by (simp add: device_id_display_def)
next
  assume d: "length d = 32 \<and> s = device_id_display d"
  have "map ((!) d) [0..<32] = d" using d map_nth [of d] by simp
  then have "parse_device_bytes (hex d) [0..<32] = Ok d" using parse_hex [of d "[0..<32]"] d by simp
  moreover have "\<not> list_ex is_ascii_uppercase (hex d)" using hex_plain(2) by (auto simp: list_ex_iff)
  moreover have "take 6 s = DEVICE_ID_PREFIX" "length s = 70" "drop 6 s = hex d"
    using d by (simp_all add: device_id_display_def DEVICE_ID_PREFIX_def)
  ultimately show "device_id_from_str s = Ok d" by (simp add: device_id_from_str_eq)
qed

lemma display_no_plus: "CHR ''+'' \<notin> set (device_id_display d)"
  using hex_plain(1) by (auto simp: device_id_display_def DEVICE_ID_PREFIX_def)

theorem device_id_text_canonical_witness:
  "device_id_from_str (device_id_display (replicate 32 171)) = Ok (replicate 32 171)"
  using device_id_text_canonical [OF display_no_plus, of "replicate 32 171" "replicate 32 171"] by simp

text \<open>A plus sign in front of a digit is accepted, so an identifier has further texts, and a character of three code units makes
  the parser panic.\<close>

lemma device_id_plus_accepted:
  "device_id_from_str (''bw-id-'' @ ''+5'' @ replicate 62 (CHR ''0'')) = Ok (5 # replicate 31 0)"
  by code_simp

lemma device_id_parse_panics:
  "device_id_from_str (''bw-id-'' @ [char_of (226 :: nat), char_of (130 :: nat), char_of (172 :: nat)] @ replicate 61 (CHR ''0'')) = Panic"
  by code_simp

end
