(* ===== verification/BW_Relay.thy ===== *)
theory BW_Relay
  imports BW_Rendezvous BW_Identity
begin

text \<open>
  The relay server (\<^verbatim>\<open>bw-relay/src/server.rs\<close>), its control messages (\<^verbatim>\<open>protocol.rs\<close>) and the datagram loop of the
  relay binary (\<^verbatim>\<open>bin/relay.rs\<close>).  A handler takes the server and returns its answer with the server as it leaves
  it.  The clock is read separately by the server, by the rendezvous registry and by the forwarding table, so one
  message sees up to three unrelated readings.  Hashing and signatures are the parameters \<open>sig_lib\<close>.
\<close>

section \<open>Messages\<close>

record pending_intent_info =
  pii_from :: device_id
  pii_intent_id :: bytes

datatype relay_message =
    RegisterRequest device_id bytes u64 bytes
  | RegisterAck u64 "socket_addr option"
  | DiscoverRequest device_id
  | DiscoverResponse device_id bool
  | ErrorResponse string
  | ConnectIntent device_id device_id bytes "candidate list" u64 bytes
  | ConnectInvite device_id bytes
  | AcceptConnect device_id bytes "candidate list" u64 bytes
  | CandidateExchange bytes "candidate list" relay_token
  | GetCandidates device_id bytes
  | ConnectTimeout device_id
  | ConnectRejected device_id string
  | RelayEstablishRequest bytes device_id u64 bytes
  | RelayEstablishAck bytes
  | PollPendingIntents device_id
  | PendingIntents "pending_intent_info list"

datatype relay_error = AuthFailed string | NotFound | InternalError string

fun relay_error_display :: "relay_error \<Rightarrow> string" where
  "relay_error_display (AuthFailed s) = ''Authentication failed: '' @ s"
| "relay_error_display NotFound = ''Device not found''"
| "relay_error_display (InternalError s) = ''Internal error: '' @ s"

section \<open>The server\<close>

definition TIMESTAMP_WINDOW_MS :: u64 where
  "TIMESTAMP_WINDOW_MS = 300000"

definition MAX_REGISTRATIONS :: nat where
  "MAX_REGISTRATIONS = 1024"

definition STALE_REGISTRATION_MS :: u64 where
  "STALE_REGISTRATION_MS = 300000"

record client_context =
  cc_session_id :: u64
  cc_last_seen :: u64
  cc_verify_key_bytes :: bytes
  cc_server_reflexive_addr :: "socket_addr option"

record relay_server =
  rs_registry :: "(device_id \<times> client_context) list"
  rs_rendezvous :: rendezvous_registry
  rs_forwarding :: forwarding_table
  rs_next_session_id :: u64

record relay_env =
  env_now :: u64
  env_rendezvous_now :: u64
  env_forwarding_now :: u64
  env_random :: "relay_token option"

definition relay_with_limits :: "u64 \<Rightarrow> u64 \<Rightarrow> relay_server" where
  "relay_with_limits rate expiry = \<lparr>rs_registry = [], rs_rendezvous = rendezvous_new,
     rs_forwarding = with_limits rate expiry, rs_next_session_id = 1\<rparr>"

definition relay_with_rate_limit :: "u64 \<Rightarrow> relay_server" where
  "relay_with_rate_limit rate = relay_with_limits rate SESSION_EXPIRY_MS"

definition relay_new :: relay_server where
  "relay_new = relay_with_rate_limit RATE_LIMIT_BYTES_PER_SEC"

definition is_registered :: "relay_server \<Rightarrow> device_id \<Rightarrow> bool" where
  "is_registered R target \<longleftrightarrow> map_of (rs_registry R) target \<noteq> None"

definition verify_key_for :: "sig_lib \<Rightarrow> relay_server \<Rightarrow> device_id \<Rightarrow> (verify_key, relay_error) outcome" where
  "verify_key_for S R dev =
     (case map_of (rs_registry R) dev of
        None \<Rightarrow> Err NotFound
      | Some ctx \<Rightarrow> ok_or (verify_key_from_bytes S (cc_verify_key_bytes ctx)) (InternalError ''Stored public key is invalid''))"

definition server_peek_initiator :: "relay_server \<Rightarrow> bytes \<Rightarrow> (device_id, relay_error) outcome" where
  "server_peek_initiator R i = map_err InternalError (registry_peek_initiator (rs_rendezvous R) i)"

definition register_payload :: "sig_lib \<Rightarrow> device_id \<Rightarrow> bytes \<Rightarrow> u64 \<Rightarrow> bytes" where
  "register_payload S dev key timestamp = sl_sha256 S (dev @ key @ to_be_bytes 8 timestamp)"

definition handle_register :: "sig_lib \<Rightarrow> relay_server \<Rightarrow> relay_env \<Rightarrow> device_id \<Rightarrow> bytes \<Rightarrow> u64 \<Rightarrow> bytes \<Rightarrow> socket_addr option \<Rightarrow>
    (relay_message, relay_error) outcome \<times> relay_server" where
  "handle_register S R E dev key timestamp signature peer =
     (if abs_diff (env_now E) timestamp > TIMESTAMP_WINDOW_MS
      then (Err (AuthFailed ''Timestamp out of acceptable bounds''), R)
      else case verify_key_from_bytes S key of
        None \<Rightarrow> (Err (AuthFailed ''Invalid Ed25519 public key''), R)
      | Some verify_key \<Rightarrow>
          if device_id_of_key S verify_key \<noteq> dev
          then (Err (AuthFailed ''Device ID does not match the provided public key''), R)
          else if length signature \<noteq> 64 then (Err (AuthFailed ''Signature must be exactly 64 bytes''), R)
          else if \<not> key_verify S verify_key (register_payload S dev key timestamp) signature
          then (Err (AuthFailed ''Signature verification failed''), R)
          else let session_id = rs_next_session_id R;
                   R1 = R\<lparr>rs_next_session_id := session_id + 1\<rparr>;
                   stale_before = saturating_sub (env_now E) STALE_REGISTRATION_MS;
                   R2 = (if length (rs_registry R1) \<ge> MAX_REGISTRATIONS
                         then R1\<lparr>rs_registry := filter (\<lambda>(_, ctx). cc_last_seen ctx > stale_before) (rs_registry R1)\<rparr>
                         else R1)
               in if length (rs_registry R2) \<ge> MAX_REGISTRATIONS
                  then (Err (InternalError ''Relay registry is at capacity''), R2)
                  else (Ok (RegisterAck session_id peer),
                        R2\<lparr>rs_registry := AList.update dev \<lparr>cc_session_id = session_id, cc_last_seen = env_now E,
                             cc_verify_key_bytes = key, cc_server_reflexive_addr = peer\<rparr> (rs_registry R2)\<rparr>))"

definition connect_payload :: "sig_lib \<Rightarrow> bytes \<Rightarrow> device_id \<Rightarrow> device_id \<Rightarrow> u64 \<Rightarrow> bytes" where
  "connect_payload S i initiator target timestamp = sl_sha256 S (i @ initiator @ target @ to_be_bytes 8 timestamp)"

definition handle_connect_intent :: "sig_lib \<Rightarrow> relay_server \<Rightarrow> relay_env \<Rightarrow> device_id \<Rightarrow> device_id \<Rightarrow> bytes \<Rightarrow> candidate list \<Rightarrow> u64 \<Rightarrow> bytes \<Rightarrow>
    (relay_message, relay_error) outcome \<times> relay_server" where
  "handle_connect_intent S R E initiator target i candidates timestamp signature =
     (if abs_diff (env_now E) timestamp > TIMESTAMP_WINDOW_MS
      then (Err (AuthFailed ''ConnectIntent timestamp out of bounds''), R)
      else case verify_key_for S R initiator of
        Err e \<Rightarrow> (Err e, R)
      | Panic \<Rightarrow> (Panic, R)
      | Ok verify_key \<Rightarrow>
          if \<not> is_registered R target then (Ok (ConnectRejected target ''Target device is not registered''), R)
          else if length i \<noteq> 16 then (Err (AuthFailed ''intent_id must be exactly 16 bytes''), R)
          else if length signature \<noteq> 64 then (Err (AuthFailed ''Signature must be exactly 64 bytes''), R)
          else if \<not> key_verify S verify_key (connect_payload S i initiator target timestamp) signature
          then (Err (AuthFailed ''ConnectIntent signature verification failed''), R)
          else case register_intent (rs_rendezvous R) (env_rendezvous_now E) i initiator target candidates of
             (Ok _, V) \<Rightarrow> (Ok (ConnectInvite initiator i), R\<lparr>rs_rendezvous := V\<rparr>)
           | (Err e, V) \<Rightarrow> (Err (InternalError e), R\<lparr>rs_rendezvous := V\<rparr>)
           | (Panic, V) \<Rightarrow> (Panic, R\<lparr>rs_rendezvous := V\<rparr>))"

definition accept_payload :: "sig_lib \<Rightarrow> bytes \<Rightarrow> device_id \<Rightarrow> device_id \<Rightarrow> u64 \<Rightarrow> bytes" where
  "accept_payload S i acceptor initiator timestamp = sl_sha256 S (i @ acceptor @ initiator @ to_be_bytes 8 timestamp)"

definition handle_accept_connect :: "sig_lib \<Rightarrow> relay_server \<Rightarrow> relay_env \<Rightarrow> device_id \<Rightarrow> bytes \<Rightarrow> candidate list \<Rightarrow> u64 \<Rightarrow> bytes \<Rightarrow>
    (relay_message, relay_error) outcome \<times> relay_server" where
  "handle_accept_connect S R E acceptor i candidates timestamp signature =
     (if abs_diff (env_now E) timestamp > TIMESTAMP_WINDOW_MS
      then (Err (AuthFailed ''AcceptConnect timestamp out of bounds''), R)
      else case verify_key_for S R acceptor of
        Err e \<Rightarrow> (Err e, R)
      | Panic \<Rightarrow> (Panic, R)
      | Ok verify_key \<Rightarrow>
          if length i \<noteq> 16 then (Err (AuthFailed ''intent_id must be exactly 16 bytes''), R)
          else case server_peek_initiator R i of
             Err e \<Rightarrow> (Err e, R)
           | Panic \<Rightarrow> (Panic, R)
           | Ok initiator \<Rightarrow>
               if length signature \<noteq> 64 then (Err (AuthFailed ''Signature must be exactly 64 bytes''), R)
               else if \<not> key_verify S verify_key (accept_payload S i acceptor initiator timestamp) signature
               then (Err (AuthFailed ''AcceptConnect signature verification failed''), R)
               else case accept_intent (rs_rendezvous R) (env_rendezvous_now E) (env_random E) i acceptor candidates of
                  (Ok (init, init_candidates, token), V) \<Rightarrow>
                     (Ok (CandidateExchange i init_candidates token),
                      R\<lparr>rs_rendezvous := V,
                        rs_forwarding := authorize_pair (rs_forwarding R) (env_forwarding_now E) i token init acceptor\<rparr>)
                | (Err e, V) \<Rightarrow> (Err (InternalError e), R\<lparr>rs_rendezvous := V\<rparr>)
                | (Panic, V) \<Rightarrow> (Panic, R\<lparr>rs_rendezvous := V\<rparr>))"

definition handle_get_candidates :: "relay_server \<Rightarrow> device_id \<Rightarrow> bytes \<Rightarrow> (relay_message, relay_error) outcome" where
  "handle_get_candidates R requester i =
     (if length i \<noteq> 16 then Err (AuthFailed ''intent_id must be exactly 16 bytes'')
      else if \<not> is_registered R requester then Err (AuthFailed ''Requester is not registered'')
      else case get_target_candidates (rs_rendezvous R) i requester of
         Ok (candidates, token) \<Rightarrow> Ok (CandidateExchange i candidates token)
       | Err e \<Rightarrow> Err (InternalError e)
       | Panic \<Rightarrow> Panic)"

definition handle_poll_pending_intents :: "relay_server \<Rightarrow> relay_env \<Rightarrow> device_id \<Rightarrow> (relay_message, relay_error) outcome" where
  "handle_poll_pending_intents R E dev =
     (if \<not> is_registered R dev then Err (AuthFailed ''Device not registered'')
      else Ok (PendingIntents (map (\<lambda>(i, initiator). \<lparr>pii_from = initiator, pii_intent_id = i\<rparr>)
                 (pending_for (rs_rendezvous R) (env_rendezvous_now E) dev))))"

definition establish_payload :: "sig_lib \<Rightarrow> bytes \<Rightarrow> device_id \<Rightarrow> u64 \<Rightarrow> bytes" where
  "establish_payload S i dev timestamp = sl_sha256 S (i @ dev @ to_be_bytes 8 timestamp)"

definition handle_relay_establish :: "sig_lib \<Rightarrow> relay_server \<Rightarrow> relay_env \<Rightarrow> bytes \<Rightarrow> device_id \<Rightarrow> u64 \<Rightarrow> bytes \<Rightarrow> socket_addr option \<Rightarrow>
    (relay_message, relay_error) outcome \<times> relay_server" where
  "handle_relay_establish S R E i dev timestamp signature peer =
     (if abs_diff (env_now E) timestamp > TIMESTAMP_WINDOW_MS
      then (Err (AuthFailed ''RelayEstablishRequest timestamp out of bounds''), R)
      else if length i \<noteq> 16 then (Err (AuthFailed ''intent_id must be exactly 16 bytes''), R)
      else if length signature \<noteq> 64 then (Err (AuthFailed ''Signature must be exactly 64 bytes''), R)
      else case verify_key_for S R dev of
        Err e \<Rightarrow> (Err e, R)
      | Panic \<Rightarrow> (Panic, R)
      | Ok verify_key \<Rightarrow>
          if \<not> key_verify S verify_key (establish_payload S i dev timestamp) signature
          then (Err (AuthFailed ''RelayEstablishRequest signature verification failed''), R)
          else case peer of
             None \<Rightarrow> (Err (AuthFailed ''RelayEstablishRequest requires a known peer address''), R)
           | Some addr \<Rightarrow>
               (case update_binding (rs_forwarding R) (env_forwarding_now E) i dev addr of
                  (Ok _, F) \<Rightarrow> (Ok (RelayEstablishAck i), R\<lparr>rs_forwarding := F\<rparr>)
                | (Err e, F) \<Rightarrow> (Err (InternalError e), R\<lparr>rs_forwarding := F\<rparr>)
                | (Panic, F) \<Rightarrow> (Panic, R\<lparr>rs_forwarding := F\<rparr>)))"

fun handle_message_from :: "sig_lib \<Rightarrow> relay_server \<Rightarrow> relay_env \<Rightarrow> relay_message \<Rightarrow> socket_addr option \<Rightarrow>
    (relay_message, relay_error) outcome \<times> relay_server" where
  "handle_message_from S R E (RegisterRequest dev key timestamp signature) peer =
     handle_register S R E dev key timestamp signature peer"
| "handle_message_from S R E (DiscoverRequest target) peer = (Ok (DiscoverResponse target (is_registered R target)), R)"
| "handle_message_from S R E (ConnectIntent initiator target i candidates timestamp signature) peer =
     handle_connect_intent S R E initiator target i candidates timestamp signature"
| "handle_message_from S R E (AcceptConnect acceptor i candidates timestamp signature) peer =
     handle_accept_connect S R E acceptor i candidates timestamp signature"
| "handle_message_from S R E (GetCandidates requester i) peer = (handle_get_candidates R requester i, R)"
| "handle_message_from S R E (RelayEstablishRequest i dev timestamp signature) peer =
     handle_relay_establish S R E i dev timestamp signature peer"
| "handle_message_from S R E (PollPendingIntents dev) peer = (handle_poll_pending_intents R E dev, R)"
| "handle_message_from S R E _ peer = (Err (InternalError ''Message type not valid for server-side processing''), R)"

definition handle_message :: "sig_lib \<Rightarrow> relay_server \<Rightarrow> relay_env \<Rightarrow> relay_message \<Rightarrow> (relay_message, relay_error) outcome \<times> relay_server" where
  "handle_message S R E m = handle_message_from S R E m None"

section \<open>The datagram loop\<close>

text \<open>
  \<open>CONTROL_MAGIC\<close> is \<^verbatim>\<open>BWCTL\<close> and a byte 1.  A datagram longer than the receive buffer arrives cut off at its length.  The
  CBOR library is a pair of functions: the bytes \<open>into_writer\<close> appends to the buffer, whose result the loop ignores,
  and the decoder.
\<close>

definition CONTROL_MAGIC :: bytes where
  "CONTROL_MAGIC = [0x42, 0x57, 0x43, 0x54, 0x4C, 0x01]"

definition RELAY_HEADER_LEN :: nat where
  "RELAY_HEADER_LEN = 32"

definition MAX_DATAGRAM :: nat where
  "MAX_DATAGRAM = 1400"

record relay_cbor =
  rc_append :: "relay_message \<Rightarrow> bytes"
  rc_read :: "bytes \<Rightarrow> relay_message option"

record dev_bindings =
  db_initiator :: "socket_addr option"
  db_target :: "socket_addr option"

definition prebind_target :: "dev_bindings \<Rightarrow> socket_addr \<Rightarrow> dev_bindings" where
  "prebind_target D addr = D\<lparr>db_target := Some addr\<rparr>"

definition ascii_bytes :: "string \<Rightarrow> bytes" where
  "ascii_bytes s = map (\<lambda>c. of_nat (of_char c)) s"

definition dev_ids :: "sig_lib \<Rightarrow> relay_token \<Rightarrow> device_id \<times> device_id" where
  "dev_ids S token = (sl_sha256 S (token @ ascii_bytes '':initiator''), sl_sha256 S (token @ ascii_bytes '':target''))"

definition DEV_INTENT_ID :: intent_id where
  "DEV_INTENT_ID = replicate 16 0xEE"

definition dev_bind :: "sig_lib \<Rightarrow> dev_bindings \<Rightarrow> forwarding_table \<Rightarrow> u64 \<Rightarrow> socket_addr \<Rightarrow> relay_token \<Rightarrow> dev_bindings \<times> forwarding_table" where
  "dev_bind S D F now src token =
     (case dev_ids S token of (initiator_id, target_id) \<Rightarrow>
        if db_initiator D = Some src \<or> db_target D = Some src then (D, F)
        else if db_initiator D = None
        then (D\<lparr>db_initiator := Some src\<rparr>, snd (update_binding F now DEV_INTENT_ID initiator_id src))
        else if db_target D = None
        then (D\<lparr>db_target := Some src\<rparr>, snd (update_binding F now DEV_INTENT_ID target_id src))
        else (D, F))"

record relay_state =
  rl_server :: relay_server
  rl_dev :: dev_bindings

definition relay_start :: "sig_lib \<Rightarrow> relay_env \<Rightarrow> u64 \<Rightarrow> u64 \<Rightarrow> relay_token option \<Rightarrow> socket_addr option \<Rightarrow> (relay_state, string) outcome" where
  "relay_start S E rate expiry dev_token dev_server =
     (let R = relay_with_limits rate expiry;
          D = \<lparr>db_initiator = None, db_target = None\<rparr>;
          D1 = (case dev_server of None \<Rightarrow> D | Some addr \<Rightarrow> prebind_target D addr)
      in case dev_token of
           None \<Rightarrow> Ok \<lparr>rl_server = R, rl_dev = D1\<rparr>
         | Some token \<Rightarrow>
             (case dev_ids S token of (initiator_id, target_id) \<Rightarrow>
                let F = authorize_pair (rs_forwarding R) (env_now E) DEV_INTENT_ID token initiator_id target_id in
                (case dev_server of
                   None \<Rightarrow> Ok \<lparr>rl_server = R\<lparr>rs_forwarding := F\<rparr>, rl_dev = D1\<rparr>
                 | Some addr \<Rightarrow>
                     (case update_binding F (env_forwarding_now E) DEV_INTENT_ID target_id addr of
                        (Ok _, F') \<Rightarrow> Ok \<lparr>rl_server = R\<lparr>rs_forwarding := F'\<rparr>, rl_dev = D1\<rparr>
                      | (Err e, F') \<Rightarrow> Err (''failed to pre-bind server: '' @ e)
                      | (Panic, F') \<Rightarrow> Panic))))"

definition relay_control :: "sig_lib \<Rightarrow> relay_cbor \<Rightarrow> relay_state \<Rightarrow> relay_env \<Rightarrow> socket_addr \<Rightarrow> bytes \<Rightarrow> (socket_addr \<times> bytes) option \<times> relay_state" where
  "relay_control S C L E src body =
     (case rc_read C body of
        None \<Rightarrow> (None, L)
      | Some msg \<Rightarrow>
          (case handle_message_from S (rl_server L) E msg (Some src) of
             (Ok r, R) \<Rightarrow> (Some (src, CONTROL_MAGIC @ rc_append C r), L\<lparr>rl_server := R\<rparr>)
           | (Err e, R) \<Rightarrow> (Some (src, CONTROL_MAGIC @ rc_append C (ErrorResponse (relay_error_display e))), L\<lparr>rl_server := R\<rparr>)
           | (Panic, R) \<Rightarrow> (None, L\<lparr>rl_server := R\<rparr>)))"

definition relay_data :: "sig_lib \<Rightarrow> relay_token option \<Rightarrow> relay_state \<Rightarrow> relay_env \<Rightarrow> socket_addr \<Rightarrow> bytes \<Rightarrow> (socket_addr \<times> bytes) option \<times> relay_state" where
  "relay_data S dev_token L E src packet =
     (if length packet < RELAY_HEADER_LEN then (None, L)
      else let token = take RELAY_HEADER_LEN packet;
               (D, F) = (if dev_token = Some token
                         then dev_bind S (rl_dev L) (rs_forwarding (rl_server L)) (env_now E) src token
                         else (rl_dev L, rs_forwarding (rl_server L)));
               (dest, F') = get_destination F (env_forwarding_now E) token src (length packet)
           in (map_option (\<lambda>dst. (dst, packet)) dest,
               \<lparr>rl_server = (rl_server L)\<lparr>rs_forwarding := F'\<rparr>, rl_dev = D\<rparr>))"

definition is_control :: "bytes \<Rightarrow> bool" where
  "is_control packet \<longleftrightarrow> length packet \<ge> length CONTROL_MAGIC \<and> take (length CONTROL_MAGIC) packet = CONTROL_MAGIC"

definition relay_datagram :: "sig_lib \<Rightarrow> relay_cbor \<Rightarrow> relay_token option \<Rightarrow> relay_state \<Rightarrow> relay_env \<Rightarrow> socket_addr \<Rightarrow> bytes \<Rightarrow>
    (socket_addr \<times> bytes) option \<times> relay_state" where
  "relay_datagram S C dev_token L E src datagram =
     (let packet = take MAX_DATAGRAM datagram
      in if is_control packet then relay_control S C L E src (drop (length CONTROL_MAGIC) packet)
         else relay_data S dev_token L E src packet)"

definition run_relay :: "sig_lib \<Rightarrow> relay_cbor \<Rightarrow> relay_token option \<Rightarrow> relay_state \<Rightarrow> (relay_env \<times> socket_addr \<times> bytes) list \<Rightarrow> relay_state" where
  "run_relay S C dev_token L ds = foldl (\<lambda>L (E, src, d). snd (relay_datagram S C dev_token L E src d)) L ds"

end
