(* ===== verification/BW_Consent.thy ===== *)
theory BW_Consent
  imports BW_Relay
begin

text \<open>
  What the relay as a whole promises: after any history of datagrams, candidates, routing tokens and packets reach only
  parties that both endpoints have agreed to with signatures of their own identity keys.
\<close>

section \<open>Histories\<close>

type_synonym control_event = "relay_env \<times> socket_addr \<times> relay_message"

definition control_message :: "relay_cbor \<Rightarrow> bytes \<Rightarrow> relay_message option" where
  "control_message C d =
     (if is_control (take MAX_DATAGRAM d) then rc_read C (drop (length CONTROL_MAGIC) (take MAX_DATAGRAM d)) else None)"

definition controls :: "relay_cbor \<Rightarrow> (relay_env \<times> socket_addr \<times> bytes) list \<Rightarrow> control_event set" where
  "controls C ds = {(E, src, m). \<exists>d. (E, src, d) \<in> set ds \<and> control_message C d = Some m}"

definition signed_by :: "sig_lib \<Rightarrow> relay_env \<Rightarrow> device_id \<Rightarrow> bytes \<Rightarrow> u64 \<Rightarrow> bytes \<Rightarrow> bool" where
  "signed_by S E dev payload timestamp signature \<longleftrightarrow>
     abs_diff (env_now E) timestamp \<le> TIMESTAMP_WINDOW_MS \<and> length signature = 64 \<and>
     (\<exists>key. sl_key_valid S key \<and> sl_sha256 S key = dev \<and> sl_verify S key payload signature)"

definition asked :: "sig_lib \<Rightarrow> control_event set \<Rightarrow> bytes \<Rightarrow> device_id \<Rightarrow> device_id \<Rightarrow> candidate list \<Rightarrow> bool" where
  "asked S H i a b ca \<longleftrightarrow>
     (\<exists>E src ts sig. (E, src, ConnectIntent a b i ca ts sig) \<in> H \<and> signed_by S E a (connect_payload S i a b ts) ts sig)"

definition answered :: "sig_lib \<Rightarrow> control_event set \<Rightarrow> bytes \<Rightarrow> device_id \<Rightarrow> device_id \<Rightarrow> candidate list \<Rightarrow> relay_token \<Rightarrow> bool" where
  "answered S H i a b cb token \<longleftrightarrow>
     (\<exists>E src ts sig. (E, src, AcceptConnect b i cb ts sig) \<in> H \<and> signed_by S E b (accept_payload S i b a ts) ts sig \<and>
        env_random E = Some token)"

definition bound_by :: "sig_lib \<Rightarrow> control_event set \<Rightarrow> bytes \<Rightarrow> device_id \<Rightarrow> socket_addr \<Rightarrow> bool" where
  "bound_by S H i dev addr \<longleftrightarrow>
     (\<exists>E ts sig. (E, addr, RelayEstablishRequest i dev ts sig) \<in> H \<and> signed_by S E dev (establish_payload S i dev ts) ts sig)"

section \<open>What the registries hold\<close>

definition reg_ok :: "sig_lib \<Rightarrow> device_id \<Rightarrow> client_context \<Rightarrow> bool" where
  "reg_ok S dev ctx \<longleftrightarrow> sl_key_valid S (cc_verify_key_bytes ctx) \<and> sl_sha256 S (cc_verify_key_bytes ctx) = dev"

definition intent_ok :: "sig_lib \<Rightarrow> control_event set \<Rightarrow> bytes \<Rightarrow> pending_intent \<Rightarrow> bool" where
  "intent_ok S H i p \<longleftrightarrow> length i = 16 \<and> asked S H i (pi_initiator p) (pi_target p) (pi_initiator_candidates p) \<and>
     (\<forall>token. pi_state p = Accepted token \<longrightarrow> answered S H i (pi_initiator p) (pi_target p) (pi_target_candidates p) token)"

definition rv_inv :: "sig_lib \<Rightarrow> control_event set \<Rightarrow> relay_server \<Rightarrow> bool" where
  "rv_inv S H R \<longleftrightarrow> (\<forall>(dev, ctx) \<in> set (rs_registry R). reg_ok S dev ctx) \<and>
     (\<forall>(i, p) \<in> set (rs_rendezvous R). intent_ok S H i p)"

lemma set_update: "set (AList.update k v xs) \<subseteq> insert (k, v) (set xs)"
  by (induction xs) auto

lemma set_updateD: "x \<in> set (AList.update k v xs) \<Longrightarrow> x = (k, v) \<or> x \<in> set xs"
  using set_update [of k v xs] by auto

lemma history_mono:
  assumes "H \<subseteq> H'"
  shows "asked S H i a b ca \<Longrightarrow> asked S H' i a b ca" "answered S H i a b cb token \<Longrightarrow> answered S H' i a b cb token"
    "bound_by S H i dev addr \<Longrightarrow> bound_by S H' i dev addr"
  using assms unfolding asked_def answered_def bound_by_def by blast+

lemma intent_ok_mono: "H \<subseteq> H' \<Longrightarrow> intent_ok S H i p \<Longrightarrow> intent_ok S H' i p"
  by (auto simp: intent_ok_def intro: history_mono(1,2) [of H H'])

lemma rv_inv_mono: "H \<subseteq> H' \<Longrightarrow> rv_inv S H R \<Longrightarrow> rv_inv S H' R"
  by (auto simp: rv_inv_def intro: intent_ok_mono [of H H'])

lemma verify_key_for_Ok:
  assumes "rv_inv S H R" "verify_key_for S R dev = Ok k"
  shows "sl_key_valid S (verify_key_bytes k)" "sl_sha256 S (verify_key_bytes k) = dev"
proof -
  obtain ctx where "map_of (rs_registry R) dev = Some ctx" and k: "verify_key_from_bytes S (cc_verify_key_bytes ctx) = Some k"
    using assms(2) by (auto simp: verify_key_for_def outcome_simps split: option.splits)
  then have "reg_ok S dev ctx" using assms(1) map_of_SomeD by (fastforce simp: rv_inv_def)
  then show "sl_key_valid S (verify_key_bytes k)" "sl_sha256 S (verify_key_bytes k) = dev"
    using k by (auto simp: reg_ok_def verify_key_from_bytes_def split: if_splits)
qed

lemma verify_key_for_no_panic [simp]: "verify_key_for S R dev \<noteq> Panic"
  by (auto simp: verify_key_for_def outcome_simps split: option.splits)

lemma server_peek_Ok: "server_peek_initiator R i = Ok a \<longleftrightarrow> (\<exists>p. map_of (rs_rendezvous R) i = Some p \<and> pi_initiator p = a)"
  by (auto simp: server_peek_initiator_def registry_peek_initiator_def split: option.splits) (cases "map_of (rs_rendezvous R) i"; auto)+

lemma server_peek_no_panic [simp]: "server_peek_initiator R i \<noteq> Panic"
  by (cases "map_of (rs_rendezvous R) i") (auto simp: server_peek_initiator_def registry_peek_initiator_def)

section \<open>Handlers act only on signed requests\<close>

definition connect_signed :: "sig_lib \<Rightarrow> relay_server \<Rightarrow> relay_env \<Rightarrow> device_id \<Rightarrow> device_id \<Rightarrow> bytes \<Rightarrow> u64 \<Rightarrow> bytes \<Rightarrow> bool" where
  "connect_signed S R E a b i ts sig \<longleftrightarrow> abs_diff (env_now E) ts \<le> TIMESTAMP_WINDOW_MS \<and> is_registered R b \<and> length i = 16 \<and>
     length sig = 64 \<and> (\<exists>k. verify_key_for S R a = Ok k \<and> key_verify S k (connect_payload S i a b ts) sig)"

definition accept_signed :: "sig_lib \<Rightarrow> relay_server \<Rightarrow> relay_env \<Rightarrow> device_id \<Rightarrow> bytes \<Rightarrow> device_id \<Rightarrow> u64 \<Rightarrow> bytes \<Rightarrow> bool" where
  "accept_signed S R E b i a ts sig \<longleftrightarrow> abs_diff (env_now E) ts \<le> TIMESTAMP_WINDOW_MS \<and> length i = 16 \<and>
     length sig = 64 \<and> server_peek_initiator R i = Ok a \<and> (\<exists>k. verify_key_for S R b = Ok k \<and> key_verify S k (accept_payload S i b a ts) sig)"

definition establish_signed :: "sig_lib \<Rightarrow> relay_server \<Rightarrow> relay_env \<Rightarrow> bytes \<Rightarrow> device_id \<Rightarrow> u64 \<Rightarrow> bytes \<Rightarrow> bool" where
  "establish_signed S R E i dev ts sig \<longleftrightarrow> abs_diff (env_now E) ts \<le> TIMESTAMP_WINDOW_MS \<and> length i = 16 \<and>
     length sig = 64 \<and> (\<exists>k. verify_key_for S R dev = Ok k \<and> key_verify S k (establish_payload S i dev ts) sig)"

lemma register_intent_no_panic [simp]: "register_intent V now i a b cs \<noteq> (Panic, V')"
  by (simp add: register_intent_def Let_def)

lemma accept_intent_no_panic [simp]: "accept_intent V now rng i b cs \<noteq> (Panic, V')"
  by (auto simp: accept_intent_def Let_def split: option.splits intent_state.splits)

lemma update_binding_no_panic [simp]: "update_binding T now i dev addr \<noteq> (Panic, T')"
  by (auto simp: update_binding_def Let_def split: option.splits)

lemma connect_unsigned:
  "\<not> connect_signed S R E a b i ts sig \<Longrightarrow> snd (handle_connect_intent S R E a b i cs ts sig) = R \<and>
     fst (handle_connect_intent S R E a b i cs ts sig) \<noteq> Ok (ConnectInvite x y) \<and> fst (handle_connect_intent S R E a b i cs ts sig) \<noteq> Ok (CandidateExchange j ds t)"
  by (cases "verify_key_for S R a") (auto simp: handle_connect_intent_def connect_signed_def not_le)

lemma connect_signed_eq:
  "connect_signed S R E a b i ts sig \<Longrightarrow> handle_connect_intent S R E a b i cs ts sig =
     (case register_intent (rs_rendezvous R) (env_rendezvous_now E) i a b cs of
        (r, V) \<Rightarrow> (map_outcome (\<lambda>_. ConnectInvite a i) InternalError r, R\<lparr>rs_rendezvous := V\<rparr>))"
  by (auto simp: handle_connect_intent_def connect_signed_def not_less split: prod.splits outcome.splits)

lemma accept_unsigned:
  "\<forall>a. \<not> accept_signed S R E b i a ts sig \<Longrightarrow> snd (handle_accept_connect S R E b i cs ts sig) = R \<and>
     fst (handle_accept_connect S R E b i cs ts sig) \<noteq> Ok x"
  by (cases "verify_key_for S R b"; cases "server_peek_initiator R i") (auto simp: handle_accept_connect_def accept_signed_def not_le)

lemma accept_signed_eq:
  "accept_signed S R E b i a ts sig \<Longrightarrow> handle_accept_connect S R E b i cs ts sig =
     (case accept_intent (rs_rendezvous R) (env_rendezvous_now E) (env_random E) i b cs of
        (Ok (a', ca, token), V) \<Rightarrow> (Ok (CandidateExchange i ca token), R\<lparr>rs_rendezvous := V,
           rs_forwarding := authorize_pair (rs_forwarding R) (env_forwarding_now E) i token a' b\<rparr>)
      | (Err e, V) \<Rightarrow> (Err (InternalError e), R\<lparr>rs_rendezvous := V\<rparr>)
      | (Panic, V) \<Rightarrow> (Panic, R\<lparr>rs_rendezvous := V\<rparr>))"
  by (auto simp: handle_accept_connect_def accept_signed_def not_less)

lemma establish_unsigned:
  "\<not> establish_signed S R E i dev ts sig \<Longrightarrow> snd (handle_relay_establish S R E i dev ts sig peer) = R \<and>
     fst (handle_relay_establish S R E i dev ts sig peer) \<noteq> Ok x"
  by (cases "verify_key_for S R dev") (auto simp: handle_relay_establish_def establish_signed_def not_le)

lemma establish_signed_eq:
  "establish_signed S R E i dev ts sig \<Longrightarrow> handle_relay_establish S R E i dev ts sig (Some addr) =
     (case update_binding (rs_forwarding R) (env_forwarding_now E) i dev addr of
        (r, F) \<Rightarrow> (map_outcome (\<lambda>_. RelayEstablishAck i) InternalError r, R\<lparr>rs_forwarding := F\<rparr>))"
  by (auto simp: handle_relay_establish_def establish_signed_def not_less split: prod.splits outcome.splits)

lemma signed_by_key:
  assumes "rv_inv S H R" "verify_key_for S R dev = Ok k" "key_verify S k payload sig" "abs_diff (env_now E) ts \<le> TIMESTAMP_WINDOW_MS" "length sig = 64"
  shows "signed_by S E dev payload ts sig"
  using assms verify_key_for_Ok [OF assms(1,2)] by (auto simp: signed_by_def key_verify_def)

section \<open>The invariant of the registries\<close>

lemma register_intent_set:
  "set (snd (register_intent V now i a b cs)) \<subseteq>
     insert (i, \<lparr>pi_initiator = a, pi_target = b, pi_initiator_candidates = cs, pi_target_candidates = [], pi_state = Pending now\<rparr>) (set V)"
  by (auto simp: register_intent_def Let_def dest!: set_updateD)

lemma accept_intent_Ok:
  "accept_intent V now rng i b cs = (Ok (a, ca, token), V') \<longleftrightarrow>
     (\<exists>p t. map_of V i = Some p \<and> pi_state p = Pending t \<and> saturating_sub now t \<le> INTENT_TIMEOUT_MS \<and> pi_target p = b \<and>
        rng = Some token \<and> a = pi_initiator p \<and> ca = pi_initiator_candidates p \<and>
        V' = AList.update i (p\<lparr>pi_target_candidates := cs, pi_state := Accepted token\<rparr>) V)"
  by (auto simp: accept_intent_def Let_def split: option.splits intent_state.splits)

lemma accept_intent_Err:
  assumes "accept_intent V now rng i b cs = (Err e, V')"
  obtains "V' = V" | p where "map_of V i = Some p" "V' = AList.update i (p\<lparr>pi_state := Expired\<rparr>) V"
    | p t where "map_of V i = Some p" "pi_state p = Pending t" "V' = AList.update i (p\<lparr>pi_target_candidates := cs\<rparr>) V"
  using assms by (auto simp: accept_intent_def Let_def split: option.splits intent_state.splits if_splits)

lemma rv_inv_intent:
  "rv_inv S H R \<Longrightarrow> map_of (rs_rendezvous R) i = Some p \<Longrightarrow> intent_ok S H i p"
  using map_of_SomeD by (fastforce simp: rv_inv_def)

lemma rv_inv_update:
  "rv_inv S H R \<Longrightarrow> intent_ok S H i p \<Longrightarrow> rv_inv S H (R\<lparr>rs_rendezvous := AList.update i p (rs_rendezvous R)\<rparr>)"
  using set_update [of i p "rs_rendezvous R"] by (fastforce simp: rv_inv_def)

lemma rv_inv_forwarding [simp]: "rv_inv S H (R\<lparr>rs_forwarding := F\<rparr>) = rv_inv S H R"
  by (simp add: rv_inv_def)

lemma register_inv:
  assumes "rv_inv S H R"
  shows "rv_inv S H (snd (handle_register S R E dev key ts sig peer))"
proof -
  let ?R = "snd (handle_register S R E dev key ts sig peer)"
  have "set (rs_registry ?R) \<subseteq> set (rs_registry R) \<union> {(d, c). reg_ok S d c}"
    by (auto simp: handle_register_def Let_def reg_ok_def verify_key_from_bytes_def device_id_of_key_def dest!: set_updateD
        split: option.splits if_splits)
  moreover have "rs_rendezvous ?R = rs_rendezvous R"
    by (simp add: handle_register_def Let_def split: option.splits)
  ultimately show ?thesis using assms by (auto simp: rv_inv_def)
qed

lemma connect_inv:
  assumes inv: "rv_inv S H R" and m: "(E, src, ConnectIntent a b i cs ts sig) \<in> H"
  shows "rv_inv S H (snd (handle_connect_intent S R E a b i cs ts sig))"
proof (cases "connect_signed S R E a b i ts sig")
  case True
  let ?p = "\<lparr>pi_initiator = a, pi_target = b, pi_initiator_candidates = cs, pi_target_candidates = [], pi_state = Pending (env_rendezvous_now E)\<rparr>"
  have "signed_by S E a (connect_payload S i a b ts) ts sig"
    using True signed_by_key [OF inv] by (auto simp: connect_signed_def)
  then have "intent_ok S H i ?p" using m True by (auto simp: intent_ok_def asked_def connect_signed_def)
  then show ?thesis
    using inv register_intent_set [of "rs_rendezvous R" "env_rendezvous_now E" i a b cs]
    by (fastforce simp: connect_signed_eq [OF True] rv_inv_def split: prod.splits)
next
  case False
  then show ?thesis using inv connect_unsigned by metis
qed

lemma accept_answered:
  assumes inv: "rv_inv S H R" and m: "(E, src, AcceptConnect b i cs ts sig) \<in> H" and s: "accept_signed S R E b i a' ts sig"
    and ok: "accept_intent (rs_rendezvous R) now (env_random E) i b cs = (Ok (a, ca, token), V')"
  shows "asked S H i a b ca" "answered S H i a b cs token"
proof -
  obtain p where p: "map_of (rs_rendezvous R) i = Some p" "pi_target p = b" "env_random E = Some token"
    "a = pi_initiator p" "ca = pi_initiator_candidates p"
    using ok accept_intent_Ok by blast
  have a: "a' = a" using s p by (auto simp: accept_signed_def server_peek_Ok)
  show "asked S H i a b ca" using rv_inv_intent [OF inv p(1)] p by (simp add: intent_ok_def)
  show "answered S H i a b cs token"
    using s m p(3) signed_by_key [OF inv] unfolding accept_signed_def answered_def a by blast
qed

lemma accept_inv:
  assumes inv: "rv_inv S H R" and m: "(E, src, AcceptConnect b i cs ts sig) \<in> H"
  shows "rv_inv S H (snd (handle_accept_connect S R E b i cs ts sig))"
proof (cases "\<exists>a. accept_signed S R E b i a ts sig")
  case True
  then obtain a where s: "accept_signed S R E b i a ts sig" by blast
  obtain r V' where r: "accept_intent (rs_rendezvous R) (env_rendezvous_now E) (env_random E) i b cs = (r, V')" by fastforce
  show ?thesis
  proof (cases r)
    case (Ok x)
    then obtain a ca token where x: "r = Ok (a, ca, token)" by (cases x) auto
    obtain p where p: "map_of (rs_rendezvous R) i = Some p" "pi_target p = b" "a = pi_initiator p" "ca = pi_initiator_candidates p"
      "V' = AList.update i (p\<lparr>pi_target_candidates := cs, pi_state := Accepted token\<rparr>) (rs_rendezvous R)"
      using r unfolding x accept_intent_Ok by blast
    have "intent_ok S H i (p\<lparr>pi_target_candidates := cs, pi_state := Accepted token\<rparr>)"
      using accept_answered [OF inv m s r [unfolded x]] rv_inv_intent [OF inv p(1)] p by (simp add: intent_ok_def)
    then show ?thesis using rv_inv_update [OF inv] p(5) by (simp add: accept_signed_eq [OF s] r x rv_inv_def)
  next
    case (Err e)
    have "rv_inv S H (R\<lparr>rs_rendezvous := V'\<rparr>)"
      using r unfolding Err
      by (rule accept_intent_Err) (use inv rv_inv_intent [OF inv] in \<open>auto intro!: rv_inv_update simp: intent_ok_def\<close>)
    then show ?thesis by (simp add: accept_signed_eq [OF s] r Err)
  qed (use r in simp)
next
  case False
  then show ?thesis using inv accept_unsigned by metis
qed

lemma establish_inv: "rv_inv S H R \<Longrightarrow> rv_inv S H (snd (handle_relay_establish S R E i dev ts sig peer))"
  by (auto simp: handle_relay_establish_def split: outcome.splits option.splits prod.splits)

lemma handle_inv:
  assumes "rv_inv S H R" "(E, src, m) \<in> H"
  shows "rv_inv S H (snd (handle_message_from S R E m peer))"
  using assms by (cases m) (auto intro: register_inv connect_inv accept_inv establish_inv)

section \<open>The forwarding table acts only on consent\<close>

fun justified :: "sig_lib \<Rightarrow> control_event set \<Rightarrow> fwd_op \<Rightarrow> bool" where
  "justified S H (AuthorizeOp i token a b) \<longleftrightarrow> (\<exists>ca cb. asked S H i a b ca \<and> answered S H i a b cb token)"
| "justified S H (BindOp i dev addr) \<longleftrightarrow> bound_by S H i dev addr"
| "justified S H (PacketOp token src n) \<longleftrightarrow> n \<le> MAX_DATAGRAM"
| "justified S H _ \<longleftrightarrow> False"

definition fw_inv :: "sig_lib \<Rightarrow> control_event set \<Rightarrow> u64 \<Rightarrow> u64 \<Rightarrow> forwarding_table \<Rightarrow> bool" where
  "fw_inv S H rate expiry F \<longleftrightarrow> (\<exists>ops. F = fwd_run (with_limits rate expiry) ops \<and> (\<forall>(t, op) \<in> set ops. justified S H op))"

lemma justified_mono: "H \<subseteq> H' \<Longrightarrow> justified S H op \<Longrightarrow> justified S H' op"
  by (cases op) (auto intro: history_mono [of H H'])

lemma fw_inv_mono: "H \<subseteq> H' \<Longrightarrow> fw_inv S H rate expiry F \<Longrightarrow> fw_inv S H' rate expiry F"
  unfolding fw_inv_def using justified_mono [of H H' S] by (metis (mono_tags, lifting) case_prodD case_prodI2)

lemma fw_inv_step:
  assumes "fw_inv S H rate expiry F" "justified S H op"
  shows "fw_inv S H rate expiry (fwd_step F (t, op))"
proof -
  obtain ops where "F = fwd_run (with_limits rate expiry) ops" "\<forall>(t, op) \<in> set ops. justified S H op"
    using assms(1) by (auto simp: fw_inv_def)
  then have "fwd_step F (t, op) = fwd_run (with_limits rate expiry) (ops @ [(t, op)])" "\<forall>(t, op) \<in> set (ops @ [(t, op)]). justified S H op"
    using assms(2) by auto
  then show ?thesis unfolding fw_inv_def by blast
qed

lemma accept_fw:
  assumes fw: "fw_inv S H rate expiry (rs_forwarding R)" and inv: "rv_inv S H R" and m: "(E, src, AcceptConnect b i cs ts sig) \<in> H"
  shows "fw_inv S H rate expiry (rs_forwarding (snd (handle_accept_connect S R E b i cs ts sig)))"
proof (cases "\<exists>a. accept_signed S R E b i a ts sig")
  case True
  then obtain a where s: "accept_signed S R E b i a ts sig" by blast
  obtain r V' where r: "accept_intent (rs_rendezvous R) (env_rendezvous_now E) (env_random E) i b cs = (r, V')" by fastforce
  show ?thesis
  proof (cases r)
    case (Ok x)
    then obtain a ca token where x: "r = Ok (a, ca, token)" by (cases x) auto
    have "justified S H (AuthorizeOp i token a b)" using accept_answered [OF inv m s r [unfolded x]] by auto
    from fw_inv_step [OF fw this, of "env_forwarding_now E"] show ?thesis by (simp add: accept_signed_eq [OF s] r x)
  qed (use fw r in \<open>simp_all add: accept_signed_eq [OF s]\<close>)
next
  case False
  then show ?thesis using fw accept_unsigned by metis
qed

lemma establish_fw:
  assumes fw: "fw_inv S H rate expiry (rs_forwarding R)" and inv: "rv_inv S H R" and m: "(E, src, RelayEstablishRequest i dev ts sig) \<in> H"
  shows "fw_inv S H rate expiry (rs_forwarding (snd (handle_relay_establish S R E i dev ts sig (Some src))))"
proof (cases "establish_signed S R E i dev ts sig")
  case True
  then have "justified S H (BindOp i dev src)"
    using m signed_by_key [OF inv] unfolding establish_signed_def bound_by_def justified.simps by blast
  from fw_inv_step [OF fw this, of "env_forwarding_now E"] show ?thesis
    by (simp add: establish_signed_eq [OF True] split: prod.splits) (metis snd_conv)
next
  case False
  then show ?thesis using fw establish_unsigned by metis
qed

lemma handle_forwarding_frame [simp]:
  "rs_forwarding (snd (handle_register S R E dev key ts sig peer)) = rs_forwarding R"
  "rs_forwarding (snd (handle_connect_intent S R E a b i cs ts sig)) = rs_forwarding R"
  by (auto simp: handle_register_def handle_connect_intent_def Let_def split: option.splits outcome.splits prod.splits)

lemma handle_fw:
  assumes "fw_inv S H rate expiry (rs_forwarding R)" "rv_inv S H R" "(E, src, m) \<in> H"
  shows "fw_inv S H rate expiry (rs_forwarding (snd (handle_message_from S R E m (Some src))))"
  using assms by (cases m) (auto intro: accept_fw establish_fw)

section \<open>The invariant of the loop\<close>

definition loop_inv :: "sig_lib \<Rightarrow> control_event set \<Rightarrow> u64 \<Rightarrow> u64 \<Rightarrow> relay_state \<Rightarrow> bool" where
  "loop_inv S H rate expiry L \<longleftrightarrow> rv_inv S H (rl_server L) \<and> fw_inv S H rate expiry (rs_forwarding (rl_server L))"

lemma relay_control_server:
  "rl_server (snd (relay_control S C L E src body)) =
     (case rc_read C body of None \<Rightarrow> rl_server L | Some m \<Rightarrow> snd (handle_message_from S (rl_server L) E m (Some src)))"
  by (simp add: relay_control_def split: option.splits prod.splits outcome.splits)

lemma relay_data_server:
  "rl_server (snd (relay_data S None L E src packet)) = (if length packet < RELAY_HEADER_LEN then rl_server L
     else (rl_server L)\<lparr>rs_forwarding := fwd_step (rs_forwarding (rl_server L))
       (env_forwarding_now E, PacketOp (take RELAY_HEADER_LEN packet) src (length packet))\<rparr>)"
  by (simp add: relay_data_def Let_def split: prod.splits)

lemma loop_step:
  assumes inv: "loop_inv S (controls C ds) rate expiry L"
  shows "loop_inv S (controls C (ds @ [(E, src, d)])) rate expiry (snd (relay_datagram S C None L E src d))"
proof -
  let ?H = "controls C (ds @ [(E, src, d)])"
  have sub: "controls C ds \<subseteq> ?H" by (auto simp: controls_def)
  have old: "rv_inv S ?H (rl_server L)" "fw_inv S ?H rate expiry (rs_forwarding (rl_server L))"
    using inv rv_inv_mono [OF sub] fw_inv_mono [OF sub] by (auto simp: loop_inv_def)
  show ?thesis
  proof (cases "is_control (take MAX_DATAGRAM d)")
    case True
    have "(E, src, m) \<in> ?H" if "rc_read C (drop (length CONTROL_MAGIC) (take MAX_DATAGRAM d)) = Some m" for m
      using that True by (auto simp: controls_def control_message_def)
    then show ?thesis using old handle_inv handle_fw True
      by (auto simp: loop_inv_def relay_datagram_def Let_def relay_control_server split: option.splits)
  next
    case False
    have "justified S ?H (PacketOp token src (length (take MAX_DATAGRAM d)))" for token by simp
    then show ?thesis using old fw_inv_step False
      by (auto simp: loop_inv_def relay_datagram_def Let_def relay_data_server simp del: fwd_step.simps justified.simps)
  qed
qed

lemma loop_run:
  "loop_inv S (controls C ds) rate expiry (run_relay S C None \<lparr>rl_server = relay_with_limits rate expiry, rl_dev = D\<rparr> ds)"
proof (induction ds rule: rev_induct)
  case Nil
  have "fw_inv S H rate expiry (with_limits rate expiry)" for H unfolding fw_inv_def by (rule exI [of _ "[]"]) simp
  then show ?case by (simp add: loop_inv_def rv_inv_def relay_with_limits_def rendezvous_new_def run_relay_def controls_def)
next
  case (snoc x ds)
  obtain E src d where "x = (E, src, d)" by (cases x)
  then show ?case using loop_step [OF snoc.IH, of E src d] by (simp add: run_relay_def)
qed

section \<open>Properties\<close>

lemma get_candidates_Ok:
  "handle_get_candidates R a i = Ok (CandidateExchange j cs token) \<longleftrightarrow> j = i \<and> length i = 16 \<and> is_registered R a \<and>
     (\<exists>p. map_of (rs_rendezvous R) i = Some p \<and> pi_state p = Accepted token \<and> pi_initiator p = a \<and> pi_target_candidates p = cs)"
  by (auto simp: handle_get_candidates_def get_target_candidates_def split: option.splits intent_state.splits)

text \<open>C5: Candidate addresses and routing tokens are released only after both endpoints consented.  After any history of datagrams,
  when a control message is answered with a \<open>CandidateExchange\<close>, the history with this message holds a fresh
  \<open>ConnectIntent\<close> of a device \<open>a\<close> for a device \<open>b\<close> and a fresh \<open>AcceptConnect\<close> of \<open>b\<close>, both for this intent, each carrying a
  signature that verifies under a key whose SHA-256 is the sender's identity; the routing token is the one drawn for
  that acceptance, and the candidates are those of \<open>a\<close> in the answer to the acceptance and those of \<open>b\<close> in the
  answer to \<open>GetCandidates\<close>.\<close>
theorem candidates_require_consent:
  assumes "L = run_relay S C None \<lparr>rl_server = relay_with_limits rate expiry, rl_dev = D\<rparr> ds"
    and "fst (handle_message_from S (rl_server L) E m (Some src)) = Ok (CandidateExchange i cs token)"
  shows "\<exists>a b ca cb. asked S (insert (E, src, m) (controls C ds)) i a b ca \<and> answered S (insert (E, src, m) (controls C ds)) i a b cb token \<and>
    ((\<exists>ts sig. m = AcceptConnect b i cb ts sig \<and> cs = ca) \<or> (m = GetCandidates a i \<and> cs = cb))"
proof -
  let ?H = "insert (E, src, m) (controls C ds)" and ?R = "rl_server L"
  have inv: "rv_inv S ?H ?R"
    using loop_run [of S C ds rate expiry D] rv_inv_mono [of "controls C ds" ?H] assms(1) by (auto simp: loop_inv_def)
  consider (acc) b cb ts sig j where "m = AcceptConnect b j cb ts sig" | (get) a j where "m = GetCandidates a j"
    using assms(2) connect_unsigned connect_signed_eq
    by (cases m) (auto simp: handle_register_def handle_connect_intent_def handle_relay_establish_def handle_poll_pending_intents_def Let_def
        split: option.splits outcome.splits prod.splits if_splits)
  then show ?thesis
  proof cases
    case acc
    have "\<exists>a. accept_signed S ?R E b j a ts sig" using accept_unsigned assms(2) acc by fastforce
    then obtain a' where s: "accept_signed S ?R E b j a' ts sig" by blast
    obtain a ca V where r: "accept_intent (rs_rendezvous ?R) (env_rendezvous_now E) (env_random E) j b cb = (Ok (a, ca, token), V)"
      and j: "j = i" "cs = ca"
      using assms(2) by (auto simp: acc accept_signed_eq [OF s] split: prod.splits outcome.splits)
    have "asked S ?H i a b ca \<and> answered S ?H i a b cb token \<and> m = AcceptConnect b i cb ts sig \<and> cs = ca"
      using accept_answered [OF inv _ s r, of src] acc j by simp
    then show ?thesis by blast
  next
    case get
    then have "handle_get_candidates ?R a j = Ok (CandidateExchange i cs token)" using assms(2) by simp
    then obtain p where "map_of (rs_rendezvous ?R) i = Some p" "pi_state p = Accepted token" "pi_initiator p = a" "pi_target_candidates p = cs" "j = i"
      unfolding get_candidates_Ok by blast
    then have "asked S ?H i a (pi_target p) (pi_initiator_candidates p) \<and> answered S ?H i a (pi_target p) cs token \<and> m = GetCandidates a i"
      using rv_inv_intent [OF inv, of i p] get by (auto simp: intent_ok_def)
    then show ?thesis by blast
  qed
qed

text \<open>C2: The data plane forwards only between two endpoints that consented to each other.  After any history of datagrams, when a data
  datagram from \<open>src\<close> is passed on to \<open>dst\<close>, then its bytes are unchanged up to the size of the receive buffer, its
  routing token was drawn for an accepted intent, and \<open>src\<close> and \<open>dst\<close> are the source addresses of establish requests that
  the two devices of that intent signed with their identity keys.\<close>
theorem forwarding_requires_consent:
  assumes "L = run_relay S C None \<lparr>rl_server = relay_with_limits rate expiry, rl_dev = D\<rparr> ds"
    and "fst (relay_datagram S C None L E src d) = Some (dst, out)" "\<not> is_control (take MAX_DATAGRAM d)"
  shows "out = take MAX_DATAGRAM d \<and> length d \<ge> RELAY_HEADER_LEN \<and>
    (\<exists>i a b x y. (\<exists>ca cb token. asked S (controls C ds) i a b ca \<and> answered S (controls C ds) i a b cb token) \<and>
       (\<exists>a' b' ca cb. asked S (controls C ds) i a' b' ca \<and> answered S (controls C ds) i a' b' cb (take RELAY_HEADER_LEN d)) \<and>
       bound_by S (controls C ds) i a x \<and> bound_by S (controls C ds) i b y \<and> (src, dst) \<in> {(x, y), (y, x)})"
proof -
  let ?H = "controls C ds" and ?F = "rs_forwarding (rl_server L)" and ?p = "take MAX_DATAGRAM d" and ?now = "env_forwarding_now E"
  let ?token = "take RELAY_HEADER_LEN ?p"
  have len: "RELAY_HEADER_LEN \<le> length ?p" and out: "out = ?p" and dst: "fst (get_destination ?F ?now ?token src (length ?p)) = Some dst"
    using assms(2,3) by (auto simp: relay_datagram_def relay_data_def Let_def not_less split: if_splits prod.splits)
  obtain ops where F: "?F = fwd_run (with_limits rate expiry) ops" and ops: "\<forall>(t, op) \<in> set ops. justified S ?H op"
    using loop_run [of S C ds rate expiry D] assms(1) by (auto simp: loop_inv_def fw_inv_def)
  have "packet_fits MAX_DATAGRAM op" if "justified S ?H op" for op using that by (cases op) auto
  then have "\<forall>(t, op) \<in> set ops. packet_fits MAX_DATAGRAM op" using ops by fast
  then have inv: "table_inv MAX_DATAGRAM ops ?F" unfolding F by (intro table_inv_run) (simp add: MAX_DATAGRAM_def)
  obtain i c where f: "forwards ?F ?now ?token src (length ?p) i c dst" using dst forwards_iff by blast
  then obtain x y where xy: "eb_addr (fc_initiator c) = Some x" "eb_addr (fc_target c) = Some y" "(src, dst) \<in> {(x, y), (y, x)}"
    and c: "map_of (ft_contexts ?F) i = Some c" "map_of (ft_token_index ?F) ?token = Some i"
    by (auto simp: forwards_def)
  have J: "justified S ?H op" if "(t, op) \<in> set ops" for t op using ops that by blast
  have tr: "traced ops (ft_session_expiry_ms ?F) i c" and tok: "\<exists>t a b. (t, AuthorizeOp i ?token a b) \<in> set ops"
    using inv c by (auto simp: table_inv_def ctx_inv_def)
  have "bound_by S ?H i (eb_device_id (fc_initiator c)) x" "bound_by S ?H i (eb_device_id (fc_target c)) y"
    using tr xy J unfolding traced_def by (metis justified.simps(2))+
  moreover have "justified S ?H (AuthorizeOp i (fc_token c) (eb_device_id (fc_initiator c)) (eb_device_id (fc_target c)))"
    using tr J unfolding traced_def by blast
  moreover have "\<exists>a b. justified S ?H (AuthorizeOp i ?token a b)" using tok J by blast
  then have "\<exists>a b. justified S ?H (AuthorizeOp i (take RELAY_HEADER_LEN d) a b)"
    by (simp add: RELAY_HEADER_LEN_def MAX_DATAGRAM_def min_def)
  moreover have "RELAY_HEADER_LEN \<le> length d" using len by simp
  ultimately show ?thesis using xy(3) out unfolding justified.simps by blast
qed

end
