(* ===== verification/BW_RelayLive.thy ===== *)
theory BW_RelayLive
  imports BW_Consent
begin

text \<open>
  The relay keeps its promise: a rendezvous of two registered devices succeeds, up to the first packet on the data
  plane.  The second part shows where its protection ends.
\<close>

section \<open>A rendezvous step by step\<close>

lemma verify_key_for_frame [simp]:
  "verify_key_for S (R\<lparr>rs_rendezvous := V\<rparr>) dev = verify_key_for S R dev"
  "verify_key_for S (R\<lparr>rs_forwarding := F\<rparr>) dev = verify_key_for S R dev"
  by (simp_all add: verify_key_for_def)

lemma signed_frame [simp]:
  "establish_signed S (R\<lparr>rs_rendezvous := V\<rparr>) E i dev ts sig = establish_signed S R E i dev ts sig"
  "establish_signed S (R\<lparr>rs_forwarding := F\<rparr>) E i dev ts sig = establish_signed S R E i dev ts sig"
  by (simp_all add: establish_signed_def)

lemma is_registered_frame [simp]:
  "is_registered (R\<lparr>rs_rendezvous := V\<rparr>) = is_registered R" "is_registered (R\<lparr>rs_forwarding := F\<rparr>) = is_registered R"
  by (simp_all add: is_registered_def fun_eq_iff)

lemma verify_key_for_registered: "verify_key_for S R dev = Ok k \<Longrightarrow> is_registered R dev"
  by (auto simp: verify_key_for_def is_registered_def split: option.splits)

definition pending_with :: "device_id \<Rightarrow> device_id \<Rightarrow> candidate list \<Rightarrow> u64 \<Rightarrow> pending_intent" where
  "pending_with a b ca t = \<lparr>pi_initiator = a, pi_target = b, pi_initiator_candidates = ca, pi_target_candidates = [], pi_state = Pending t\<rparr>"

lemma connect_succeeds:
  assumes "connect_signed S R E a b i ts sig" "length (rs_rendezvous R) < MAX_INTENTS" "map_of (rs_rendezvous R) i = None"
  shows "\<exists>V. handle_connect_intent S R E a b i ca ts sig = (Ok (ConnectInvite a i), R\<lparr>rs_rendezvous := V\<rparr>) \<and>
    map_of V i = Some (pending_with a b ca (env_rendezvous_now E))"
proof -
  let ?K = "\<lambda>(_, p). keep_intent (saturating_sub (env_rendezvous_now E) INTENT_TIMEOUT_MS) p"
  have "length (filter ?K (rs_rendezvous R)) < MAX_INTENTS" using assms(2) le_less_trans length_filter_le by blast
  moreover have "map_of (filter ?K (rs_rendezvous R)) i = None" using assms(3) by (auto simp: map_of_eq_None_iff)
  ultimately show ?thesis
    by (simp add: connect_signed_eq [OF assms(1)] register_intent_def Let_def pending_with_def)
      (rule exI, rule conjI, rule refl, simp add: update_conv')
qed

lemma accept_succeeds:
  assumes "map_of (rs_rendezvous R) i = Some (pending_with a b ca t)" "accept_signed S R E b i a ts sig"
    and "saturating_sub (env_rendezvous_now E) t \<le> INTENT_TIMEOUT_MS" "env_random E = Some token"
  shows "\<exists>V p. handle_accept_connect S R E b i cb ts sig = (Ok (CandidateExchange i ca token), R\<lparr>rs_rendezvous := V,
      rs_forwarding := authorize_pair (rs_forwarding R) (env_forwarding_now E) i token a b\<rparr>) \<and>
    map_of V i = Some p \<and> pi_state p = Accepted token \<and> pi_initiator p = a \<and> pi_target_candidates p = cb"
  using assms by (simp add: accept_signed_eq [OF assms(2)] accept_intent_def Let_def pending_with_def not_less)
    (rule exI, rule conjI, rule refl, simp add: update_conv')

section \<open>The data plane of a fresh session\<close>

definition times_ok :: "u64 \<Rightarrow> u64 \<Rightarrow> u64 list \<Rightarrow> bool" where
  "times_ok t0 expiry ts \<longleftrightarrow> unat t0 + unat expiry < 2 ^ 64 \<and>
     (\<forall>t \<in> set ts. unat t < unat t0 + unat expiry \<and> unat t \<le> unat t0 + 30000)"

lemma fresh_binds:
  assumes "a \<noteq> b" "times_ok t0 (ft_session_expiry_ms T) [t1, t2]" "T1 = authorize_pair T t0 i token a b" "unat t0 \<le> unat t1"
    and "T2 = snd (update_binding T1 t1 i a x)" "T3 = snd (update_binding T2 t2 i b y)"
  shows "fst (update_binding T1 t1 i a x) = Ok () \<and> fst (update_binding T2 t2 i b y) = Ok () \<and>
    map_of (ft_token_index T3) token = Some i \<and> ft_failed_lookups T3 = ft_failed_lookups T \<and> ft_rate_limit T3 = ft_rate_limit T \<and>
    (\<exists>c. map_of (ft_contexts T3) i = Some c \<and> fc_state c = RelayActive \<and> eb_addr (fc_initiator c) = Some x \<and> eb_addr (fc_target c) = Some y \<and>
       fc_expires_at_ms c = t0 + ft_session_expiry_ms T \<and> fc_bytes_forwarded c = 0 \<and> fc_last_active_ms c = t2 \<and>
       fc_rate_bucket c = \<lparr>rb_tokens = f64_of_u64 (ft_rate_limit T), rb_last_refill_ms = t0\<rparr>)"
proof -
  have e: "unat (t0 + ft_session_expiry_ms T) = unat t0 + unat (ft_session_expiry_ms T)"
    using assms(2) by (intro unat_add_no_overflow) (simp add: times_ok_def)
  have "\<not> t1 \<ge> t0 + ft_session_expiry_ms T" "\<not> t2 \<ge> t0 + ft_session_expiry_ms T"
    "\<not> saturating_sub t1 t0 > IDLE_TIMEOUT_MS" "\<not> saturating_sub t2 t1 > IDLE_TIMEOUT_MS"
    using assms(2,4) by (auto simp: times_ok_def word_le_nat_alt e saturating_sub_less_iff IDLE_TIMEOUT_MS_def)
  then show ?thesis
    using assms(1) unfolding assms(3,5,6) by (simp add: authorize_pair_def update_binding_def Let_def update_conv')
qed

lemma full_bucket:
  assumes "n \<le> unat rate" "unat rate < 2 ^ 53"
  shows "\<not> rb_tokens (refill rate now \<lparr>rb_tokens = f64_of_u64 rate, rb_last_refill_ms = t\<rparr>) < f64 (of_nat n)"
proof -
  let ?d = "f64 (f64 (f64_of_u64 (saturating_sub now t) / 1000) * f64_of_u64 rate)"
  have n: "f64 (of_nat n) = of_nat n" using f64_nat assms by simp
  have r: "(of_nat n :: rat) \<le> f64_of_u64 rate"
    unfolding f64_of_u64_exact [OF assms(2)] of_nat_le_iff by (rule assms(1))
  have "0 \<le> ?d" by (intro f64_nonneg mult_nonneg_nonneg divide_nonneg_nonneg) simp_all
  then have "of_nat n \<le> f64 (f64_of_u64 rate + ?d)"
    using assms r by (intro f64_ge_nat add_increasing2) simp_all
  then show ?thesis using r by (simp add: refill_def Let_def n not_less)
qed

lemma fresh_forwards:
  assumes "map_of (ft_failed_lookups T) (ip x) = None" "map_of (ft_token_index T) token = Some i" "map_of (ft_contexts T) i = Some c"
    and "fc_state c = RelayActive" "eb_addr (fc_initiator c) = Some x" "eb_addr (fc_target c) = Some y" "fc_bytes_forwarded c = 0"
    and "now < fc_expires_at_ms c" "saturating_sub now (fc_last_active_ms c) \<le> IDLE_TIMEOUT_MS"
    and "fc_rate_bucket c = \<lparr>rb_tokens = f64_of_u64 (ft_rate_limit T), rb_last_refill_ms = t\<rparr>" "n \<le> unat (ft_rate_limit T)" "unat (ft_rate_limit T) < 2 ^ 53"
  shows "fst (get_destination T now token x n) = Some y"
  using assms full_bucket [OF assms(11,12), of now t]
  by (simp add: get_destination_def is_blocklisted_def Let_def SESSION_BYTE_CAP_def not_le not_less)

lemma rendezvous_steps:
  assumes c: "connect_signed S R E1 a b i ts1 sig1" and room: "length (rs_rendezvous R) < MAX_INTENTS" "map_of (rs_rendezvous R) i = None"
    and ac: "verify_key_for S R b = Ok kb" "key_verify S kb (accept_payload S i b a ts2) sig2" "length sig2 = 64"
      "abs_diff (env_now E2) ts2 \<le> TIMESTAMP_WINDOW_MS" "env_random E2 = Some token"
      "saturating_sub (env_rendezvous_now E2) (env_rendezvous_now E1) \<le> INTENT_TIMEOUT_MS"
    and est: "establish_signed S R E4 i a ts4 sig4" "establish_signed S R E5 i b ts5 sig5" "a \<noteq> b"
    and tm: "times_ok (env_forwarding_now E2) (ft_session_expiry_ms (rs_forwarding R)) [env_forwarding_now E4, env_forwarding_now E5, now]"
      "unat (env_forwarding_now E2) \<le> unat (env_forwarding_now E4)" "unat (env_forwarding_now E2) \<le> unat (env_forwarding_now E5)"
    and pk: "map_of (ft_failed_lookups (rs_forwarding R)) (ip x) = None" "n \<le> unat (ft_rate_limit (rs_forwarding R))"
      "unat (ft_rate_limit (rs_forwarding R)) < 2 ^ 53"
    and run: "handle_message_from S R E1 (ConnectIntent a b i ca ts1 sig1) p1 = (r1, R1)"
      "handle_message_from S R1 E2 (AcceptConnect b i cb ts2 sig2) p2 = (r2, R2)"
      "handle_message_from S R2 E3 (GetCandidates a i) p3 = (r3, R3)"
      "handle_message_from S R3 E4 (RelayEstablishRequest i a ts4 sig4) (Some x) = (r4, R4)"
      "handle_message_from S R4 E5 (RelayEstablishRequest i b ts5 sig5) (Some y) = (r5, R5)"
  shows "r1 = Ok (ConnectInvite a i) \<and> r2 = Ok (CandidateExchange i ca token) \<and> r3 = Ok (CandidateExchange i cb token) \<and>
    r4 = Ok (RelayEstablishAck i) \<and> r5 = Ok (RelayEstablishAck i) \<and> fst (get_destination (rs_forwarding R5) now token x n) = Some y"
proof -
  let ?T = "rs_forwarding R" and ?t0 = "env_forwarding_now E2"
  have i: "length i = 16" and reg: "is_registered R a"
    using c verify_key_for_registered by (auto simp: connect_signed_def)
  obtain V1 where 1: "r1 = Ok (ConnectInvite a i)" "R1 = R\<lparr>rs_rendezvous := V1\<rparr>" "map_of V1 i = Some (pending_with a b ca (env_rendezvous_now E1))"
    using connect_succeeds [OF c room, of ca] run(1) by auto
  have "accept_signed S R1 E2 b i a ts2 sig2"
    using ac i 1 by (auto simp: accept_signed_def server_peek_Ok pending_with_def)
  then obtain V2 p where 2: "r2 = Ok (CandidateExchange i ca token)" "R2 = R\<lparr>rs_rendezvous := V2, rs_forwarding := authorize_pair ?T ?t0 i token a b\<rparr>"
    and p: "map_of V2 i = Some p" "pi_state p = Accepted token" "pi_initiator p = a" "pi_target_candidates p = cb"
    using accept_succeeds [of R1 i a b ca "env_rendezvous_now E1" S E2 ts2 sig2 token cb] ac(5,6) 1 run(2) by auto
  have R3: "r3 = handle_get_candidates R2 a i" "R3 = R2" using run(3) by auto
  have 3: "r3 = Ok (CandidateExchange i cb token)" unfolding R3(1) get_candidates_Ok using p i reg by (simp add: 2)
  let ?T1 = "authorize_pair ?T ?t0 i token a b"
  let ?T2 = "snd (update_binding ?T1 (env_forwarding_now E4) i a x)"
  let ?T3 = "snd (update_binding ?T2 (env_forwarding_now E5) i b y)"
  have tm': "times_ok ?t0 (ft_session_expiry_ms ?T) [env_forwarding_now E4, env_forwarding_now E5]" using tm(1) by (simp add: times_ok_def)
  note B = fresh_binds [OF est(3) tm' refl tm(2) refl refl, of i token x y]
  have 4: "r4 = Ok (RelayEstablishAck i)" "R4 = R2\<lparr>rs_forwarding := ?T2\<rparr>"
    using run(4) B est(1) by (simp_all add: R3(2) 2(2) establish_signed_eq split: prod.splits)
  have 5: "r5 = Ok (RelayEstablishAck i)" "rs_forwarding R5 = ?T3"
    using run(5) B est(2) by (auto simp add: 4(2) 2(2) establish_signed_eq split: prod.splits)
  have "now < ?t0 + ft_session_expiry_ms ?T" "saturating_sub now (env_forwarding_now E5) \<le> IDLE_TIMEOUT_MS"
    using tm unat_add_no_overflow [of ?t0 "ft_session_expiry_ms ?T"]
    by (auto simp: times_ok_def word_less_nat_alt saturating_sub_le_iff IDLE_TIMEOUT_MS_def)
  then have "fst (get_destination ?T3 now token x n) = Some y"
    using B pk by (auto intro: fresh_forwards)
  then show ?thesis using 1 2 3 4 5 by simp
qed

text \<open>A rendezvous succeeds.  When two registered devices send correctly signed and timely messages, the registry has room and
  the identifier is unused, then the intent is announced, its acceptance returns the initiator's candidates with a
  routing token, the initiator gets the acceptor's candidates with the same token, both devices can bind their
  addresses, and a packet of up to one second of the rate limit that the initiator sends is routed to the acceptor.\<close>
theorem rendezvous_connects:
  assumes c: "connect_signed S R E1 a b i ts1 sig1" and room: "length (rs_rendezvous R) < MAX_INTENTS" "map_of (rs_rendezvous R) i = None"
    and ac: "verify_key_for S R b = Ok kb" "key_verify S kb (accept_payload S i b a ts2) sig2" "length sig2 = 64"
      "abs_diff (env_now E2) ts2 \<le> TIMESTAMP_WINDOW_MS" "env_random E2 = Some token"
      "saturating_sub (env_rendezvous_now E2) (env_rendezvous_now E1) \<le> INTENT_TIMEOUT_MS"
    and est: "establish_signed S R E4 i a ts4 sig4" "establish_signed S R E5 i b ts5 sig5" "a \<noteq> b"
    and tm: "times_ok (env_forwarding_now E2) (ft_session_expiry_ms (rs_forwarding R)) [env_forwarding_now E4, env_forwarding_now E5, now]"
      "unat (env_forwarding_now E2) \<le> unat (env_forwarding_now E4)" "unat (env_forwarding_now E2) \<le> unat (env_forwarding_now E5)"
    and pk: "map_of (ft_failed_lookups (rs_forwarding R)) (ip x) = None" "n \<le> unat (ft_rate_limit (rs_forwarding R))"
      "unat (ft_rate_limit (rs_forwarding R)) < 2 ^ 53"
    and run: "handle_message_from S R E1 (ConnectIntent a b i ca ts1 sig1) p1 = (r1, R1)"
      "handle_message_from S R1 E2 (AcceptConnect b i cb ts2 sig2) p2 = (r2, R2)"
      "handle_message_from S R2 E3 (GetCandidates a i) p3 = (r3, R3)"
      "handle_message_from S R3 E4 (RelayEstablishRequest i a ts4 sig4) (Some x) = (r4, R4)"
      "handle_message_from S R4 E5 (RelayEstablishRequest i b ts5 sig5) (Some y) = (r5, R5)"
  shows "r1 = Ok (ConnectInvite a i) \<and> r2 = Ok (CandidateExchange i ca token) \<and> r3 = Ok (CandidateExchange i cb token) \<and>
    r4 = Ok (RelayEstablishAck i) \<and> r5 = Ok (RelayEstablishAck i) \<and> fst (get_destination (rs_forwarding R5) now token x n) = Some y"
  by (rule rendezvous_steps [OF assms])

section \<open>A concrete relay\<close>

definition demo_sign :: "bytes \<Rightarrow> bytes \<Rightarrow> bytes" where
  "demo_sign k m = take 64 (k @ m @ replicate 64 0)"

definition demo_sig :: sig_lib where
  "demo_sig = \<lparr>sl_sha256 = \<lambda>bs. bs, sl_key_valid = \<lambda>k. k \<noteq> [], sl_verify = \<lambda>k m s. s = demo_sign k m\<rparr>"

lemma length_demo_sign [simp]: "length (demo_sign k m) = 64"
  by (simp add: demo_sign_def)

definition demo_env :: relay_env where
  "demo_env = \<lparr>env_now = 5, env_rendezvous_now = 5, env_forwarding_now = 5, env_random = Some (replicate 32 9)\<rparr>"

definition demo_intent :: bytes where
  "demo_intent = replicate 16 1"

definition demo_register :: "u8 \<Rightarrow> relay_message" where
  "demo_register x = RegisterRequest [x] [x] 5 (demo_sign [x] (register_payload demo_sig [x] [x] 5))"

definition demo_connect :: relay_message where
  "demo_connect = ConnectIntent [10] [20] demo_intent [cand_host demo_a] 5 (demo_sign [10] (connect_payload demo_sig demo_intent [10] [20] 5))"

definition demo_accept :: relay_message where
  "demo_accept = AcceptConnect [20] demo_intent [cand_host demo_b] 5 (demo_sign [20] (accept_payload demo_sig demo_intent [20] [10] 5))"

definition demo_establish :: "u8 \<Rightarrow> relay_message" where
  "demo_establish x = RelayEstablishRequest demo_intent [x] 5 (demo_sign [x] (establish_payload demo_sig demo_intent [x] 5))"

definition demo_cbor :: relay_cbor where
  "demo_cbor = \<lparr>rc_append = \<lambda>_. [], rc_read = map_of [([1], demo_register 10), ([2], demo_register 20), ([3], demo_connect),
     ([4], demo_accept), ([5], demo_establish 10), ([6], demo_establish 20)]\<rparr>"

definition demo_datagrams :: "(relay_env \<times> socket_addr \<times> bytes) list" where
  "demo_datagrams = [(demo_env, demo_a, CONTROL_MAGIC @ [1]), (demo_env, demo_b, CONTROL_MAGIC @ [2]), (demo_env, demo_a, CONTROL_MAGIC @ [3]),
     (demo_env, demo_b, CONTROL_MAGIC @ [4]), (demo_env, demo_a, CONTROL_MAGIC @ [5]), (demo_env, demo_b, CONTROL_MAGIC @ [6])]"

definition demo_start :: relay_state where
  "demo_start = \<lparr>rl_server = relay_with_limits 625000 120000, rl_dev = \<lparr>db_initiator = None, db_target = None\<rparr>\<rparr>"

definition demo_devices :: relay_server where
  "demo_devices = (relay_with_limits 625000 120000)\<lparr>rs_registry :=
     [([10], \<lparr>cc_session_id = 1, cc_last_seen = 5, cc_verify_key_bytes = [10], cc_server_reflexive_addr = Some demo_a\<rparr>),
      ([20], \<lparr>cc_session_id = 2, cc_last_seen = 5, cc_verify_key_bytes = [20], cc_server_reflexive_addr = Some demo_b\<rparr>)],
     rs_next_session_id := 3\<rparr>"

lemma control_step:
  assumes "rc_read C body = Some m" "length body \<le> 1394"
  shows "rl_server (snd (relay_datagram S C dev L E src (CONTROL_MAGIC @ body))) = snd (handle_message_from S (rl_server L) E m (Some src))"
proof -
  have "take MAX_DATAGRAM (CONTROL_MAGIC @ body) = CONTROL_MAGIC @ body" using assms(2) by (simp add: MAX_DATAGRAM_def CONTROL_MAGIC_def)
  then show ?thesis by (simp add: relay_datagram_def Let_def is_control_def relay_control_server assms(1))
qed

lemma demo_registered:
  "snd (handle_message_from demo_sig (snd (handle_message_from demo_sig (relay_with_limits 625000 120000) demo_env (demo_register 10) (Some demo_a)))
     demo_env (demo_register 20) (Some demo_b)) = demo_devices"
  by (simp add: demo_register_def handle_register_def demo_env_def demo_sig_def verify_key_from_bytes_def device_id_of_key_def key_verify_def
      abs_diff_def TIMESTAMP_WINDOW_MS_def relay_with_limits_def Let_def MAX_REGISTRATIONS_def demo_devices_def)

lemma demo_signed:
  "connect_signed demo_sig demo_devices demo_env [10] [20] demo_intent 5 (demo_sign [10] (connect_payload demo_sig demo_intent [10] [20] 5))"
  "establish_signed demo_sig demo_devices demo_env demo_intent [10] 5 (demo_sign [10] (establish_payload demo_sig demo_intent [10] 5))"
  "establish_signed demo_sig demo_devices demo_env demo_intent [20] 5 (demo_sign [20] (establish_payload demo_sig demo_intent [20] 5))"
  "verify_key_for demo_sig demo_devices [20] = Ok (VerifyKey [20])"
  "key_verify demo_sig (VerifyKey [20]) p (demo_sign [20] p)"
  by (simp_all add: connect_signed_def establish_signed_def demo_devices_def demo_sig_def demo_env_def demo_intent_def verify_key_for_def
      verify_key_from_bytes_def key_verify_def abs_diff_def is_registered_def)

theorem rendezvous_connects_witness:
  "\<exists>R1 R2 R3 R4 R5.
    handle_message_from demo_sig demo_devices demo_env demo_connect None = (Ok (ConnectInvite [10] demo_intent), R1) \<and>
    handle_message_from demo_sig R1 demo_env demo_accept None = (Ok (CandidateExchange demo_intent [cand_host demo_a] (replicate 32 9)), R2) \<and>
    handle_message_from demo_sig R2 demo_env (GetCandidates [10] demo_intent) None = (Ok (CandidateExchange demo_intent [cand_host demo_b] (replicate 32 9)), R3) \<and>
    handle_message_from demo_sig R3 demo_env (demo_establish 10) (Some demo_a) = (Ok (RelayEstablishAck demo_intent), R4) \<and>
    handle_message_from demo_sig R4 demo_env (demo_establish 20) (Some demo_b) = (Ok (RelayEstablishAck demo_intent), R5) \<and>
    fst (get_destination (rs_forwarding R5) 5 (replicate 32 9) demo_a 1200) = Some demo_b"
proof -
  obtain r1 R1 where 1: "handle_message_from demo_sig demo_devices demo_env demo_connect None = (r1, R1)" by fastforce
  obtain r2 R2 where 2: "handle_message_from demo_sig R1 demo_env demo_accept None = (r2, R2)" by fastforce
  obtain r3 R3 where 3: "handle_message_from demo_sig R2 demo_env (GetCandidates [10] demo_intent) None = (r3, R3)" by fastforce
  obtain r4 R4 where 4: "handle_message_from demo_sig R3 demo_env (demo_establish 10) (Some demo_a) = (r4, R4)" by fastforce
  obtain r5 R5 where 5: "handle_message_from demo_sig R4 demo_env (demo_establish 20) (Some demo_b) = (r5, R5)" by fastforce
  have "r1 = Ok (ConnectInvite [10] demo_intent) \<and> r2 = Ok (CandidateExchange demo_intent [cand_host demo_a] (replicate 32 9)) \<and>
    r3 = Ok (CandidateExchange demo_intent [cand_host demo_b] (replicate 32 9)) \<and> r4 = Ok (RelayEstablishAck demo_intent) \<and>
    r5 = Ok (RelayEstablishAck demo_intent) \<and> fst (get_destination (rs_forwarding R5) 5 (replicate 32 9) demo_a 1200) = Some demo_b"
  proof (rule rendezvous_connects [OF demo_signed(1) _ _ demo_signed(4,5) _ _ _ _ demo_signed(2,3) _ _ _ _ _ _ _
        1 [unfolded demo_connect_def] 2 [unfolded demo_accept_def] 3 4 [unfolded demo_establish_def] 5 [unfolded demo_establish_def]])
  qed (simp_all add: demo_devices_def relay_with_limits_def rendezvous_new_def MAX_INTENTS_def demo_env_def abs_diff_def saturating_sub_def
      with_limits_def times_ok_def)
  then show ?thesis using 1 2 3 4 5 by blast
qed

definition demo_forwarding :: forwarding_table where
  "demo_forwarding = snd (update_binding (snd (update_binding
     (authorize_pair (with_limits 625000 120000) 5 demo_intent (replicate 32 9) [10] [20]) 5 demo_intent [10] demo_a)) 5 demo_intent [20] demo_b)"

definition demo_relay :: relay_state where
  "demo_relay = run_relay demo_sig demo_cbor None demo_start demo_datagrams"

lemma demo_relay_server:
  "\<exists>V p. rl_server demo_relay = demo_devices\<lparr>rs_rendezvous := V, rs_forwarding := demo_forwarding\<rparr> \<and> map_of V demo_intent = Some p \<and>
     pi_state p = Accepted (replicate 32 9) \<and> pi_initiator p = [10] \<and> pi_target_candidates p = [cand_host demo_b]"
proof -
  obtain V where V: "handle_connect_intent demo_sig demo_devices demo_env [10] [20] demo_intent [cand_host demo_a] 5 (demo_sign [10] (connect_payload demo_sig demo_intent [10] [20] 5)) =
      (Ok (ConnectInvite [10] demo_intent), demo_devices\<lparr>rs_rendezvous := V\<rparr>)" "map_of V demo_intent = Some (pending_with [10] [20] [cand_host demo_a] 5)"
    using connect_succeeds [OF demo_signed(1), of "[cand_host demo_a]"]
    by (auto simp: demo_devices_def relay_with_limits_def rendezvous_new_def MAX_INTENTS_def demo_env_def)
  have "accept_signed demo_sig (demo_devices\<lparr>rs_rendezvous := V\<rparr>) demo_env [20] demo_intent [10] 5 (demo_sign [20] (accept_payload demo_sig demo_intent [20] [10] 5))"
    using demo_signed(4,5) V(2) by (simp add: accept_signed_def demo_env_def demo_intent_def server_peek_Ok pending_with_def abs_diff_def)
  from accept_succeeds [OF _ this, of "[cand_host demo_a]" 5 "replicate 32 9" "[cand_host demo_b]"]
  obtain V' p where V': "handle_accept_connect demo_sig (demo_devices\<lparr>rs_rendezvous := V\<rparr>) demo_env [20] demo_intent [cand_host demo_b] 5 (demo_sign [20] (accept_payload demo_sig demo_intent [20] [10] 5)) =
      (Ok (CandidateExchange demo_intent [cand_host demo_a] (replicate 32 9)), demo_devices\<lparr>rs_rendezvous := V',
        rs_forwarding := authorize_pair (with_limits 625000 120000) 5 demo_intent (replicate 32 9) [10] [20]\<rparr>)"
    and p: "map_of V' demo_intent = Some p" "pi_state p = Accepted (replicate 32 9)" "pi_initiator p = [10]" "pi_target_candidates p = [cand_host demo_b]"
    using V(2) by (auto simp: demo_env_def saturating_sub_def demo_devices_def relay_with_limits_def)
  have fwd: "env_forwarding_now demo_env = 5" by (simp add: demo_env_def)
  have "rl_server demo_relay = demo_devices\<lparr>rs_rendezvous := V', rs_forwarding := demo_forwarding\<rparr>"
    unfolding demo_relay_def run_relay_def demo_datagrams_def demo_start_def
    by (simp add: control_step [where m = "demo_register 10"] control_step [where m = "demo_register 20"] control_step [where m = demo_connect]
        control_step [where m = demo_accept] control_step [where m = "demo_establish 10"] control_step [where m = "demo_establish 20"]
        demo_cbor_def demo_registered demo_connect_def demo_accept_def demo_establish_def V(1) V' establish_signed_eq demo_signed demo_forwarding_def
        fwd split: prod.splits)
  then show ?thesis using p by blast
qed

theorem candidates_require_consent_witness:
  "fst (handle_message_from demo_sig (rl_server demo_relay) demo_env (GetCandidates [10] demo_intent) (Some demo_a)) =
     Ok (CandidateExchange demo_intent [cand_host demo_b] (replicate 32 9)) \<and>
   (\<exists>a b ca cb. asked demo_sig (insert (demo_env, demo_a, GetCandidates [10] demo_intent) (controls demo_cbor demo_datagrams)) demo_intent a b ca \<and>
      answered demo_sig (insert (demo_env, demo_a, GetCandidates [10] demo_intent) (controls demo_cbor demo_datagrams)) demo_intent a b cb (replicate 32 9))"
proof -
  have r: "fst (handle_message_from demo_sig (rl_server demo_relay) demo_env (GetCandidates [10] demo_intent) (Some demo_a)) =
     Ok (CandidateExchange demo_intent [cand_host demo_b] (replicate 32 9))"
    using demo_relay_server by (auto simp: get_candidates_Ok demo_intent_def is_registered_def demo_devices_def)
  show ?thesis using r candidates_require_consent [OF demo_relay_def [unfolded demo_start_def] r] by blast
qed

lemma demo_data_forwarded:
  "fst (relay_datagram demo_sig demo_cbor None demo_relay demo_env demo_a (replicate 32 9 @ [7])) = Some (demo_b, replicate 32 9 @ [7])"
proof -
  have t: "times_ok 5 (ft_session_expiry_ms (with_limits 625000 120000)) [5, 5]" by (simp add: times_ok_def with_limits_def)
  note B = fresh_binds [OF _ t refl _ refl refl, of "[10]" "[20]" demo_intent "replicate 32 9" demo_a demo_b, folded demo_forwarding_def]
  have "fst (get_destination demo_forwarding 5 (replicate 32 9) demo_a 33) = Some demo_b"
    using B by (auto intro!: fresh_forwards simp: with_limits_def saturating_sub_def)
  then show ?thesis
    using demo_relay_server
    by (auto simp: relay_datagram_def relay_data_def Let_def is_control_def CONTROL_MAGIC_def MAX_DATAGRAM_def RELAY_HEADER_LEN_def demo_env_def split: prod.splits)
qed

theorem forwarding_requires_consent_witness:
  "fst (relay_datagram demo_sig demo_cbor None demo_relay demo_env demo_a (replicate 32 9 @ [7])) = Some (demo_b, replicate 32 9 @ [7]) \<and>
   (\<exists>i a b x y. bound_by demo_sig (controls demo_cbor demo_datagrams) i a x \<and> bound_by demo_sig (controls demo_cbor demo_datagrams) i b y \<and>
      (demo_a, demo_b) \<in> {(x, y), (y, x)})"
  using demo_data_forwarded forwarding_requires_consent [OF demo_relay_def [unfolded demo_start_def] demo_data_forwarded]
  by (simp add: is_control_def CONTROL_MAGIC_def MAX_DATAGRAM_def) blast

section \<open>Where the protection ends\<close>

text \<open>C38: Neither polling nor fetching candidates is authenticated.  As soon as an intent is pending for a registered device, anybody
  who names that device learns the initiator and the intent identifier, and once the intent is accepted anybody, from any
  address and without a signature, is given the acceptor's candidates together with the routing token.\<close>
theorem candidates_disclosed:
  assumes "map_of (rs_rendezvous R) i = Some (pending_with a b ca t)" "accept_signed S R E b i a ts sig" "is_registered R a" "is_registered R b"
    and "saturating_sub (env_rendezvous_now E) t \<le> INTENT_TIMEOUT_MS" "env_random E = Some token" "t > saturating_sub (env_rendezvous_now E0) INTENT_TIMEOUT_MS"
    and "handle_message_from S R E (AcceptConnect b i cb ts sig) peer = (r, R')"
  shows "(\<exists>l. fst (handle_message_from S R E0 (PollPendingIntents b) stranger) = Ok (PendingIntents l) \<and> \<lparr>pii_from = a, pii_intent_id = i\<rparr> \<in> set l) \<and>
    fst (handle_message_from S R' E' (GetCandidates a i) stranger) = Ok (CandidateExchange i cb token)"
proof
  have "(i, pending_with a b ca t) \<in> set (rs_rendezvous R)" using assms(1) by (rule map_of_SomeD)
  then show "\<exists>l. fst (handle_message_from S R E0 (PollPendingIntents b) stranger) = Ok (PendingIntents l) \<and> \<lparr>pii_from = a, pii_intent_id = i\<rparr> \<in> set l"
    using assms(4,7) by (force simp: handle_poll_pending_intents_def pending_for_def Let_def pending_with_def)
  obtain V p where R': "R' = R\<lparr>rs_rendezvous := V, rs_forwarding := authorize_pair (rs_forwarding R) (env_forwarding_now E) i token a b\<rparr>"
    and p: "map_of V i = Some p" "pi_state p = Accepted token" "pi_initiator p = a" "pi_target_candidates p = cb"
    using accept_succeeds [OF assms(1,2,5,6), of cb] assms(8) by auto
  have "length i = 16" using assms(2) by (simp add: accept_signed_def)
  then show "fst (handle_message_from S R' E' (GetCandidates a i) stranger) = Ok (CandidateExchange i cb token)"
    using p assms(3) by (simp add: get_candidates_Ok R')
qed

text \<open>C37: The signed payloads of \<open>ConnectIntent\<close> and \<open>AcceptConnect\<close> have the same layout.  The signature with which \<open>a\<close> once asked to
  connect to \<open>b\<close> under an intent identifier is therefore taken for the consent of \<open>a\<close> when \<open>b\<close> asks to connect to \<open>a\<close> under the
  same identifier: the relay answers the forged acceptance with \<open>b\<close>'s candidates and a routing token and authorizes the
  pair, though \<open>a\<close> has signed no acceptance.\<close>
theorem connect_signature_accepts:
  assumes "verify_key_for S R a = Ok k" "key_verify S k (connect_payload S i a b ts) sig" "length i = 16" "length sig = 64"
    and "map_of (rs_rendezvous R) i = Some (pending_with b a cb t)" "abs_diff (env_now E) ts \<le> TIMESTAMP_WINDOW_MS"
    and "saturating_sub (env_rendezvous_now E) t \<le> INTENT_TIMEOUT_MS" "env_random E = Some token"
  shows "\<exists>R'. handle_message_from S R E (AcceptConnect a i forged ts sig) peer = (Ok (CandidateExchange i cb token), R') \<and>
    state_of (rs_forwarding R') i = Some Authorized \<and> map_of (ft_token_index (rs_forwarding R')) token = Some i"
proof -
  have "accept_signed S R E a i b ts sig"
    using assms by (auto simp: accept_signed_def connect_payload_def accept_payload_def server_peek_Ok pending_with_def)
  from accept_succeeds [OF assms(5) this assms(7,8), of forged] show ?thesis
    by (auto simp: authorize_pair_def state_of_def Let_def update_conv')
qed

lemma magic_token_unroutable:
  assumes "take 6 token = CONTROL_MAGIC" "fst (relay_datagram S C dev L E src (token @ payload)) = Some (dst, out)"
  shows "dst = src"
proof -
  define d where "d = token @ payload"
  have "6 \<le> length token" using arg_cong [OF assms(1), of length] by (simp add: CONTROL_MAGIC_def)
  then have "take 6 d = CONTROL_MAGIC" "6 \<le> length d" using assms(1) by (simp_all add: d_def)
  moreover have "length CONTROL_MAGIC = 6" by (simp add: CONTROL_MAGIC_def)
  ultimately have "is_control (take MAX_DATAGRAM d)" by (simp add: is_control_def MAX_DATAGRAM_def)
  then show ?thesis using assms(2) unfolding d_def
    by (auto simp: relay_datagram_def Let_def relay_control_def split: option.splits prod.splits outcome.splits)
qed

section \<open>Exhaustion\<close>

definition settled :: "rendezvous_registry \<Rightarrow> nat" where
  "settled V = length (filter (\<lambda>(_, p). \<not> is_pending (pi_state p)) V)"

lemma settled_update: "map_of V i = Some p \<Longrightarrow> is_pending (pi_state p) \<Longrightarrow> settled V \<le> settled (AList.update i p' V)"
  by (induction V) (auto simp: settled_def)

lemma settled_filter: "settled (filter (\<lambda>(_, p). keep_intent s p) V) = settled V"
  by (induction V) (auto simp: settled_def keep_intent_def split: intent_state.splits)

lemma settled_register:
  assumes "MAX_INTENTS \<le> settled V"
  shows "settled (snd (register_intent V now i a b cs)) = settled V" "\<exists>e. fst (register_intent V now i a b cs) = Err e"
proof -
  let ?W = "filter (\<lambda>(_, p). keep_intent (saturating_sub now INTENT_TIMEOUT_MS) p) V"
  have "settled ?W \<le> length ?W" unfolding settled_def by (rule length_filter_le)
  then have "MAX_INTENTS \<le> length ?W" using assms by (simp add: settled_filter)
  then show "settled (snd (register_intent V now i a b cs)) = settled V" "\<exists>e. fst (register_intent V now i a b cs) = Err e"
    by (simp_all add: register_intent_def Let_def settled_filter)
qed

lemma settled_accept: "settled V \<le> settled (snd (accept_intent V now rng i b cs))"
  by (auto simp: accept_intent_def Let_def settled_update split: option.splits intent_state.splits)

lemma handle_rendezvous:
  obtains "rs_rendezvous (snd (handle_message_from S R E m peer)) = rs_rendezvous R"
  | now i a b cs where "rs_rendezvous (snd (handle_message_from S R E m peer)) = snd (register_intent (rs_rendezvous R) now i a b cs)"
  | now rng i b cs where "rs_rendezvous (snd (handle_message_from S R E m peer)) = snd (accept_intent (rs_rendezvous R) now rng i b cs)"
proof (cases m)
  case (ConnectIntent a b i cs ts sig)
  show ?thesis
  proof (cases "connect_signed S R E a b i ts sig")
    case True
    then have "rs_rendezvous (snd (handle_message_from S R E m peer)) = snd (register_intent (rs_rendezvous R) (env_rendezvous_now E) i a b cs)"
      by (simp add: ConnectIntent connect_signed_eq split: prod.splits)
    then show ?thesis using that(2) by blast
  next
    case False
    then show ?thesis using that(1) connect_unsigned [OF False] ConnectIntent by simp
  qed
next
  case (AcceptConnect b i cs ts sig)
  show ?thesis
  proof (cases "\<exists>a. accept_signed S R E b i a ts sig")
    case True
    then obtain a where "accept_signed S R E b i a ts sig" by blast
    then have "rs_rendezvous (snd (handle_message_from S R E m peer)) =
        snd (accept_intent (rs_rendezvous R) (env_rendezvous_now E) (env_random E) i b cs)"
      by (simp add: AcceptConnect accept_signed_eq split: prod.splits outcome.splits)
    then show ?thesis using that(3) by blast
  next
    case False
    then show ?thesis using that(1) accept_unsigned [of S R E b i ts sig cs] AcceptConnect by simp
  qed
qed (use that(1) in \<open>auto simp: handle_register_def handle_relay_establish_def Let_def split: option.splits outcome.splits prod.splits\<close>)

lemma settled_handle:
  assumes "MAX_INTENTS \<le> settled (rs_rendezvous R)"
  shows "MAX_INTENTS \<le> settled (rs_rendezvous (snd (handle_message_from S R E m peer)))"
proof (rule handle_rendezvous [of S R E m peer])
  fix now rng i b cs
  assume "rs_rendezvous (snd (handle_message_from S R E m peer)) = snd (accept_intent (rs_rendezvous R) now rng i b cs)"
  then show ?thesis using assms settled_accept [of "rs_rendezvous R" now rng i b cs] by simp
qed (use assms settled_register(1) [OF assms] in simp_all)

definition serve :: "sig_lib \<Rightarrow> relay_server \<Rightarrow> (relay_env \<times> relay_message \<times> socket_addr option) list \<Rightarrow> relay_server" where
  "serve S R ms = foldl (\<lambda>R (E, m, peer). snd (handle_message_from S R E m peer)) R ms"

lemma serve_snoc [simp]: "serve S R (ms @ [(E, m, peer)]) = snd (handle_message_from S (serve S R ms) E m peer)"
  by (simp add: serve_def)

lemma settled_serve: "MAX_INTENTS \<le> settled (rs_rendezvous R) \<Longrightarrow> MAX_INTENTS \<le> settled (rs_rendezvous (serve S R ms))"
proof (induction ms rule: rev_induct)
  case (snoc x ms)
  then show ?case by (cases x) (simp add: settled_handle)
qed (simp add: serve_def)

text \<open>Accepted and expired intents are never removed.  Once 2048 of them have accumulated, the relay refuses every further
  \<open>ConnectIntent\<close>, from any device and after any sequence of messages, for as long as it runs.\<close>
theorem intents_exhausted:
  assumes "MAX_INTENTS \<le> settled (rs_rendezvous R)"
  shows "fst (handle_message_from S (serve S R ms) E (ConnectIntent a b i ca ts sig) peer) \<noteq> Ok (ConnectInvite a i)"
proof (cases "connect_signed S (serve S R ms) E a b i ts sig")
  case True
  obtain e where "fst (register_intent (rs_rendezvous (serve S R ms)) (env_rendezvous_now E) i a b ca) = Err e"
    using settled_register(2) [OF settled_serve [OF assms]] by blast
  then show ?thesis by (auto simp: connect_signed_eq [OF True] split: prod.splits)
next
  case False
  then show ?thesis using connect_unsigned by simp
qed

definition demo_full :: relay_server where
  "demo_full = demo_devices\<lparr>rs_rendezvous := map (\<lambda>k. (to_be_bytes 16 (of_nat k :: 128 word),
     \<lparr>pi_initiator = [10], pi_target = [20], pi_initiator_candidates = [], pi_target_candidates = [], pi_state = Expired\<rparr>)) [0..<2048]\<rparr>"

theorem intents_exhausted_witness:
  "connect_signed demo_sig demo_full demo_env [10] [20] demo_intent 5 (demo_sign [10] (connect_payload demo_sig demo_intent [10] [20] 5)) \<and>
   fst (handle_message_from demo_sig (serve demo_sig demo_full []) demo_env demo_connect None) \<noteq> Ok (ConnectInvite [10] demo_intent)"
proof -
  have "MAX_INTENTS \<le> settled (rs_rendezvous demo_full)"
    by (simp add: demo_full_def settled_def filter_map o_def MAX_INTENTS_def)
  moreover have "connect_signed demo_sig demo_full demo_env [10] [20] demo_intent 5 (demo_sign [10] (connect_payload demo_sig demo_intent [10] [20] 5))"
    using demo_signed(1) by (simp add: demo_full_def connect_signed_def)
  ultimately show ?thesis using intents_exhausted by (simp add: demo_connect_def del: handle_message_from.simps)
qed

theorem candidates_disclosed_witness:
  "\<exists>V r R'. handle_message_from demo_sig (demo_devices\<lparr>rs_rendezvous := V\<rparr>) demo_env demo_accept (Some demo_b) = (r, R') \<and>
     map_of V demo_intent = Some (pending_with [10] [20] [cand_host demo_a] 5) \<and>
     fst (handle_message_from demo_sig R' demo_env (GetCandidates [10] demo_intent) (Some (SocketV4 99 99))) =
       Ok (CandidateExchange demo_intent [cand_host demo_b] (replicate 32 9))"
proof -
  let ?V = "[(demo_intent, pending_with [10] [20] [cand_host demo_a] 5)]"
  let ?R = "demo_devices\<lparr>rs_rendezvous := ?V\<rparr>"
  obtain r R' where r: "handle_message_from demo_sig ?R demo_env demo_accept (Some demo_b) = (r, R')" by fastforce
  have "map_of (rs_rendezvous ?R) demo_intent = Some (pending_with [10] [20] [cand_host demo_a] 5)" by simp
  moreover have "accept_signed demo_sig ?R demo_env [20] demo_intent [10] 5 (demo_sign [20] (accept_payload demo_sig demo_intent [20] [10] 5))"
    using demo_signed(4,5) by (simp add: accept_signed_def demo_env_def demo_intent_def server_peek_Ok pending_with_def abs_diff_def)
  moreover have "is_registered ?R [10]" "is_registered ?R [20]" by (simp_all add: is_registered_def demo_devices_def)
  ultimately have "fst (handle_message_from demo_sig R' demo_env (GetCandidates [10] demo_intent) (Some (SocketV4 99 99))) =
       Ok (CandidateExchange demo_intent [cand_host demo_b] (replicate 32 9))"
    using candidates_disclosed [OF _ _ _ _ _ _ _ r [unfolded demo_accept_def], where ?E0.0 = demo_env and t = 5]
    by (simp add: demo_env_def saturating_sub_def INTENT_TIMEOUT_MS_def del: handle_message_from.simps)
  then show ?thesis using r by (intro exI [of _ ?V] exI [of _ r] exI [of _ R']) simp
qed

theorem connect_signature_accepts_witness:
  "fst (handle_message_from demo_sig (demo_devices\<lparr>rs_rendezvous := [(demo_intent, pending_with [20] [10] [cand_host demo_b] 5)]\<rparr>) demo_env
     (AcceptConnect [10] demo_intent [] 5 (demo_sign [10] (connect_payload demo_sig demo_intent [10] [20] 5))) (Some (SocketV4 99 99))) =
   Ok (CandidateExchange demo_intent [cand_host demo_b] (replicate 32 9))"
proof -
  let ?R = "demo_devices\<lparr>rs_rendezvous := [(demo_intent, pending_with [20] [10] [cand_host demo_b] 5)]\<rparr>"
  obtain k where "verify_key_for demo_sig ?R [10] = Ok k" "key_verify demo_sig k (connect_payload demo_sig demo_intent [10] [20] 5)
      (demo_sign [10] (connect_payload demo_sig demo_intent [10] [20] 5))"
    using demo_signed(1) by (auto simp: connect_signed_def)
  from connect_signature_accepts [OF this, where cb = "[cand_host demo_b]" and t = 5 and E = demo_env and token = "replicate 32 9"
      and forged = "[]" and peer = "Some (SocketV4 99 99)"]
  show ?thesis by (auto simp: demo_intent_def demo_env_def abs_diff_def saturating_sub_def simp del: handle_message_from.simps)
qed

section \<open>The registries stay within their limits\<close>

lemma length_update: "length (AList.update k v xs) \<le> Suc (length xs)"
  by (induction xs) auto

lemma length_update_old: "map_of xs k = Some w \<Longrightarrow> length (AList.update k v xs) = length xs"
  by (induction xs) auto

lemma distinct_map_update:
  "distinct (map f xs) \<Longrightarrow> f (k, v) \<notin> f ` set xs \<Longrightarrow> distinct (map f (AList.update k v xs))"
proof (induction xs)
  case (Cons x xs)
  have "f ` set (AList.update k v xs) \<subseteq> insert (f (k, v)) (f ` set xs)" using set_update [of k v xs] by auto
  then show ?case using Cons by auto
qed simp

definition intents_wf :: "rendezvous_registry \<Rightarrow> bool" where
  "intents_wf V \<longleftrightarrow> distinct (map fst V) \<and> length V \<le> MAX_INTENTS"

lemma intents_wf_register:
  assumes "intents_wf V"
  shows "intents_wf (snd (register_intent V now i a b cs))"
proof -
  define W where "W = filter (\<lambda>(_, p). keep_intent (saturating_sub now INTENT_TIMEOUT_MS) p) V"
  have W: "distinct (map fst W)" "length W \<le> MAX_INTENTS"
    using assms distinct_map_filter le_trans [OF length_filter_le] by (auto simp: W_def intents_wf_def)
  have new: "intents_wf (AList.update i p W)" if "\<not> MAX_INTENTS \<le> length W" for p
    using W that length_update [of i p W] by (simp add: intents_wf_def distinct_update)
  have "snd (register_intent V now i a b cs) = (if MAX_INTENTS \<le> length W \<or> fst (register_intent V now i a b cs) \<noteq> Ok () then W
      else AList.update i (pending_with a b cs now) W)"
    by (simp add: register_intent_def Let_def W_def pending_with_def)
  then show ?thesis using W new by (simp add: intents_wf_def)
qed

lemma intents_wf_accept: "intents_wf V \<Longrightarrow> intents_wf (snd (accept_intent V now rng i b cs))"
  by (auto simp: accept_intent_def Let_def intents_wf_def length_update_old distinct_update split: option.splits intent_state.splits)

definition registry_wf :: "nat \<Rightarrow> relay_server \<Rightarrow> bool" where
  "registry_wf n R \<longleftrightarrow> distinct (map fst (rs_registry R)) \<and> length (rs_registry R) \<le> MAX_REGISTRATIONS \<and>
     distinct (map (cc_session_id \<circ> snd) (rs_registry R)) \<and> unat (rs_next_session_id R) \<le> Suc n \<and>
     (\<forall>(dev, c) \<in> set (rs_registry R). cc_session_id c < rs_next_session_id R)"

lemma registry_wf_register:
  assumes wf: "registry_wf n R" and n: "Suc (Suc n) < 2 ^ 64"
  shows "registry_wf (Suc n) (snd (handle_register S R E dev key ts sig peer))"
proof -
  let ?id = "rs_next_session_id R"
  have id: "unat (?id + 1) = Suc (unat ?id)" using wf n unat_Suc_no_overflow [of ?id] by (simp add: registry_wf_def)
  define P where "P = (if length (rs_registry R) \<ge> MAX_REGISTRATIONS
    then filter (\<lambda>(_, ctx). cc_last_seen ctx > saturating_sub (env_now E) STALE_REGISTRATION_MS) (rs_registry R) else rs_registry R)"
  have P: "distinct (map fst P)" "distinct (map (cc_session_id \<circ> snd) P)" "set P \<subseteq> set (rs_registry R)" "length P \<le> length (rs_registry R)"
    using wf distinct_map_filter by (auto simp: P_def registry_wf_def)
  have lt: "cc_session_id c < ?id + 1 \<and> cc_session_id c \<noteq> ?id" if "(d, c) \<in> set P" for d c
    using that P(3) wf id by (fastforce simp: registry_wf_def word_less_nat_alt)
  let ?c = "\<lparr>cc_session_id = ?id, cc_last_seen = env_now E, cc_verify_key_bytes = key, cc_server_reflexive_addr = peer\<rparr>"
  have new: "registry_wf (Suc n) (R\<lparr>rs_next_session_id := ?id + 1, rs_registry := AList.update dev ?c P\<rparr>)" if "\<not> length P \<ge> MAX_REGISTRATIONS"
  proof -
    have "(cc_session_id \<circ> snd) (dev, ?c) \<notin> (cc_session_id \<circ> snd) ` set P" using lt by fastforce
    from distinct_map_update [OF P(2) this] show ?thesis
      using wf id that P(1) length_update [of dev ?c P] lt
      by (auto simp: registry_wf_def distinct_update word_less_nat_alt comp_def dest!: set_updateD)
  qed
  have old: "registry_wf (Suc n) R" "registry_wf (Suc n) (R\<lparr>rs_next_session_id := ?id + 1, rs_registry := P\<rparr>)"
    using wf P lt id by (auto simp: registry_wf_def)
  have "snd (handle_register S R E dev key ts sig peer) \<in> {R, R\<lparr>rs_next_session_id := ?id + 1, rs_registry := P\<rparr>,
      R\<lparr>rs_next_session_id := ?id + 1, rs_registry := AList.update dev ?c P\<rparr>} \<and>
      (length P \<ge> MAX_REGISTRATIONS \<longrightarrow> snd (handle_register S R E dev key ts sig peer) \<in> {R, R\<lparr>rs_next_session_id := ?id + 1, rs_registry := P\<rparr>})"
    by (auto simp: handle_register_def Let_def P_def split: option.splits)
  then show ?thesis using new old by auto
qed

lemma registry_wf_frame:
  "rs_registry R' = rs_registry R \<Longrightarrow> rs_next_session_id R' = rs_next_session_id R \<Longrightarrow> registry_wf n R \<Longrightarrow> registry_wf (Suc n) R'"
  by (simp add: registry_wf_def)

lemma handle_registry_frame [simp]:
  "rs_registry (snd (handle_connect_intent S R E a b i cs ts sig)) = rs_registry R"
  "rs_next_session_id (snd (handle_connect_intent S R E a b i cs ts sig)) = rs_next_session_id R"
  "rs_registry (snd (handle_accept_connect S R E b i cs ts sig)) = rs_registry R"
  "rs_next_session_id (snd (handle_accept_connect S R E b i cs ts sig)) = rs_next_session_id R"
  "rs_registry (snd (handle_relay_establish S R E i dev ts sig peer)) = rs_registry R"
  "rs_next_session_id (snd (handle_relay_establish S R E i dev ts sig peer)) = rs_next_session_id R"
  by (auto simp: handle_connect_intent_def handle_accept_connect_def handle_relay_establish_def split: option.splits outcome.splits prod.splits)

lemma registry_wf_handle:
  assumes "registry_wf n R" "Suc (Suc n) < 2 ^ 64"
  shows "registry_wf (Suc n) (snd (handle_message_from S R E m peer))"
  using registry_wf_register [OF assms] by (cases m) (auto intro: registry_wf_frame [OF _ _ assms(1)])

lemma intents_wf_handle: "intents_wf (rs_rendezvous R) \<Longrightarrow> intents_wf (rs_rendezvous (snd (handle_message_from S R E m peer)))"
  by (rule handle_rendezvous [of S R E m peer]) (simp_all add: intents_wf_register intents_wf_accept)

lemma serve_wf:
  "Suc (length ms) < 2 ^ 64 \<Longrightarrow> registry_wf (length ms) (serve S (relay_with_limits rate expiry) ms) \<and>
     intents_wf (rs_rendezvous (serve S (relay_with_limits rate expiry) ms))"
proof (induction ms rule: rev_induct)
  case (snoc x ms)
  then show ?case using registry_wf_handle [of "length ms"] intents_wf_handle by (cases x) simp
qed (simp add: serve_def relay_with_limits_def rendezvous_new_def registry_wf_def intents_wf_def)

text \<open>C28: The registries stay within their limits and identifiers stay unique: after any sequence of control messages at most 1024 devices are
  registered, each once and each with a session identifier of its own that is below the next one to be given out, and at
  most 2048 intents are stored, each identifier once.\<close>
theorem relay_registries_wf:
  assumes "Suc (length ms) < 2 ^ 64" "R = serve S (relay_with_limits rate expiry) ms"
  shows "distinct (map fst (rs_registry R)) \<and> length (rs_registry R) \<le> 1024 \<and> inj_on (cc_session_id \<circ> snd) (set (rs_registry R)) \<and>
    (\<forall>(dev, c) \<in> set (rs_registry R). cc_session_id c < rs_next_session_id R) \<and>
    distinct (map fst (rs_rendezvous R)) \<and> length (rs_rendezvous R) \<le> 2048"
  using serve_wf [OF assms(1), of S rate expiry] assms(2)
  by (auto simp: registry_wf_def intents_wf_def MAX_REGISTRATIONS_def MAX_INTENTS_def distinct_map)

theorem relay_registries_wf_witness:
  "serve demo_sig (relay_with_limits 625000 120000) [(demo_env, demo_register 10, Some demo_a), (demo_env, demo_register 20, Some demo_b)] = demo_devices \<and>
   inj_on (cc_session_id \<circ> snd) (set (rs_registry demo_devices)) \<and> length (rs_registry demo_devices) = 2"
proof -
  have "serve demo_sig (relay_with_limits 625000 120000) [(demo_env, demo_register 10, Some demo_a), (demo_env, demo_register 20, Some demo_b)] = demo_devices"
    by (simp add: serve_def demo_registered del: handle_message_from.simps)
  then show ?thesis using relay_registries_wf [OF _ refl, of "[(demo_env, demo_register 10, Some demo_a), (demo_env, demo_register 20, Some demo_b)]" demo_sig 625000 120000]
    by simp (simp add: demo_devices_def)
qed

end
