(* ===== verification/BW_RelayClient.thy ===== *)
theory BW_RelayClient
  imports BW_RelayLive
begin

text \<open>
  The endpoints of the relay: the control client (\<^verbatim>\<open>bw-relay/src/relay_client.rs\<close>), the rendezvous driver of a relay-mode server
  (\<^verbatim>\<open>bw-server/src/rendezvous.rs\<close>), the connectivity checker (\<^verbatim>\<open>bw-relay/src/checker.rs\<close>) and the socket that carries QUIC datagrams through
  the relay (\<^verbatim>\<open>bw-transport/src/relay_socket.rs\<close>).  A signing key is represented by its verification key and the function that
  signs with it, the network by a function that takes a datagram for the relay and yields the next datagram that arrives, if one ever does.
\<close>

section \<open>The control client\<close>

datatype relay_client_error = ClientIo string | Rejected string | ClientCbor string | ClientProtocol string

record relay_control_client =
  rcc_sign :: "bytes \<Rightarrow> bytes"
  rcc_verify_key :: bytes
  rcc_device_id :: device_id

definition client_connect :: "sig_lib \<Rightarrow> bytes \<Rightarrow> (bytes \<Rightarrow> bytes) \<Rightarrow> relay_control_client" where
  "client_connect S key sign = \<lparr>rcc_sign = sign, rcc_verify_key = key, rcc_device_id = device_id_of_key S (VerifyKey key)\<rparr>"

text \<open>CBOR with the text of its errors, and the text of a message in the debug format.\<close>

record client_cbor =
  cw_write :: "relay_message \<Rightarrow> (bytes, string) outcome"
  cw_read :: "bytes \<Rightarrow> (relay_message, string) outcome"
  cw_debug :: "relay_message \<Rightarrow> string"

type_synonym 'n network = "bytes \<Rightarrow> 'n \<Rightarrow> (bytes, string) outcome option \<times> 'n"

definition client_reply :: "client_cbor \<Rightarrow> bytes \<Rightarrow> (relay_message, relay_client_error) outcome" where
  "client_reply W datagram =
     (let resp_bytes = take 4096 datagram
      in if length resp_bytes < length CONTROL_MAGIC \<or> take (length CONTROL_MAGIC) resp_bytes \<noteq> CONTROL_MAGIC
         then Err (ClientProtocol ''Response missing control magic'')
         else map_err ClientCbor (cw_read W (drop (length CONTROL_MAGIC) resp_bytes)))"

definition send_recv :: "client_cbor \<Rightarrow> 'n network \<Rightarrow> relay_message \<Rightarrow> 'n \<Rightarrow> (relay_message, relay_client_error) outcome option \<times> 'n" where
  "send_recv W net msg n =
     (case map_err ClientCbor (cw_write W msg) of
        Err e \<Rightarrow> (Some (Err e), n)
      | Panic \<Rightarrow> (Some Panic, n)
      | Ok body \<Rightarrow>
          (case net (CONTROL_MAGIC @ body) n of
             (r, n') \<Rightarrow> (map_option (\<lambda>r. obind (map_err ClientIo r) (client_reply W)) r, n')))"

definition call :: "client_cbor \<Rightarrow> 'n network \<Rightarrow> relay_message \<Rightarrow> (relay_message \<Rightarrow> ('a, relay_client_error) outcome) \<Rightarrow> 'n \<Rightarrow>
    ('a, relay_client_error) outcome option \<times> 'n" where
  "call W net msg answer n = (case send_recv W net msg n of (r, n') \<Rightarrow> (map_option (\<lambda>r. obind r answer) r, n'))"

definition unexpected :: "client_cbor \<Rightarrow> relay_message \<Rightarrow> ('a, relay_client_error) outcome" where
  "unexpected W other = Err (ClientProtocol (''Unexpected response: '' @ cw_debug W other))"

definition register_request :: "sig_lib \<Rightarrow> relay_control_client \<Rightarrow> u64 \<Rightarrow> relay_message" where
  "register_request S cl timestamp =
     RegisterRequest (rcc_device_id cl) (rcc_verify_key cl) timestamp
       (rcc_sign cl (sl_sha256 S (rcc_device_id cl @ rcc_verify_key cl @ to_be_bytes 8 timestamp)))"

fun register_answer :: "client_cbor \<Rightarrow> relay_message \<Rightarrow> (u64, relay_client_error) outcome" where
  "register_answer W (RegisterAck relay_session_id _) = Ok relay_session_id"
| "register_answer W (ErrorResponse reason) = Err (Rejected reason)"
| "register_answer W other = unexpected W other"

definition client_register :: "sig_lib \<Rightarrow> client_cbor \<Rightarrow> 'n network \<Rightarrow> relay_control_client \<Rightarrow> u64 \<Rightarrow> 'n \<Rightarrow>
    (u64, relay_client_error) outcome option \<times> 'n" where
  "client_register S W net cl timestamp = call W net (register_request S cl timestamp) (register_answer W)"

definition connect_request :: "sig_lib \<Rightarrow> relay_control_client \<Rightarrow> device_id \<Rightarrow> bytes \<Rightarrow> candidate list \<Rightarrow> u64 \<Rightarrow> relay_message" where
  "connect_request S cl target i candidates timestamp =
     ConnectIntent (rcc_device_id cl) target i candidates timestamp
       (rcc_sign cl (sl_sha256 S (i @ rcc_device_id cl @ target @ to_be_bytes 8 timestamp)))"

fun connect_answer :: "client_cbor \<Rightarrow> relay_message \<Rightarrow> (unit, relay_client_error) outcome" where
  "connect_answer W (ConnectInvite _ _) = Ok ()"
| "connect_answer W (ConnectRejected _ reason) = Err (Rejected reason)"
| "connect_answer W (ErrorResponse reason) = Err (Rejected reason)"
| "connect_answer W other = unexpected W other"

definition connect_intent :: "sig_lib \<Rightarrow> client_cbor \<Rightarrow> 'n network \<Rightarrow> relay_control_client \<Rightarrow> u64 \<Rightarrow> device_id \<Rightarrow> bytes \<Rightarrow> candidate list \<Rightarrow> 'n \<Rightarrow>
    (unit, relay_client_error) outcome option \<times> 'n" where
  "connect_intent S W net cl timestamp target i candidates = call W net (connect_request S cl target i candidates timestamp) (connect_answer W)"

definition accept_request :: "sig_lib \<Rightarrow> relay_control_client \<Rightarrow> bytes \<Rightarrow> device_id \<Rightarrow> candidate list \<Rightarrow> u64 \<Rightarrow> relay_message" where
  "accept_request S cl i initiator candidates timestamp =
     AcceptConnect (rcc_device_id cl) i candidates timestamp
       (rcc_sign cl (sl_sha256 S (i @ rcc_device_id cl @ initiator @ to_be_bytes 8 timestamp)))"

fun exchange_answer :: "client_cbor \<Rightarrow> relay_message \<Rightarrow> (relay_token \<times> candidate list, relay_client_error) outcome" where
  "exchange_answer W (CandidateExchange _ candidates relay_token) = Ok (relay_token, candidates)"
| "exchange_answer W (ErrorResponse reason) = Err (Rejected reason)"
| "exchange_answer W other = unexpected W other"

definition accept_connect :: "sig_lib \<Rightarrow> client_cbor \<Rightarrow> 'n network \<Rightarrow> relay_control_client \<Rightarrow> u64 \<Rightarrow> bytes \<Rightarrow> device_id \<Rightarrow> candidate list \<Rightarrow> 'n \<Rightarrow>
    (relay_token \<times> candidate list, relay_client_error) outcome option \<times> 'n" where
  "accept_connect S W net cl timestamp i initiator candidates = call W net (accept_request S cl i initiator candidates timestamp) (exchange_answer W)"

definition get_candidates :: "client_cbor \<Rightarrow> 'n network \<Rightarrow> relay_control_client \<Rightarrow> bytes \<Rightarrow> 'n \<Rightarrow>
    (relay_token \<times> candidate list, relay_client_error) outcome option \<times> 'n" where
  "get_candidates W net cl i = call W net (GetCandidates (rcc_device_id cl) i) (exchange_answer W)"

definition id_array :: "bytes \<Rightarrow> bytes" where
  "id_array i = take 16 i @ replicate (16 - length i) 0"

fun poll_answer :: "client_cbor \<Rightarrow> relay_message \<Rightarrow> ((bytes \<times> device_id) list, relay_client_error) outcome" where
  "poll_answer W (PendingIntents intents) = Ok (map (\<lambda>invite. (id_array (pii_intent_id invite), pii_from invite)) intents)"
| "poll_answer W (ErrorResponse reason) = Err (Rejected reason)"
| "poll_answer W other = unexpected W other"

definition poll_pending_intents :: "client_cbor \<Rightarrow> 'n network \<Rightarrow> relay_control_client \<Rightarrow> 'n \<Rightarrow>
    ((bytes \<times> device_id) list, relay_client_error) outcome option \<times> 'n" where
  "poll_pending_intents W net cl = call W net (PollPendingIntents (rcc_device_id cl)) (poll_answer W)"

definition establish_request :: "sig_lib \<Rightarrow> relay_control_client \<Rightarrow> bytes \<Rightarrow> u64 \<Rightarrow> relay_message" where
  "establish_request S cl i timestamp =
     RelayEstablishRequest i (rcc_device_id cl) timestamp
       (rcc_sign cl (sl_sha256 S (i @ rcc_device_id cl @ to_be_bytes 8 timestamp)))"

fun establish_answer :: "client_cbor \<Rightarrow> relay_message \<Rightarrow> (unit, relay_client_error) outcome" where
  "establish_answer W (RelayEstablishAck _) = Ok ()"
| "establish_answer W (ErrorResponse reason) = Err (Rejected reason)"
| "establish_answer W other = unexpected W other"

definition establish_relay :: "sig_lib \<Rightarrow> client_cbor \<Rightarrow> 'n network \<Rightarrow> relay_control_client \<Rightarrow> u64 \<Rightarrow> bytes \<Rightarrow> 'n \<Rightarrow>
    (unit, relay_client_error) outcome option \<times> 'n" where
  "establish_relay S W net cl timestamp i = call W net (establish_request S cl i timestamp) (establish_answer W)"

section \<open>The rendezvous driver\<close>

text \<open>The driver works on any control plane: an operation that polls and one that accepts an intent.  Its loop serves a token, sleeps, or ends with an error; \<open>driver_run\<close>
  is a number of rounds of it.\<close>

definition next_session_token :: "('n \<Rightarrow> ((bytes \<times> device_id) list, relay_client_error) outcome option \<times> 'n) \<Rightarrow>
    (bytes \<Rightarrow> device_id \<Rightarrow> 'n \<Rightarrow> (relay_token, relay_client_error) outcome option \<times> 'n) \<Rightarrow> 'n \<Rightarrow>
    (relay_token option, relay_client_error) outcome option \<times> 'n" where
  "next_session_token poll accept n =
     (case poll n of
        (None, n1) \<Rightarrow> (None, n1)
      | (Some (Err e), n1) \<Rightarrow> (Some (Err e), n1)
      | (Some Panic, n1) \<Rightarrow> (Some Panic, n1)
      | (Some (Ok []), n1) \<Rightarrow> (Some (Ok None), n1)
      | (Some (Ok ((i, initiator) # _)), n1) \<Rightarrow>
          (case accept i initiator n1 of
             (None, n2) \<Rightarrow> (None, n2)
           | (Some (Ok token), n2) \<Rightarrow> (Some (Ok (Some token)), n2)
           | (Some (Err (Rejected _)), n2) \<Rightarrow> (Some (Ok None), n2)
           | (Some (Err (ClientProtocol _)), n2) \<Rightarrow> (Some (Ok None), n2)
           | (Some (Err e), n2) \<Rightarrow> (Some (Err e), n2)
           | (Some Panic, n2) \<Rightarrow> (Some Panic, n2)))"

definition control_accept :: "sig_lib \<Rightarrow> client_cbor \<Rightarrow> 'n network \<Rightarrow> relay_control_client \<Rightarrow> u64 \<Rightarrow> bytes \<Rightarrow> device_id \<Rightarrow> 'n \<Rightarrow>
    (relay_token, relay_client_error) outcome option \<times> 'n" where
  "control_accept S W net cl timestamp i initiator n =
     (case accept_connect S W net cl timestamp i initiator [] n of
        (r, n') \<Rightarrow> (map_option (\<lambda>r. obind r (\<lambda>(token, _). Ok token)) r, n'))"

datatype driver_state = Serving relay_token | Sleeping | Ended "(unit, relay_client_error) outcome" | Waiting

definition driver_round :: "(relay_token option, relay_client_error) outcome option \<Rightarrow> driver_state" where
  "driver_round r =
     (case r of
        None \<Rightarrow> Waiting
      | Some (Ok (Some token)) \<Rightarrow> Serving token
      | Some (Ok None) \<Rightarrow> Sleeping
      | Some (Err e) \<Rightarrow> Ended (Err e)
      | Some Panic \<Rightarrow> Ended Panic)"

fun driver_run :: "('n \<Rightarrow> (relay_token option, relay_client_error) outcome option \<times> 'n) \<Rightarrow> (relay_token \<Rightarrow> 'n \<Rightarrow> 'n) \<Rightarrow> nat \<Rightarrow> 'n \<Rightarrow>
    relay_token list \<times> driver_state \<times> 'n" where
  "driver_run next srv 0 n = ([], Sleeping, n)"
| "driver_run next srv (Suc k) n =
     (case next n of
        (r, n1) \<Rightarrow>
          (case driver_round r of
             Serving token \<Rightarrow> (case driver_run next srv k (srv token n1) of (tokens, st, n2) \<Rightarrow> (token # tokens, st, n2))
           | Sleeping \<Rightarrow> driver_run next srv k n1
           | st \<Rightarrow> ([], st, n1)))"

section \<open>The connectivity checker\<close>

text \<open>A connection attempt reads the network; its answer depends on the number of attempts before it.\<close>

fun try_candidate :: "(nat \<Rightarrow> socket_addr \<Rightarrow> bool) \<Rightarrow> nat \<Rightarrow> socket_addr \<Rightarrow> nat \<Rightarrow> bool \<times> nat" where
  "try_candidate try_connect 0 addr k = (False, k)"
| "try_candidate try_connect (Suc retries) addr k =
     (if try_connect k addr then (True, Suc k) else try_candidate try_connect retries addr (Suc k))"

fun try_candidates :: "(nat \<Rightarrow> socket_addr \<Rightarrow> bool) \<Rightarrow> nat \<Rightarrow> candidate list \<Rightarrow> nat \<Rightarrow> socket_addr option" where
  "try_candidates try_connect retries [] k = None"
| "try_candidates try_connect retries (c # cs) k =
     (case try_candidate try_connect retries (cand_addr c) k of
        (True, _) \<Rightarrow> Some (cand_addr c)
      | (False, k') \<Rightarrow> try_candidates try_connect retries cs k')"

definition find_direct_path :: "(nat \<Rightarrow> socket_addr \<Rightarrow> bool) \<Rightarrow> u32 \<Rightarrow> candidate list \<Rightarrow> socket_addr option" where
  "find_direct_path try_connect retry_count candidates =
     try_candidates try_connect (unat retry_count) (sort_key (\<lambda>c. - uint (cand_priority c)) candidates) 0"

section \<open>The relay socket\<close>

definition MAX_RELAY_PAYLOAD :: nat where
  "MAX_RELAY_PAYLOAD = 1200"

definition MAX_RELAY_PACKET :: nat where
  "MAX_RELAY_PACKET = 1232"

record relay_udp_socket =
  rus_relay_addr :: socket_addr
  rus_relay_token :: relay_token

text \<open>The socket below takes a datagram with its destination.\<close>

definition socket_try_send :: "relay_udp_socket \<Rightarrow> (socket_addr \<times> bytes \<Rightarrow> (unit, string) outcome) \<Rightarrow> socket_addr \<Rightarrow> bytes \<Rightarrow>
    (unit, string) outcome \<times> (socket_addr \<times> bytes) option" where
  "socket_try_send s try_send_to dest contents =
     (let forward = (\<lambda>d. (try_send_to d, if try_send_to d = Ok () then Some d else None))
      in if dest = rus_relay_addr s then
           (if length contents > MAX_RELAY_PAYLOAD then (Ok (), None) else forward (dest, rus_relay_token s @ contents))
         else forward (dest, contents))"

record recv_meta =
  rm_addr :: socket_addr
  rm_len :: nat
  rm_stride :: nat

text \<open>
  The answer is the number of datagrams, the entry for the first of them and what is then in the first buffer.  \<open>None\<close> means that nothing
  has arrived.
\<close>

definition socket_poll_recv :: "relay_udp_socket \<Rightarrow> bytes list \<Rightarrow> (socket_addr \<times> bytes, string) outcome option \<Rightarrow>
    (nat \<times> recv_meta option \<times> bytes, string) outcome option" where
  "socket_poll_recv s bufs arrived =
     (case bufs of
        [] \<Rightarrow> Some (Ok (0, None, []))
      | buf # _ \<Rightarrow>
          map_option (\<lambda>r. obind r (\<lambda>(addr, datagram).
            let tmp = take MAX_RELAY_PACKET datagram;
                dropped = (1, Some \<lparr>rm_addr = addr, rm_len = 0, rm_stride = 0\<rparr>, buf);
                filled = (\<lambda>payload. (1, Some \<lparr>rm_addr = addr, rm_len = length payload, rm_stride = length payload\<rparr>, payload @ drop (length payload) buf))
            in Ok (if addr = rus_relay_addr s then
                     (if length tmp < RELAY_HEADER_LEN then dropped
                      else let payload = drop RELAY_HEADER_LEN tmp
                           in if length buf < length payload then dropped else filled payload)
                   else if length buf < length tmp then dropped else filled tmp))) arrived)"

section \<open>Through the relay\<close>

text \<open>The network of a client is the relay: a datagram that the relay sends to another address does not arrive here.\<close>

definition relay_net :: "sig_lib \<Rightarrow> relay_cbor \<Rightarrow> relay_env \<Rightarrow> socket_addr \<Rightarrow> relay_state network" where
  "relay_net S C E src packet L =
     (case relay_datagram S C None L E src packet of
        (Some (dst, out), L') \<Rightarrow> (if dst = src then Some (Ok out) else None, L')
      | (None, L') \<Rightarrow> (None, L'))"

definition carries :: "client_cbor \<Rightarrow> relay_cbor \<Rightarrow> relay_message \<Rightarrow> bool" where
  "carries W C m \<longleftrightarrow> (\<exists>body. cw_write W m = Ok body \<and> rc_read C body = Some m \<and> length body \<le> 1394) \<and>
     cw_read W (rc_append C m) = Ok m \<and> length (rc_append C m) \<le> 4090"

definition server_reply :: "(relay_message, relay_error) outcome \<Rightarrow> relay_message" where
  "server_reply r = (case r of Ok m \<Rightarrow> m | Err e \<Rightarrow> ErrorResponse (relay_error_display e) | Panic \<Rightarrow> ErrorResponse [])"

text \<open>A call reaches the handler and the client reads its answer.\<close>

lemma call_through_relay:
  assumes "carries W C m" "handle_message_from S (rl_server L) E m (Some src) = (r, R)" "r \<noteq> Panic" "carries W C (server_reply r)"
  shows "call W (relay_net S C E src) m answer L = (Some (answer (server_reply r)), L\<lparr>rl_server := R\<rparr>)"
proof -
  obtain body where b: "cw_write W m = Ok body" "rc_read C body = Some m" "length body \<le> 1394"
    using assms(1) by (auto simp: carries_def)
  have "take MAX_DATAGRAM (CONTROL_MAGIC @ body) = CONTROL_MAGIC @ body" using b(3) by (simp add: MAX_DATAGRAM_def CONTROL_MAGIC_def)
  then have "relay_net S C E src (CONTROL_MAGIC @ body) L = (Some (Ok (CONTROL_MAGIC @ rc_append C (server_reply r))), L\<lparr>rl_server := R\<rparr>)"
    using assms(2,3) b(2) by (cases r) (simp_all add: relay_net_def relay_datagram_def Let_def is_control_def relay_control_def server_reply_def)
  moreover have "client_reply W (CONTROL_MAGIC @ rc_append C (server_reply r)) = Ok (server_reply r)"
    using assms(4) by (simp add: client_reply_def carries_def CONTROL_MAGIC_def)
  ultimately show ?thesis using b(1) by (simp add: call_def send_recv_def)
qed

lemma relay_call:
  assumes "handle_message_from S R E m (Some src) = (Ok m', R')" "carries W C m" "carries W C m'"
  shows "call W (relay_net S C E src) m answer \<lparr>rl_server = R, rl_dev = D\<rparr> = (Some (answer m'), \<lparr>rl_server = R', rl_dev = D\<rparr>)"
  using call_through_relay [of W C m S "\<lparr>rl_server = R, rl_dev = D\<rparr>" E src "Ok m'" R' answer] assms by (simp add: server_reply_def)

definition signer :: "sig_lib \<Rightarrow> bytes \<Rightarrow> (bytes \<Rightarrow> bytes) \<Rightarrow> bool" where
  "signer S k sign \<longleftrightarrow> sl_key_valid S k \<and> (\<forall>m. length (sign m) = 64 \<and> sl_verify S k m (sign m))"

definition registered_as :: "relay_control_client \<Rightarrow> relay_server \<Rightarrow> bool" where
  "registered_as cl R \<longleftrightarrow> (\<exists>ctx. map_of (rs_registry R) (rcc_device_id cl) = Some ctx \<and> cc_verify_key_bytes ctx = rcc_verify_key cl)"

lemma register_succeeds:
  assumes "signer S k sign" "cl = client_connect S k sign" "abs_diff (env_now E) ts \<le> TIMESTAMP_WINDOW_MS" "length (rs_registry R) < MAX_REGISTRATIONS"
  shows "\<exists>ctx. handle_message_from S R E (register_request S cl ts) (Some x) = (Ok (RegisterAck (rs_next_session_id R) (Some x)),
      R\<lparr>rs_next_session_id := rs_next_session_id R + 1, rs_registry := AList.update (rcc_device_id cl) ctx (rs_registry R)\<rparr>) \<and>
    cc_verify_key_bytes ctx = k"
  using assms
  by (simp add: register_request_def handle_register_def client_connect_def signer_def verify_key_from_bytes_def device_id_of_key_def key_verify_def
      register_payload_def Let_def not_le not_less) (rule exI, rule conjI, rule refl, simp)

lemma registered_key:
  assumes "signer S k sign" "cl = client_connect S k sign" "registered_as cl R"
  shows "verify_key_for S R (rcc_device_id cl) = Ok (VerifyKey k)" "is_registered R (rcc_device_id cl)"
    "key_verify S (VerifyKey k) p (rcc_sign cl p)" "length (rcc_sign cl p) = 64"
  using assms by (auto simp: registered_as_def client_connect_def signer_def verify_key_for_def verify_key_from_bytes_def key_verify_def is_registered_def)

lemma connect_first:
  assumes "connect_signed S R E a b i ts sig" "rs_rendezvous R = []"
  shows "handle_message_from S R E (ConnectIntent a b i ca ts sig) peer =
    (Ok (ConnectInvite a i), R\<lparr>rs_rendezvous := [(i, pending_with a b ca (env_rendezvous_now E))]\<rparr>)"
  by (simp add: connect_signed_eq [OF assms(1)] register_intent_def Let_def pending_with_def assms(2) MAX_INTENTS_def)

lemma poll_first:
  assumes "is_registered R b" "rs_rendezvous R = [(i, pending_with a b ca t)]" "saturating_sub (env_rendezvous_now E) INTENT_TIMEOUT_MS < t"
  shows "handle_message_from S R E (PollPendingIntents b) peer = (Ok (PendingIntents [\<lparr>pii_from = a, pii_intent_id = i\<rparr>]), R)"
  using assms by (simp add: handle_poll_pending_intents_def pending_for_def pending_with_def Let_def)

lemma id_array_exact [simp]: "length i = 16 \<Longrightarrow> id_array i = i"
  by (simp add: id_array_def)

text \<open>Two clients and a relay that has just been started.\<close>

lemma registered_pair:
  assumes keys: "signer S ka sa" "signer S kb sb" "A = client_connect S ka sa" "B = client_connect S kb sb" "rcc_device_id A \<noteq> rcc_device_id B"
    and tm: "abs_diff (env_now E0) t0 \<le> TIMESTAMP_WINDOW_MS" "abs_diff (env_now E1) t1 \<le> TIMESTAMP_WINDOW_MS"
  shows "\<exists>R1 R2. handle_message_from S (relay_with_limits rate expiry) E0 (register_request S A t0) (Some x) = (Ok (RegisterAck 1 (Some x)), R1) \<and>
    handle_message_from S R1 E1 (register_request S B t1) (Some y) = (Ok (RegisterAck 2 (Some y)), R2) \<and>
    registered_as A R2 \<and> registered_as B R2 \<and> rs_rendezvous R2 = [] \<and> rs_forwarding R2 = with_limits rate expiry"
proof -
  let ?R0 = "relay_with_limits rate expiry"
  have r0: "rs_registry ?R0 = []" "rs_next_session_id ?R0 = 1" "rs_rendezvous ?R0 = []" "rs_forwarding ?R0 = with_limits rate expiry"
    by (simp_all add: relay_with_limits_def rendezvous_new_def)
  obtain cx where 1: "handle_message_from S ?R0 E0 (register_request S A t0) (Some x) = (Ok (RegisterAck 1 (Some x)),
      ?R0\<lparr>rs_next_session_id := 2, rs_registry := [(rcc_device_id A, cx)]\<rparr>)" "cc_verify_key_bytes cx = ka"
    using register_succeeds [OF keys(1,3) tm(1), of ?R0 x] unfolding r0 by (auto simp: MAX_REGISTRATIONS_def)
  let ?R1 = "?R0\<lparr>rs_next_session_id := 2, rs_registry := [(rcc_device_id A, cx)]\<rparr>"
  have "length (rs_registry ?R1) < MAX_REGISTRATIONS" by (simp add: MAX_REGISTRATIONS_def)
  then obtain cy where 2: "handle_message_from S ?R1 E1 (register_request S B t1) (Some y) = (Ok (RegisterAck 2 (Some y)),
      ?R1\<lparr>rs_next_session_id := 3, rs_registry := [(rcc_device_id A, cx), (rcc_device_id B, cy)]\<rparr>)" "cc_verify_key_bytes cy = kb"
    using register_succeeds [OF keys(2,4) tm(2), of ?R1 y] keys(5) by auto
  show ?thesis
    by (rule exI [of _ ?R1], rule exI, rule conjI, rule 1(1), rule conjI, rule 2(1))
      (use 1(2) 2(2) keys(3-5) r0 in \<open>simp add: registered_as_def client_connect_def\<close>)
qed

text \<open>The messages of a whole rendezvous, requests and answers, and the path of a datagram of the initiator.\<close>

definition rendezvous_messages :: "sig_lib \<Rightarrow> relay_control_client \<Rightarrow> relay_control_client \<Rightarrow> bytes \<Rightarrow> candidate list \<Rightarrow> relay_token \<Rightarrow>
    socket_addr \<Rightarrow> socket_addr \<Rightarrow> (nat \<Rightarrow> u64) \<Rightarrow> relay_message list" where
  "rendezvous_messages S A B i ca token x y ts =
     [register_request S A (ts 0), RegisterAck 1 (Some x), register_request S B (ts 1), RegisterAck 2 (Some y),
      connect_request S A (rcc_device_id B) i ca (ts 2), ConnectInvite (rcc_device_id A) i,
      PollPendingIntents (rcc_device_id B), PendingIntents [\<lparr>pii_from = rcc_device_id A, pii_intent_id = i\<rparr>],
      accept_request S B i (rcc_device_id A) [] (ts 4), CandidateExchange i ca token,
      GetCandidates (rcc_device_id A) i, CandidateExchange i [] token,
      establish_request S A i (ts 6), establish_request S B i (ts 7), RelayEstablishAck i]"

definition through_relay :: "sig_lib \<Rightarrow> relay_cbor \<Rightarrow> relay_state \<Rightarrow> relay_env \<Rightarrow> socket_addr \<Rightarrow> relay_token \<Rightarrow> socket_addr \<Rightarrow> bytes \<Rightarrow> bytes \<Rightarrow>
    (socket_addr \<times> (nat \<times> recv_meta option \<times> bytes, string) outcome option) option" where
  "through_relay S C L E relay token src buf contents =
     (let s = \<lparr>rus_relay_addr = relay, rus_relay_token = token\<rparr>
      in case socket_try_send s (\<lambda>_. Ok ()) relay contents of
           (_, None) \<Rightarrow> None
         | (_, Some (_, packet)) \<Rightarrow>
             map_option (\<lambda>(dst, out). (dst, socket_poll_recv s [buf] (Some (Ok (relay, out))))) (fst (relay_datagram S C None L E src packet)))"

lemma length_magic: "length CONTROL_MAGIC = 6"
  by (simp add: CONTROL_MAGIC_def)

lemma through_relay_delivers:
  assumes "length token = 32" "take (length CONTROL_MAGIC) token \<noteq> CONTROL_MAGIC" "length contents \<le> MAX_RELAY_PAYLOAD" "length contents \<le> length buf"
    and "fst (get_destination (rs_forwarding (rl_server L)) (env_forwarding_now E) token x (32 + length contents)) = Some y"
  shows "through_relay S C L E relay token x buf contents =
    Some (y, Some (Ok (1, Some \<lparr>rm_addr = relay, rm_len = length contents, rm_stride = length contents\<rparr>, contents @ drop (length contents) buf)))"
proof -
  let ?packet = "token @ contents"
  have l: "length ?packet \<le> 1232" using assms(1,3) by (simp add: MAX_RELAY_PAYLOAD_def)
  have c: "\<not> is_control ?packet" "take MAX_DATAGRAM ?packet = ?packet" "take MAX_RELAY_PACKET ?packet = ?packet"
    using assms(1,2) l by (auto simp: is_control_def MAX_DATAGRAM_def MAX_RELAY_PACKET_def length_magic)
  obtain F where "get_destination (rs_forwarding (rl_server L)) (env_forwarding_now E) token x (32 + length contents) = (Some y, F)"
    using assms(5) by (metis prod.collapse)
  then have "fst (relay_datagram S C None L E x ?packet) = Some (y, ?packet)"
    using c(1,2) assms(1) by (simp add: relay_datagram_def Let_def relay_data_def RELAY_HEADER_LEN_def split: prod.splits)
  then show ?thesis
    using assms(1,3,4)
    by (simp add: through_relay_def socket_try_send_def socket_poll_recv_def RELAY_HEADER_LEN_def MAX_RELAY_PACKET_def MAX_RELAY_PAYLOAD_def Let_def)
qed

lemma session_handlers:
  fixes E :: "nat \<Rightarrow> relay_env"
  assumes keys: "signer S ka sa" "signer S kb sb" "A = client_connect S ka sa" "B = client_connect S kb sb" "rcc_device_id A \<noteq> rcc_device_id B"
    and id: "length i = 16" "env_random (E 4) = Some token"
    and tm: "\<And>k. k < 8 \<Longrightarrow> abs_diff (env_now (E k)) (ts k) \<le> TIMESTAMP_WINDOW_MS"
      "saturating_sub (env_rendezvous_now (E 3)) INTENT_TIMEOUT_MS < env_rendezvous_now (E 2)"
      "saturating_sub (env_rendezvous_now (E 4)) (env_rendezvous_now (E 2)) \<le> INTENT_TIMEOUT_MS"
      "times_ok (env_forwarding_now (E 4)) expiry [env_forwarding_now (E 6), env_forwarding_now (E 7), env_forwarding_now (E 8)]"
      "unat (env_forwarding_now (E 4)) \<le> unat (env_forwarding_now (E 6))" "unat (env_forwarding_now (E 4)) \<le> unat (env_forwarding_now (E 7))"
    and rate: "n \<le> unat rate" "unat rate < 2 ^ 53"
  obtains R1 R2 R3 R4 R5 R6 R7
  where "handle_message_from S (relay_with_limits rate expiry) (E 0) (register_request S A (ts 0)) (Some x) = (Ok (RegisterAck 1 (Some x)), R1)"
    "handle_message_from S R1 (E 1) (register_request S B (ts 1)) (Some y) = (Ok (RegisterAck 2 (Some y)), R2)"
    "handle_message_from S R2 (E 2) (connect_request S A (rcc_device_id B) i ca (ts 2)) (Some x) = (Ok (ConnectInvite (rcc_device_id A) i), R3)"
    "handle_message_from S R3 (E 3) (PollPendingIntents (rcc_device_id B)) (Some y) =
       (Ok (PendingIntents [\<lparr>pii_from = rcc_device_id A, pii_intent_id = i\<rparr>]), R3)"
    "handle_message_from S R3 (E 4) (accept_request S B i (rcc_device_id A) [] (ts 4)) (Some y) = (Ok (CandidateExchange i ca token), R4)"
    "handle_message_from S R4 (E 5) (GetCandidates (rcc_device_id A) i) (Some x) = (Ok (CandidateExchange i [] token), R5)"
    "handle_message_from S R5 (E 6) (establish_request S A i (ts 6)) (Some x) = (Ok (RelayEstablishAck i), R6)"
    "handle_message_from S R6 (E 7) (establish_request S B i (ts 7)) (Some y) = (Ok (RelayEstablishAck i), R7)"
    "fst (get_destination (rs_forwarding R7) (env_forwarding_now (E 8)) token x n) = Some y"
proof -
  let ?a = "rcc_device_id A" and ?b = "rcc_device_id B"
  note t = tm(1)
  obtain R1 R2 where R: "handle_message_from S (relay_with_limits rate expiry) (E 0) (register_request S A (ts 0)) (Some x) = (Ok (RegisterAck 1 (Some x)), R1)"
      "handle_message_from S R1 (E 1) (register_request S B (ts 1)) (Some y) = (Ok (RegisterAck 2 (Some y)), R2)"
    and reg: "registered_as A R2" "registered_as B R2" "rs_rendezvous R2 = []" "rs_forwarding R2 = with_limits rate expiry"
    using registered_pair [OF keys t [of 0] t [of 1], of rate expiry x y] by auto
  note ka = registered_key [OF keys(1,3) reg(1)] and kb = registered_key [OF keys(2,4) reg(2)]
  have signed: "connect_signed S R2 (E 2) ?a ?b i (ts 2) (rcc_sign A (connect_payload S i ?a ?b (ts 2)))"
    "establish_signed S R2 (E 6) i ?a (ts 6) (rcc_sign A (establish_payload S i ?a (ts 6)))"
    "establish_signed S R2 (E 7) i ?b (ts 7) (rcc_sign B (establish_payload S i ?b (ts 7)))"
    using ka kb t id(1) by (auto simp: connect_signed_def establish_signed_def)
  define R3 where "R3 = R2\<lparr>rs_rendezvous := [(i, pending_with ?a ?b ca (env_rendezvous_now (E 2)))]\<rparr>"
  have c: "handle_message_from S R2 (E 2) (connect_request S A ?b i ca (ts 2)) (Some x) = (Ok (ConnectInvite ?a i), R3)"
    using connect_first [OF signed(1) reg(3), of ca "Some x"] by (simp add: connect_request_def connect_payload_def R3_def)
  have p: "handle_message_from S R3 (E 3) (PollPendingIntents ?b) (Some y) = (Ok (PendingIntents [\<lparr>pii_from = ?a, pii_intent_id = i\<rparr>]), R3)"
    using poll_first [of R3 ?b i ?a ca "env_rendezvous_now (E 2)" "E 3"] kb(2) tm(2) by (simp add: R3_def)
  obtain q4 R4 where 4: "handle_message_from S R3 (E 4) (accept_request S B i ?a [] (ts 4)) (Some y) = (q4, R4)" by fastforce
  obtain q5 R5 where 5: "handle_message_from S R4 (E 5) (GetCandidates ?a i) (Some x) = (q5, R5)" by fastforce
  obtain q6 R6 where 6: "handle_message_from S R5 (E 6) (establish_request S A i (ts 6)) (Some x) = (q6, R6)" by fastforce
  obtain q7 R7 where 7: "handle_message_from S R6 (E 7) (establish_request S B i (ts 7)) (Some y) = (q7, R7)" by fastforce
  have "q4 = Ok (CandidateExchange i ca token) \<and> q5 = Ok (CandidateExchange i [] token) \<and> q6 = Ok (RelayEstablishAck i) \<and>
      q7 = Ok (RelayEstablishAck i) \<and> fst (get_destination (rs_forwarding R7) (env_forwarding_now (E 8)) token x n) = Some y"
    using rendezvous_steps [OF signed(1) _ _ kb(1) kb(3,4) t id(2) tm(3) signed(2,3) keys(5) _ tm(5,6) _ _ _
        c [unfolded connect_request_def, folded connect_payload_def] 4 [unfolded accept_request_def, folded accept_payload_def] 5
        6 [unfolded establish_request_def, folded establish_payload_def] 7 [unfolded establish_request_def, folded establish_payload_def],
        of "env_forwarding_now (E 8)" n] tm(4) rate reg
    by (simp add: MAX_INTENTS_def with_limits_def)
  then show ?thesis using R c p 4 5 6 7 by (intro that) auto
qed


section \<open>A concrete session\<close>

text \<open>A code of a list of messages: every message is its position.\<close>

fun position_of :: "'a list \<Rightarrow> 'a \<Rightarrow> nat" where
  "position_of [] m = 0"
| "position_of (x # xs) m = (if x = m then 0 else Suc (position_of xs m))"

lemma position_of_nth: "m \<in> set ms \<Longrightarrow> position_of ms m < length ms \<and> ms ! position_of ms m = m"
  by (induction ms) auto

definition list_wire :: "relay_message list \<Rightarrow> client_cbor" where
  "list_wire ms = \<lparr>cw_write = \<lambda>m. Ok [of_nat (position_of ms m)], cw_read = \<lambda>bs. Ok (ms ! unat (hd bs)), cw_debug = \<lambda>_. []\<rparr>"

definition list_cbor :: "relay_message list \<Rightarrow> relay_cbor" where
  "list_cbor ms = \<lparr>rc_append = \<lambda>m. [of_nat (position_of ms m)], rc_read = \<lambda>bs. Some (ms ! unat (hd bs))\<rparr>"

lemma list_code_carries: "length ms < 256 \<Longrightarrow> list_all (carries (list_wire ms) (list_cbor ms)) ms"
proof -
  assume l: "length ms < 256"
  have "carries (list_wire ms) (list_cbor ms) m" if "m \<in> set ms" for m
  proof -
    have p: "unat (of_nat (position_of ms m) :: u8) = position_of ms m" "ms ! position_of ms m = m"
      using position_of_nth [OF that] l by (auto simp: unat_of_nat)
    show ?thesis unfolding carries_def list_wire_def list_cbor_def by (simp add: p)
  qed
  then show ?thesis by (simp add: list_all_iff)
qed

definition demo_client :: "u8 \<Rightarrow> relay_control_client" where
  "demo_client k = client_connect demo_sig [k] (demo_sign [k])"

definition demo_messages :: "relay_message list" where
  "demo_messages = rendezvous_messages demo_sig (demo_client 10) (demo_client 20) demo_intent [cand_host demo_a] (replicate 32 9) demo_a demo_b (\<lambda>_. 5)"

definition demo_net :: "socket_addr \<Rightarrow> relay_state network" where
  "demo_net src = relay_net demo_sig (list_cbor demo_messages) demo_env src"


section \<open>The driver and the checker\<close>

text \<open>Rejected intents do not end the driver; a rejected poll does.\<close>

lemma driver_keeps_polling:
  assumes "\<And>n. \<exists>intents n'. poll n = (Some (Ok intents), n')"
    and "\<And>i d n. \<exists>r n'. accept i d n = (Some r, n') \<and> r \<noteq> Panic \<and> (\<forall>e. r = Err e \<longrightarrow> (\<exists>why. e = Rejected why \<or> e = ClientProtocol why))"
  shows "fst (snd (driver_run (next_session_token poll accept) srv k n)) = Sleeping"
proof -
  have round: "\<exists>t n'. next_session_token poll accept n = (Some (Ok t), n')" for n
  proof -
    obtain intents n1 where p: "poll n = (Some (Ok intents), n1)" using assms(1) by blast
    show ?thesis
    proof (cases intents)
      case (Cons x xs)
      obtain i d where x: "x = (i, d)" by (cases x)
      obtain r n2 where a: "accept i d n1 = (Some r, n2)" "r \<noteq> Panic" "\<forall>e. r = Err e \<longrightarrow> (\<exists>why. e = Rejected why \<or> e = ClientProtocol why)"
        using assms(2) by blast
      then show ?thesis using p Cons x by (cases r) (auto simp: next_session_token_def)
    qed (use p in \<open>simp add: next_session_token_def\<close>)
  qed
  show ?thesis
  proof (induction k arbitrary: n)
    case (Suc k)
    obtain t n' where t: "next_session_token poll accept n = (Some (Ok t), n')" using round by blast
    show ?case
    proof (cases t)
      case (Some token)
      then show ?thesis using t Suc.IH [of "srv token n'"] by (auto simp: driver_round_def split: prod.split)
    qed (use t Suc.IH [of n'] in \<open>simp add: driver_round_def\<close>)
  qed simp
qed

lemma driver_ends_on_rejected_poll:
  "poll n = (Some (Err (Rejected why)), n') \<Longrightarrow>
     driver_run (next_session_token poll accept) srv (Suc k) n = ([], Ended (Err (Rejected why)), n')"
  by (simp add: next_session_token_def driver_round_def)

lemma try_candidate_constant: "fst (try_candidate (\<lambda>_. reach) retries addr k) \<longleftrightarrow> retries > 0 \<and> reach addr"
  by (induction retries arbitrary: k) auto

lemma try_candidates_constant:
  "retries > 0 \<Longrightarrow> try_candidates (\<lambda>_. reach) retries cs k = map_option cand_addr (find (\<lambda>c. reach (cand_addr c)) cs)"
proof (induction cs arbitrary: k)
  case (Cons c cs)
  obtain ok k' where t: "try_candidate (\<lambda>_. reach) retries (cand_addr c) k = (ok, k')" by fastforce
  then have "ok = reach (cand_addr c)" using try_candidate_constant [of reach retries "cand_addr c" k] Cons.prems by simp
  then show ?case using t Cons by (cases ok) simp_all
qed simp

lemma find_sorted:
  assumes "find P xs = Some c" "sorted (map f xs)"
  shows "P c \<and> c \<in> set xs \<and> (\<forall>c' \<in> set xs. P c' \<longrightarrow> f c \<le> f c')"
  using assms by (induction xs) (auto split: if_splits)

text \<open>C35: The checker finds the reachable candidate of the highest priority, and reports a failure exactly when there is none.\<close>
theorem checker_best:
  assumes "retry_count > 0" "result = find_direct_path (\<lambda>_. reach) retry_count candidates"
  shows "(result = None \<longleftrightarrow> (\<forall>c \<in> set candidates. \<not> reach (cand_addr c))) \<and>
    (\<forall>a. result = Some a \<longrightarrow> (\<exists>c \<in> set candidates. cand_addr c = a \<and> reach a \<and>
       (\<forall>c' \<in> set candidates. reach (cand_addr c') \<longrightarrow> cand_priority c' \<le> cand_priority c)))"
proof -
  let ?k = "\<lambda>c. - uint (cand_priority c)" and ?P = "\<lambda>c. reach (cand_addr c)"
  have r: "result = map_option cand_addr (find ?P (sort_key ?k candidates))"
    using assms by (simp add: find_direct_path_def try_candidates_constant word_gt_0 unat_gt_0)
  show ?thesis
  proof (cases "find ?P (sort_key ?k candidates)")
    case None
    then have "\<forall>c \<in> set candidates. \<not> ?P c" by (simp add: find_None_iff)
    then show ?thesis using r None by simp
  next
    case (Some c)
    then have "?P c" "c \<in> set candidates" "\<forall>c' \<in> set candidates. ?P c' \<longrightarrow> cand_priority c' \<le> cand_priority c"
      using find_sorted [OF Some, of ?k] by (auto simp: word_le_def)
    then show ?thesis using r Some by auto
  qed
qed

theorem checker_best_witness:
  "find_direct_path (\<lambda>_ a. a = demo_b) 3 [cand_relay_addr demo_a, cand_host demo_b] \<noteq> None"
  using checker_best [of 3 "find_direct_path (\<lambda>_ a. a = demo_b) 3 [cand_relay_addr demo_a, cand_host demo_b]" "\<lambda>a. a = demo_b"
      "[cand_relay_addr demo_a, cand_host demo_b]"] by (simp add: cand_host_def)

end
