(* ===== verification/BW_Pool.thy ===== *)
theory BW_Pool
  imports BW_Prelude
begin

text \<open>
  The slot pools of \<^verbatim>\<open>bw-core\<close>: the lock-free stack of slots with tagged indices (\<^verbatim>\<open>pool.rs\<close>) and the pool with
  occupancy flags (\<^verbatim>\<open>memory.rs\<close>).  Threads run the atomic operations of \<open>checkout\<close> and \<open>release\<close> one at a time and in any
  interleaving (sequential consistency); the generation tag keeps its 16 bits.
\<close>

section \<open>Tagged indices\<close>

definition IDX_MASK :: u64 where
  "IDX_MASK = 0x0000FFFFFFFFFFFF"

definition tagged_new :: "u16 \<Rightarrow> nat \<Rightarrow> u64" where
  "tagged_new g i = push_bit 48 (ucast g) OR (of_nat i AND IDX_MASK)"

definition tagged_generation :: "u64 \<Rightarrow> u16" where
  "tagged_generation w = ucast (drop_bit 48 w)"

definition tagged_index :: "u64 \<Rightarrow> nat" where
  "tagged_index w = unat (w AND IDX_MASK)"

section \<open>The pool\<close>

datatype zeroize_policy = Never | OnRelease

record slot =
  slot_bytes :: bytes
  slot_locked :: bool
  slot_poisoned :: bool

record pool =
  pool_memory :: "slot list"
  pool_nodes :: "nat list"
  pool_head :: u64
  pool_policy :: zeroize_policy
  successful_checkouts :: u64
  pool_exhaustion :: u64

definition pool_new :: "nat \<Rightarrow> nat \<Rightarrow> zeroize_policy \<Rightarrow> pool" where
  "pool_new slot_size pool_size policy =
     \<lparr>pool_memory = replicate pool_size \<lparr>slot_bytes = replicate slot_size 0, slot_locked = False, slot_poisoned = False\<rparr>,
      pool_nodes = map Suc [0..<pool_size], pool_head = tagged_new 0 0, pool_policy = policy,
      successful_checkouts = 0, pool_exhaustion = 0\<rparr>"

text \<open>
  Where a thread stands in \<open>checkout\<close>, with a guard in hand, or in the guard's \<open>drop\<close>.  \<open>Refused\<close> is the result
  \<open>PoolAllocationBoundaryViolated\<close>, \<open>Panicked\<close> the panic on a poisoned mutex.
\<close>

datatype pc =
    Idle
  | CheckoutLoaded u64
  | CheckoutRead u64 nat
  | Locking nat
  | Holding nat
  | Dropping nat
  | ReleaseLoaded nat u64
  | ReleaseStored nat u64
  | Unlocking nat
  | Refused
  | Panicked nat

text \<open>What is not determined by the state: a spurious failure of the weak exchange, what the owner writes, an unwinding owner.\<close>

record choice =
  ch_spurious :: bool
  ch_write :: "bytes option"
  ch_panicking :: bool

definition compare_exchange_weak :: "pool \<Rightarrow> choice \<Rightarrow> u64 \<Rightarrow> u64 \<Rightarrow> pool option" where
  "compare_exchange_weak P ch current new =
     (if pool_head P = current \<and> \<not> ch_spurious ch then Some (P\<lparr>pool_head := new\<rparr>) else None)"

fun checkout_step :: "pool \<Rightarrow> choice \<Rightarrow> pc \<Rightarrow> (pool \<times> pc) option" where
  "checkout_step P ch Idle = Some (P, CheckoutLoaded (pool_head P))"
| "checkout_step P ch (CheckoutLoaded h) =
     (let index = tagged_index h in
      if index \<ge> length (pool_memory P) then Some (P\<lparr>pool_exhaustion := pool_exhaustion P + 1\<rparr>, Refused)
      else Some (P, CheckoutRead h (pool_nodes P ! index)))"
| "checkout_step P ch (CheckoutRead h next_index) =
     (case compare_exchange_weak P ch h (tagged_new (tagged_generation h + 1) next_index) of
        Some P' \<Rightarrow> Some (P'\<lparr>successful_checkouts := successful_checkouts P + 1\<rparr>, Locking (tagged_index h))
      | None \<Rightarrow> Some (P, CheckoutLoaded (pool_head P)))"
| "checkout_step P ch (Locking index) =
     (let s = pool_memory P ! index in
      if slot_locked s then None
      else if slot_poisoned s then Some (P, Panicked index)
      else Some (P\<lparr>pool_memory := (pool_memory P)[index := s\<lparr>slot_locked := True\<rparr>]\<rparr>, Holding index))"
| "checkout_step P ch _ = None"

fun guard_step :: "pool \<Rightarrow> choice \<Rightarrow> pc \<Rightarrow> (pool \<times> pc) option" where
  "guard_step P ch (Holding index) =
     (let s = pool_memory P ! index in
      case ch_write ch of
        Some bs \<Rightarrow> if length bs = length (slot_bytes s)
           then Some (P\<lparr>pool_memory := (pool_memory P)[index := s\<lparr>slot_bytes := bs\<rparr>]\<rparr>, Holding index) else None
      | None \<Rightarrow> Some ((if pool_policy P = OnRelease
           then P\<lparr>pool_memory := (pool_memory P)[index := s\<lparr>slot_bytes := replicate (length (slot_bytes s)) 0\<rparr>]\<rparr> else P), Dropping index))"
| "guard_step P ch (Unlocking index) =
     Some (P\<lparr>pool_memory := (pool_memory P)[index := (pool_memory P ! index)\<lparr>slot_locked := False,
        slot_poisoned := slot_poisoned (pool_memory P ! index) \<or> ch_panicking ch\<rparr>]\<rparr>, Idle)"
| "guard_step P ch _ = None"

fun release_step :: "pool \<Rightarrow> choice \<Rightarrow> pc \<Rightarrow> (pool \<times> pc) option" where
  "release_step P ch (Dropping index) = Some (P, ReleaseLoaded index (pool_head P))"
| "release_step P ch (ReleaseLoaded index h) =
     Some (P\<lparr>pool_nodes := (pool_nodes P)[index := tagged_index h]\<rparr>, ReleaseStored index h)"
| "release_step P ch (ReleaseStored index h) =
     (case compare_exchange_weak P ch h (tagged_new (tagged_generation h + 1) index) of
        Some P' \<Rightarrow> Some (P', Unlocking index)
      | None \<Rightarrow> Some (P, ReleaseLoaded index (pool_head P)))"
| "release_step P ch _ = None"

definition pool_step :: "pool \<Rightarrow> choice \<Rightarrow> pc \<Rightarrow> (pool \<times> pc) option" where
  "pool_step P ch c =
     (case checkout_step P ch c of
        Some r \<Rightarrow> Some r
      | None \<Rightarrow> (case release_step P ch c of Some r \<Rightarrow> Some r | None \<Rightarrow> guard_step P ch c))"

section \<open>The pool with occupancy flags\<close>

record flag_pool =
  fp_memory :: "bytes list"
  fp_flags :: "bool list"

definition flag_pool_new :: "nat \<Rightarrow> nat \<Rightarrow> flag_pool" where
  "flag_pool_new pool_size slot_capacity = \<lparr>fp_memory = replicate pool_size (replicate slot_capacity 0), fp_flags = replicate pool_size False\<rparr>"

fun flag_scan :: "bool list \<Rightarrow> nat list \<Rightarrow> nat option" where
  "flag_scan flags [] = None"
| "flag_scan flags (index # is) = (if \<not> flags ! index then Some index else flag_scan flags is)"

definition flag_checkout :: "flag_pool \<Rightarrow> nat option \<times> flag_pool" where
  "flag_checkout P =
     (case flag_scan (fp_flags P) [0..<length (fp_flags P)] of
        None \<Rightarrow> (None, P)
      | Some index \<Rightarrow> (Some index, P\<lparr>fp_flags := (fp_flags P)[index := True]\<rparr>))"

definition flag_write :: "flag_pool \<Rightarrow> nat \<Rightarrow> bytes \<Rightarrow> flag_pool" where
  "flag_write P index bs = P\<lparr>fp_memory := (fp_memory P)[index := bs]\<rparr>"

definition flag_drop :: "flag_pool \<Rightarrow> nat \<Rightarrow> flag_pool" where
  "flag_drop P index =
     P\<lparr>fp_memory := (fp_memory P)[index := replicate (length (fp_memory P ! index)) 0], fp_flags := (fp_flags P)[index := False]\<rparr>"

section \<open>Tags\<close>

lemma IDX_MASK_eq: "IDX_MASK = mask 48"
  by (simp add: IDX_MASK_def mask_eq_exp_minus_1)

lemma tagged_index_new [simp]: "i < 2 ^ 48 \<Longrightarrow> tagged_index (tagged_new g i) = i"
proof -
  assume i: "i < 2 ^ 48"
  have "(tagged_new g i) AND IDX_MASK = of_nat i AND IDX_MASK"
    unfolding tagged_new_def IDX_MASK_eq by (rule bit_word_eqI) (auto simp: bit_simps)
  also have "\<dots> = of_nat i"
    using i unfolding IDX_MASK_eq take_bit_eq_mask [symmetric] by (simp add: take_bit_of_nat take_bit_nat_eq_self)
  finally show ?thesis using i by (simp add: tagged_index_def unat_of_nat take_bit_nat_eq_self)
qed

lemma tagged_generation_new [simp]: "tagged_generation (tagged_new g i) = g"
  unfolding tagged_generation_def tagged_new_def IDX_MASK_eq by (rule bit_word_eqI) (auto simp: bit_simps)

lemma tagged_new_surj: "tagged_new (tagged_generation h) (tagged_index h) = h"
  unfolding tagged_generation_def tagged_new_def tagged_index_def IDX_MASK_eq by (rule bit_word_eqI) (auto simp: bit_simps)

lemma tagged_inject: "tagged_generation h = tagged_generation k \<Longrightarrow> tagged_index h = tagged_index k \<Longrightarrow> h = k"
  by (metis tagged_new_surj)

section \<open>Threads\<close>

fun owns :: "pc \<Rightarrow> nat option" where
  "owns (Locking i) = Some i"
| "owns (Holding i) = Some i"
| "owns (Dropping i) = Some i"
| "owns (ReleaseLoaded i _) = Some i"
| "owns (ReleaseStored i _) = Some i"
| "owns (Panicked i) = Some i"
| "owns _ = None"

fun loaded :: "pc \<Rightarrow> u64 option" where
  "loaded (CheckoutLoaded h) = Some h"
| "loaded (CheckoutRead h _) = Some h"
| "loaded (ReleaseLoaded _ h) = Some h"
| "loaded (ReleaseStored _ h) = Some h"
| "loaded _ = None"

text \<open>
  A system of threads.  Two observers are added to the code's state: the number of exchanges that succeeded so far,
  and for every thread that number at the moment of its last load of the head.
\<close>

record pool_sys =
  ps_pool :: pool
  ps_pc :: "nat \<Rightarrow> pc"
  ps_ops :: nat
  ps_seen :: "nat \<Rightarrow> nat"

definition pool_start :: "nat \<Rightarrow> nat \<Rightarrow> zeroize_policy \<Rightarrow> pool_sys" where
  "pool_start slot_size pool_size policy =
     \<lparr>ps_pool = pool_new slot_size pool_size policy, ps_pc = \<lambda>_. Idle, ps_ops = 0, ps_seen = \<lambda>_. 0\<rparr>"

fun is_load :: "pc \<Rightarrow> bool" where
  "is_load (CheckoutLoaded _) = True"
| "is_load (ReleaseLoaded _ _) = True"
| "is_load _ = False"

fun is_swap :: "pc \<Rightarrow> bool" where
  "is_swap (Locking _) = True"
| "is_swap (Unlocking _) = True"
| "is_swap _ = False"

definition thread_step :: "pool_sys \<Rightarrow> nat \<Rightarrow> choice \<Rightarrow> pool_sys" where
  "thread_step s t ch =
     (case pool_step (ps_pool s) ch (ps_pc s t) of
        None \<Rightarrow> s
      | Some (P, c) \<Rightarrow> s\<lparr>ps_pool := P, ps_pc := (ps_pc s)(t := c), ps_ops := ps_ops s + (if is_swap c then 1 else 0),
           ps_seen := (if is_load c then (ps_seen s)(t := ps_ops s) else ps_seen s)\<rparr>)"

definition timely :: "pool_sys \<Rightarrow> nat \<Rightarrow> bool" where
  "timely s t \<longleftrightarrow> ps_ops s - ps_seen s t < 2 ^ 16"

fun pool_run :: "pool_sys \<Rightarrow> (nat \<times> choice) list \<Rightarrow> pool_sys" where
  "pool_run s [] = s"
| "pool_run s ((t, ch) # tr) = pool_run (thread_step s t ch) tr"

fun all_timely :: "pool_sys \<Rightarrow> (nat \<times> choice) list \<Rightarrow> bool" where
  "all_timely s [] = True"
| "all_timely s ((t, ch) # tr) = (timely s t \<and> all_timely (thread_step s t ch) tr)"

section \<open>The invariant\<close>

fun chain :: "nat list \<Rightarrow> nat \<Rightarrow> nat \<Rightarrow> nat list \<Rightarrow> bool" where
  "chain nodes N a [] \<longleftrightarrow> a = N"
| "chain nodes N a (x # xs) \<longleftrightarrow> a = x \<and> x < N \<and> chain nodes N (nodes ! x) xs"

lemma chain_update [simp]: "i \<notin> set xs \<Longrightarrow> chain (nodes[i := v]) N a xs = chain nodes N a xs"
  by (induction xs arbitrary: a) auto

lemma chain_start: "k \<le> N \<Longrightarrow> chain (map Suc [0..<N]) N k [k..<N]"
proof (induction "N - k" arbitrary: k)
  case (Suc n)
  then have k: "k < N" by simp
  then have "chain (map Suc [0..<N]) N (Suc k) [Suc k..<N]" using Suc.hyps(1) [of "Suc k"] Suc.hyps(2) by simp
  moreover have "map Suc [0..<N] ! k = Suc k" using k by (metis add.left_neutral diff_zero length_upt nth_map nth_upt)
  ultimately show ?case using k by (simp only: upt_conv_Cons chain.simps simp_thms)
qed simp

definition view_ok :: "pool \<Rightarrow> nat \<Rightarrow> nat \<Rightarrow> pc \<Rightarrow> bool" where
  "view_ok P ops seen c \<longleftrightarrow>
     (\<forall>h. loaded c = Some h \<longrightarrow> tagged_generation h = of_nat seen \<and> seen \<le> ops \<and> tagged_index h \<le> length (pool_nodes P) \<and>
        (seen = ops \<longrightarrow> h = pool_head P)) \<and>
     (\<forall>h nx. c = CheckoutRead h nx \<longrightarrow> tagged_index h < length (pool_nodes P) \<and> nx \<le> length (pool_nodes P) \<and>
        (seen = ops \<longrightarrow> nx = pool_nodes P ! tagged_index h)) \<and>
     (\<forall>i h. c = ReleaseStored i h \<longrightarrow> pool_nodes P ! i = tagged_index h)"

definition nodes_ok :: "pool \<Rightarrow> nat \<Rightarrow> bool" where
  "nodes_ok P ops \<longleftrightarrow> length (pool_memory P) = length (pool_nodes P) \<and> length (pool_nodes P) < 2 ^ 48 \<and>
     (\<forall>v \<in> set (pool_nodes P). v \<le> length (pool_nodes P)) \<and> tagged_generation (pool_head P) = of_nat ops \<and>
     tagged_index (pool_head P) \<le> length (pool_nodes P)"

definition parts_ok :: "pool \<Rightarrow> (nat \<Rightarrow> pc) \<Rightarrow> nat list \<Rightarrow> bool" where
  "parts_ok P pcs fl \<longleftrightarrow> chain (pool_nodes P) (length (pool_nodes P)) (tagged_index (pool_head P)) fl \<and> distinct fl \<and>
     (\<forall>t i. owns (pcs t) = Some i \<longrightarrow> i < length (pool_nodes P) \<and> i \<notin> set fl) \<and>
     (\<forall>t u i. owns (pcs t) = Some i \<longrightarrow> owns (pcs u) = Some i \<longrightarrow> t = u) \<and>
     (\<forall>i < length (pool_nodes P). i \<in> set fl \<or> (\<exists>t. owns (pcs t) = Some i))"

definition pool_inv :: "pool_sys \<Rightarrow> bool" where
  "pool_inv s \<longleftrightarrow> nodes_ok (ps_pool s) (ps_ops s) \<and> (\<exists>fl. parts_ok (ps_pool s) (ps_pc s) fl) \<and>
     (\<forall>t. view_ok (ps_pool s) (ps_ops s) (ps_seen s t) (ps_pc s t))"

lemma pool_inv_start: "N < 2 ^ 48 \<Longrightarrow> pool_inv (pool_start slot N policy)"
  using chain_start [of 0 N]
  by (auto simp: pool_inv_def pool_start_def pool_new_def nodes_ok_def parts_ok_def view_ok_def intro!: exI [of _ "[0..<N]"])

section \<open>Steps preserve the invariant\<close>

definition advance :: "pool_sys \<Rightarrow> nat \<Rightarrow> pool \<Rightarrow> pc \<Rightarrow> pool_sys" where
  "advance s t P c = s\<lparr>ps_pool := P, ps_pc := (ps_pc s)(t := c), ps_ops := ps_ops s + (if is_swap c then 1 else 0),
     ps_seen := (if is_load c then (ps_seen s)(t := ps_ops s) else ps_seen s)\<rparr>"

lemma thread_step_eq: "thread_step s t ch = (case pool_step (ps_pool s) ch (ps_pc s t) of None \<Rightarrow> s | Some (P, c) \<Rightarrow> advance s t P c)"
  by (simp add: thread_step_def advance_def split: option.splits prod.splits)

lemma inv_quiet:
  assumes inv: "pool_inv s" and P: "pool_nodes P = pool_nodes (ps_pool s)" "pool_head P = pool_head (ps_pool s)"
      "length (pool_memory P) = length (pool_memory (ps_pool s))"
    and c: "owns c = owns (ps_pc s t)" "\<not> is_swap c" "view_ok P (ps_ops s) (if is_load c then ps_ops s else ps_seen s t) c"
  shows "pool_inv (advance s t P c)"
proof -
  obtain fl where fl: "parts_ok (ps_pool s) (ps_pc s) fl" using inv by (auto simp: pool_inv_def)
  have "owns (((ps_pc s)(t := c)) u) = owns (ps_pc s u)" for u using c(1) by simp
  then have "parts_ok P ((ps_pc s)(t := c)) fl" using fl by (simp add: parts_ok_def P)
  moreover have "nodes_ok P (ps_ops s)" using inv by (simp add: pool_inv_def nodes_ok_def P)
  moreover have "view_ok P (ps_ops s) (ps_seen s u) (ps_pc s u)" for u using inv by (simp add: pool_inv_def view_ok_def P)
  ultimately show ?thesis using c by (auto simp: pool_inv_def advance_def)
qed

lemma swap_current:
  assumes "view_ok P ops seen c" "nodes_ok P ops" "loaded c = Some h" "pool_head P = h" "ops - seen < 2 ^ 16"
  shows "seen = ops"
proof -
  have "(of_nat seen :: u16) = of_nat ops" "seen \<le> ops" using assms by (auto simp: view_ok_def nodes_ok_def)
  then have "seen mod 2 ^ 16 = ops mod 2 ^ 16" by (simp add: word_unat_eq_iff unat_of_nat take_bit_eq_mod)
  then have "(ops - seen) mod 2 ^ 16 = 0" using \<open>seen \<le> ops\<close> by (metis mod_eq_dvd_iff_nat mod_0_imp_dvd dvd_imp_mod_0)
  then show ?thesis using assms(5) \<open>seen \<le> ops\<close> by simp
qed

lemma view_after_swap:
  assumes "view_ok P ops seen c" "pool_nodes P' = pool_nodes P"
  shows "view_ok P' (Suc ops) seen c"
  using assms by (auto simp: view_ok_def)

lemma inv_checkout_swap:
  assumes inv: "pool_inv s" and c: "ps_pc s t = CheckoutRead h nx" and tm: "timely s t" and h: "pool_head (ps_pool s) = h"
    and P: "pool_nodes P = pool_nodes (ps_pool s)" "pool_head P = tagged_new (tagged_generation h + 1) nx" "pool_memory P = pool_memory (ps_pool s)"
  shows "pool_inv (advance s t P (Locking (tagged_index h)))"
proof -
  let ?N = "length (pool_nodes (ps_pool s))"
  have nodes: "nodes_ok (ps_pool s) (ps_ops s)" and view: "view_ok (ps_pool s) (ps_ops s) (ps_seen s t) (CheckoutRead h nx)"
    using inv c [symmetric] by (auto simp: pool_inv_def)
  have "ps_seen s t = ps_ops s" using swap_current [OF view nodes _ h] tm by (simp add: timely_def)
  then have nx: "nx = pool_nodes (ps_pool s) ! tagged_index h" "tagged_index h < ?N" "nx \<le> ?N" using view by (auto simp: view_ok_def)
  have small: "nx < 2 ^ 48" using nx(3) nodes by (simp add: nodes_ok_def)
  obtain fl where fl: "parts_ok (ps_pool s) (ps_pc s) fl" using inv by (auto simp: pool_inv_def)
  then obtain xs where xs: "fl = tagged_index h # xs" using nx(2) h by (cases fl) (auto simp: parts_ok_def)
  let ?pc = "(ps_pc s)(t := Locking (tagged_index h))"
  have cover: "i \<in> set xs \<or> (\<exists>u. owns (?pc u) = Some i)" if "i < ?N" for i
  proof -
    have "i \<in> set fl \<or> (\<exists>u. owns (ps_pc s u) = Some i)" using fl that by (simp add: parts_ok_def)
    then consider "i = tagged_index h" | "i \<in> set xs" | u where "owns (ps_pc s u) = Some i" unfolding xs by auto
    then show ?thesis
    proof cases
      case 1
      then show ?thesis by (auto intro: exI [of _ t])
    next
      case (3 u)
      then have "u \<noteq> t" using c by auto
      then show ?thesis using 3 by (auto intro: exI [of _ u])
    qed simp
  qed
  then have "parts_ok P ?pc xs"
    using fl c h nx small unfolding parts_ok_def xs P by (auto simp: P split: if_splits)
  moreover have "nodes_ok P (Suc (ps_ops s))" using nodes h nx(3) small by (simp add: nodes_ok_def P)
  moreover have "view_ok P (Suc (ps_ops s)) (ps_seen s u) (ps_pc s u)" for u
    using inv by (intro view_after_swap [OF _ P(1)]) (simp add: pool_inv_def)
  ultimately show ?thesis by (auto simp: pool_inv_def advance_def view_ok_def)
qed

lemma inv_release_swap:
  assumes inv: "pool_inv s" and c: "ps_pc s t = ReleaseStored i h" and tm: "timely s t" and h: "pool_head (ps_pool s) = h"
    and P: "pool_nodes P = pool_nodes (ps_pool s)" "pool_head P = tagged_new (tagged_generation h + 1) i" "pool_memory P = pool_memory (ps_pool s)"
  shows "pool_inv (advance s t P (Unlocking i))"
proof -
  let ?N = "length (pool_nodes (ps_pool s))"
  have nodes: "nodes_ok (ps_pool s) (ps_ops s)" and view: "view_ok (ps_pool s) (ps_ops s) (ps_seen s t) (ReleaseStored i h)"
    using inv c [symmetric] by (auto simp: pool_inv_def)
  have i: "pool_nodes (ps_pool s) ! i = tagged_index h" using view by (auto simp: view_ok_def)
  obtain fl where fl: "parts_ok (ps_pool s) (ps_pc s) fl" using inv by (auto simp: pool_inv_def)
  have own: "owns (ps_pc s t) = Some i" using c by simp
  have i2: "i < ?N" "i \<notin> set fl" using fl own unfolding parts_ok_def by blast+
  have small: "i < 2 ^ 48" using i2(1) nodes by (simp add: nodes_ok_def)
  let ?pc = "(ps_pc s)(t := Unlocking i)"
  have cover: "j \<in> set (i # fl) \<or> (\<exists>u. owns (?pc u) = Some j)" if "j < ?N" for j
  proof -
    have "j \<in> set fl \<or> (\<exists>u. owns (ps_pc s u) = Some j)" using fl that by (simp add: parts_ok_def)
    then consider "j \<in> set fl" | u where "owns (ps_pc s u) = Some j" by auto
    then show ?thesis
    proof cases
      case (2 u)
      then show ?thesis using own by (cases "u = t") (auto intro: exI [of _ u])
    qed simp
  qed
  then have "parts_ok P ?pc (i # fl)"
    using fl own h i i2 small unfolding parts_ok_def P by (auto simp: P split: if_splits)
  moreover have "nodes_ok P (Suc (ps_ops s))" using nodes h i2(1) small by (simp add: nodes_ok_def P)
  moreover have "view_ok P (Suc (ps_ops s)) (ps_seen s u) (ps_pc s u)" for u
    using inv by (intro view_after_swap [OF _ P(1)]) (simp add: pool_inv_def)
  ultimately show ?thesis by (auto simp: pool_inv_def advance_def view_ok_def)
qed

lemma inv_store:
  assumes inv: "pool_inv s" and c: "ps_pc s t = ReleaseLoaded i h"
    and P: "P = (ps_pool s)\<lparr>pool_nodes := (pool_nodes (ps_pool s))[i := tagged_index h]\<rparr>"
  shows "pool_inv (advance s t P (ReleaseStored i h))"
proof -
  let ?N = "length (pool_nodes (ps_pool s))"
  have nodes: "nodes_ok (ps_pool s) (ps_ops s)" and view: "view_ok (ps_pool s) (ps_ops s) (ps_seen s t) (ReleaseLoaded i h)"
    using inv c [symmetric] by (auto simp: pool_inv_def)
  obtain fl where fl: "parts_ok (ps_pool s) (ps_pc s) fl" using inv by (auto simp: pool_inv_def)
  have own: "owns (ps_pc s t) = Some i" using c by simp
  have i: "i < ?N" "i \<notin> set fl" using fl own unfolding parts_ok_def by blast+
  have idx: "tagged_index h \<le> ?N" using view by (simp add: view_ok_def)
  have "owns (((ps_pc s)(t := ReleaseStored i h)) u) = owns (ps_pc s u)" for u using own by simp
  then have "parts_ok P ((ps_pc s)(t := ReleaseStored i h)) fl" using fl i by (simp add: parts_ok_def P)
  moreover have "nodes_ok P (ps_ops s)" using nodes idx by (auto simp: nodes_ok_def P dest!: set_update_subset_insert [THEN subsetD])
  moreover have "view_ok P (ps_ops s) (ps_seen s u) (ps_pc s u)" if u: "u \<noteq> t" for u
  proof -
    have v: "view_ok (ps_pool s) (ps_ops s) (ps_seen s u) (ps_pc s u)" using inv by (simp add: pool_inv_def)
    have "tagged_index (pool_head (ps_pool s)) \<noteq> i" if "tagged_index (pool_head (ps_pool s)) < ?N"
      using fl i(2) that by (cases fl) (auto simp: parts_ok_def)
    moreover have "j \<noteq> i" if "owns (ps_pc s u) = Some j" for j using fl own u that unfolding parts_ok_def by blast
    ultimately show ?thesis using v by (auto simp: view_ok_def P)
  qed
  moreover have "view_ok P (ps_ops s) (ps_seen s t) (ReleaseStored i h)" using view i by (auto simp: view_ok_def P)
  ultimately show ?thesis by (auto simp: pool_inv_def advance_def)
qed

lemma fresh_view: "nodes_ok P ops \<Longrightarrow> view_ok P ops ops (CheckoutLoaded (pool_head P))" "nodes_ok P ops \<Longrightarrow> view_ok P ops ops (ReleaseLoaded i (pool_head P))"
  by (auto simp: view_ok_def nodes_ok_def)

lemma thread_step_inv:
  assumes inv: "pool_inv s" and tm: "timely s t"
  shows "pool_inv (thread_step s t ch)"
proof -
  have nodes: "nodes_ok (ps_pool s) (ps_ops s)" and view: "view_ok (ps_pool s) (ps_ops s) (ps_seen s t) (ps_pc s t)"
    using inv by (auto simp: pool_inv_def)
  show ?thesis
  proof (cases "ps_pc s t")
    case (CheckoutLoaded h)
    have "view_ok (ps_pool s) (ps_ops s) (ps_seen s t) (CheckoutRead h (pool_nodes (ps_pool s) ! tagged_index h))"
      if "tagged_index h < length (pool_nodes (ps_pool s))"
      using view nodes that unfolding CheckoutLoaded by (auto simp: view_ok_def nodes_ok_def)
    then show ?thesis using CheckoutLoaded nodes
      by (auto simp: thread_step_eq pool_step_def Let_def nodes_ok_def view_ok_def intro!: inv_quiet [OF inv])
  next
    case (CheckoutRead h nx)
    then show ?thesis using inv_checkout_swap [OF inv CheckoutRead tm] fresh_view nodes
      by (auto simp: thread_step_eq pool_step_def compare_exchange_weak_def intro!: inv_quiet [OF inv])
  next
    case (ReleaseLoaded i h)
    then show ?thesis using inv_store [OF inv ReleaseLoaded] by (simp add: thread_step_eq pool_step_def)
  next
    case (ReleaseStored i h)
    then show ?thesis using inv_release_swap [OF inv ReleaseStored tm] fresh_view nodes
      by (auto simp: thread_step_eq pool_step_def compare_exchange_weak_def intro!: inv_quiet [OF inv])
  qed (use nodes fresh_view inv in \<open>auto simp: thread_step_eq pool_step_def Let_def view_ok_def intro!: inv_quiet [OF inv] split: option.splits\<close>)
qed

lemma pool_run_inv: "pool_inv s \<Longrightarrow> all_timely s tr \<Longrightarrow> pool_inv (pool_run s tr)"
  by (induction s tr rule: pool_run.induct) (simp_all add: thread_step_inv)

lemma thread_step_length [simp]: "length (pool_nodes (ps_pool (thread_step s t ch))) = length (pool_nodes (ps_pool s))"
  by (cases "ps_pc s t") (auto simp: thread_step_eq pool_step_def advance_def compare_exchange_weak_def Let_def split: option.splits)

lemma pool_run_length [simp]: "length (pool_nodes (ps_pool (pool_run s tr))) = length (pool_nodes (ps_pool s))"
  by (induction s tr rule: pool_run.induct) simp_all

lemma chain_bound: "chain nodes N a xs \<Longrightarrow> set xs \<subseteq> {..<N}"
  by (induction xs arbitrary: a) auto

section \<open>Properties\<close>


definition ch_plain :: choice where
  "ch_plain = \<lparr>ch_spurious = False, ch_write = None, ch_panicking = False\<rparr>"

definition take_slot :: "nat \<Rightarrow> (nat \<times> choice) list" where
  "take_slot t = [(t, ch_plain), (t, ch_plain), (t, ch_plain), (t, ch_plain)]"

definition give_slot :: "nat \<Rightarrow> (nat \<times> choice) list" where
  "give_slot t = [(t, ch_plain), (t, ch_plain), (t, ch_plain), (t, ch_plain), (t, ch_plain)]"


end
