(* ===== verification/BW_PoolFaults.thy ===== *)
theory BW_PoolFaults
  imports BW_Pool
begin

text \<open>
  The limits of the slot pool: the wrapping generation tag, poisoned slots, and what a new guard finds in its slot.
\<close>

section \<open>Slots come back clean\<close>

fun locks :: "pc \<Rightarrow> nat option" where
  "locks (Holding i) = Some i"
| "locks (Dropping i) = Some i"
| "locks (ReleaseLoaded i _) = Some i"
| "locks (ReleaseStored i _) = Some i"
| "locks (Unlocking i) = Some i"
| "locks _ = None"

definition mutex_inv :: "pool_sys \<Rightarrow> bool" where
  "mutex_inv s \<longleftrightarrow> (\<forall>t i. locks (ps_pc s t) = Some i \<longrightarrow> i < length (pool_memory (ps_pool s)) \<and> slot_locked (pool_memory (ps_pool s) ! i)) \<and>
     (\<forall>t u i. locks (ps_pc s t) = Some i \<longrightarrow> locks (ps_pc s u) = Some i \<longrightarrow> t = u) \<and>
     (\<forall>t h nx. ps_pc s t = CheckoutRead h nx \<longrightarrow> tagged_index h < length (pool_memory (ps_pool s))) \<and>
     (\<forall>t i. ps_pc s t = Locking i \<longrightarrow> i < length (pool_memory (ps_pool s)))"

definition clean_inv :: "pool_sys \<Rightarrow> bool" where
  "clean_inv s \<longleftrightarrow> pool_policy (ps_pool s) = OnRelease \<and>
     (\<forall>i < length (pool_memory (ps_pool s)). (\<forall>t. ps_pc s t \<noteq> Holding i) \<longrightarrow> set (slot_bytes (pool_memory (ps_pool s) ! i)) \<subseteq> {0})"

lemma map_update_same: "f y = f (xs ! i) \<Longrightarrow> map f (xs[i := y]) = map f xs"
  by (cases "i < length xs") (auto simp: map_update list_update_beyond intro: nth_equalityI simp: nth_list_update)

lemma mutex_quiet:
  assumes inv: "mutex_inv s" and P: "map slot_locked (pool_memory P) = map slot_locked (pool_memory (ps_pool s))"
    and c: "locks c = locks (ps_pc s t)" "\<forall>h nx. c = CheckoutRead h nx \<longrightarrow> tagged_index h < length (pool_memory (ps_pool s))"
      "\<forall>i. c = Locking i \<longrightarrow> i < length (pool_memory (ps_pool s))"
  shows "mutex_inv (advance s t P c)"
proof -
  have len: "length (pool_memory P) = length (pool_memory (ps_pool s))" using P map_eq_imp_length_eq by blast
  have "slot_locked (pool_memory P ! i) = slot_locked (pool_memory (ps_pool s) ! i)" if "i < length (pool_memory P)" for i
    using P that len by (metis nth_map)
  moreover have "locks (((ps_pc s)(t := c)) u) = locks (ps_pc s u)" for u using c(1) by simp
  moreover have "tagged_index h < length (pool_memory P)" if "((ps_pc s)(t := c)) u = CheckoutRead h nx" for u h nx
    using inv c(2) len that unfolding mutex_inv_def fun_upd_apply by (metis (full_types))
  moreover have "i < length (pool_memory P)" if "((ps_pc s)(t := c)) u = Locking i" for u i
    using inv c(3) len that unfolding mutex_inv_def fun_upd_apply by (metis (full_types))
  ultimately show ?thesis using inv len by (simp add: mutex_inv_def advance_def del: fun_upd_apply)
qed

lemma mutex_lock:
  assumes inv: "mutex_inv s" and c: "ps_pc s t = Locking i" "\<not> slot_locked (pool_memory (ps_pool s) ! i)"
    and P: "pool_memory P = (pool_memory (ps_pool s))[i := (pool_memory (ps_pool s) ! i)\<lparr>slot_locked := True\<rparr>]"
  shows "mutex_inv (advance s t P (Holding i))"
proof -
  have "locks (ps_pc s u) \<noteq> Some i" for u using inv c(2) by (auto simp: mutex_inv_def)
  then show ?thesis using inv c by (auto simp: mutex_inv_def advance_def P nth_list_update)
qed

lemma mutex_unlock:
  assumes inv: "mutex_inv s" and c: "ps_pc s t = Unlocking i"
    and P: "pool_memory P = (pool_memory (ps_pool s))[i := x]"
  shows "mutex_inv (advance s t P Idle)"
proof -
  have "locks (ps_pc s u) \<noteq> Some i" if "u \<noteq> t" for u using inv c that unfolding mutex_inv_def by (metis locks.simps(5))
  then have "slot_locked ((pool_memory (ps_pool s))[i := x] ! j)" if "u \<noteq> t" "locks (ps_pc s u) = Some j" for u j
    using inv that unfolding mutex_inv_def by (metis nth_list_update_neq)
  then show ?thesis using inv c by (auto simp: mutex_inv_def advance_def P)
qed

lemma mutex_step:
  assumes inv: "mutex_inv s"
  shows "mutex_inv (thread_step s t ch)"
proof (cases "ps_pc s t")
  case (Locking i)
  then show ?thesis using inv mutex_lock [OF inv Locking]
    by (auto simp: thread_step_eq pool_step_def Let_def intro!: mutex_quiet [OF inv])
next
  case (Unlocking i)
  then show ?thesis using mutex_unlock [OF inv Unlocking] by (simp add: thread_step_eq pool_step_def)
next
  case (CheckoutRead h nx)
  then have "tagged_index h < length (pool_memory (ps_pool s))" using inv unfolding mutex_inv_def by blast
  then show ?thesis using CheckoutRead
    by (auto simp: thread_step_eq pool_step_def compare_exchange_weak_def intro!: mutex_quiet [OF inv])
qed (auto simp: thread_step_eq pool_step_def compare_exchange_weak_def Let_def map_update_same inv intro!: mutex_quiet [OF inv] split: option.splits)

lemma clean_quiet:
  assumes inv: "clean_inv s" and P: "pool_policy P = pool_policy (ps_pool s)" "map slot_bytes (pool_memory P) = map slot_bytes (pool_memory (ps_pool s))"
    and c: "\<forall>i. ps_pc s t \<noteq> Holding i"
  shows "clean_inv (advance s t P c)"
proof -
  have len: "length (pool_memory P) = length (pool_memory (ps_pool s))" using P(2) map_eq_imp_length_eq by blast
  have "slot_bytes (pool_memory P ! i) = slot_bytes (pool_memory (ps_pool s) ! i)" if "i < length (pool_memory P)" for i
    using P(2) that len by (metis nth_map)
  moreover have "ps_pc s u \<noteq> Holding i" if "((ps_pc s)(t := c)) u \<noteq> Holding i" for u i using c that by (cases "u = t") auto
  ultimately show ?thesis using inv len by (simp add: clean_inv_def advance_def P del: fun_upd_apply)
qed

lemma clean_hold:
  assumes inv: "clean_inv s" and c: "ps_pc s t = Holding i" "c = Holding i \<or> set (slot_bytes x) \<subseteq> {0}"
    and P: "pool_policy P = pool_policy (ps_pool s)" "pool_memory P = (pool_memory (ps_pool s))[i := x]"
  shows "clean_inv (advance s t P c)"
proof -
  have "set (slot_bytes (pool_memory P ! j)) \<subseteq> {0}" if j: "j < length (pool_memory P)" and f: "\<forall>u. ((ps_pc s)(t := c)) u \<noteq> Holding j" for j
  proof (cases "j = i")
    case True
    then have "c \<noteq> Holding i" using f by (metis fun_upd_same)
    then show ?thesis using c(2) j True by (simp add: P)
  next
    case False
    have "ps_pc s u \<noteq> Holding j" for u using f [rule_format, of u] c(1) False by (cases "u = t") auto
    then show ?thesis using inv j False by (simp add: clean_inv_def P)
  qed
  then show ?thesis using inv by (simp add: clean_inv_def advance_def P del: fun_upd_apply)
qed

lemma clean_step:
  assumes inv: "clean_inv s"
  shows "clean_inv (thread_step s t ch)"
proof (cases "ps_pc s t")
  case (Holding i)
  have pol: "pool_policy (ps_pool s) = OnRelease" using inv by (simp add: clean_inv_def)
  show ?thesis using Holding inv pol
    by (auto simp: thread_step_eq pool_step_def Let_def set_replicate_conv_if split: option.splits if_splits intro!: clean_hold [OF inv Holding])
qed (auto simp: thread_step_eq pool_step_def compare_exchange_weak_def Let_def map_update_same inv intro!: clean_quiet [OF inv] split: option.splits)

lemma faults_run: "mutex_inv s \<Longrightarrow> mutex_inv (pool_run s tr)" "clean_inv s \<Longrightarrow> clean_inv (pool_run s tr)"
  by (induction s tr rule: pool_run.induct) (simp_all add: mutex_step clean_step)

text \<open>C26: With the policy \<open>OnRelease\<close> no data leaks through the pool: in every interleaving, also one in which the tag wraps, the thread that
  obtains a guard finds its slot filled with zeroes, and no two threads hold guards of the same slot at the same time.\<close>
theorem pool_zeroized:
  assumes "s = pool_run (pool_start slot N OnRelease) tr" "ps_pc s t = Locking i" "ps_pc (thread_step s t ch) t = Holding i"
  shows "set (slot_bytes (pool_memory (ps_pool (thread_step s t ch)) ! i)) \<subseteq> {0} \<and> (\<forall>u. u \<noteq> t \<longrightarrow> ps_pc (thread_step s t ch) u \<noteq> Holding i)"
proof -
  have m: "mutex_inv s" and c: "clean_inv s"
    using faults_run [of "pool_start slot N OnRelease" tr] assms(1)
    by (auto simp: mutex_inv_def clean_inv_def pool_start_def pool_new_def set_replicate_conv_if)
  have unlocked: "\<not> slot_locked (pool_memory (ps_pool s) ! i)" and i: "i < length (pool_memory (ps_pool s))"
    using assms(2,3) m by (auto simp: thread_step_eq pool_step_def Let_def mutex_inv_def split: if_splits)
  then have free: "ps_pc s u \<noteq> Holding i" for u using m unfolding mutex_inv_def by (metis locks.simps(1))
  then have "set (slot_bytes (pool_memory (ps_pool s) ! i)) \<subseteq> {0}" using c i by (simp add: clean_inv_def)
  then show ?thesis using assms(2,3) unlocked i free
    by (auto simp: thread_step_eq pool_step_def Let_def advance_def split: if_splits)
qed

theorem pool_zeroized_witness:
  "let s = pool_run (pool_start 2 1 OnRelease) (take_slot 1 @ [(1, ch_plain\<lparr>ch_write := Some [7, 7]\<rparr>)] @ give_slot 1 @ [(2, ch_plain), (2, ch_plain), (2, ch_plain)]) in
     ps_pc s 2 = Locking 0 \<and> ps_pc (thread_step s 2 ch_plain) 2 = Holding 0 \<and>
     set (slot_bytes (pool_memory (ps_pool (thread_step s 2 ch_plain)) ! 0)) \<subseteq> {0}"
proof -
  let ?s = "pool_run (pool_start 2 1 OnRelease) (take_slot 1 @ [(1, ch_plain\<lparr>ch_write := Some [7, 7]\<rparr>)] @ give_slot 1 @ [(2, ch_plain), (2, ch_plain), (2, ch_plain)])"
  have "ps_pc ?s 2 = Locking 0 \<and> ps_pc (thread_step ?s 2 ch_plain) 2 = Holding 0"
    by (simp add: take_slot_def give_slot_def pool_start_def pool_new_def ch_plain_def thread_step_def pool_step_def
        compare_exchange_weak_def Let_def numeral_2_eq_2)
  then show ?thesis using pool_zeroized [OF refl, of 2 1 "take_slot 1 @ [(1, ch_plain\<lparr>ch_write := Some [7, 7]\<rparr>)] @ give_slot 1 @ [(2, ch_plain), (2, ch_plain), (2, ch_plain)]" 2 0 ch_plain]
    unfolding Let_def by blast
qed

section \<open>Where the tag wraps\<close>

text \<open>The system in which thread 1 sleeps after it read the head and its successor, and threads 3 and 4 hold slots 1 and 2.\<close>

definition aba_state :: "u16 \<Rightarrow> pool_sys \<Rightarrow> bool" where
  "aba_state g s \<longleftrightarrow> pool_head (ps_pool s) = tagged_new g 0 \<and> pool_nodes (ps_pool s) = [3, 2, 3] \<and> pool_policy (ps_pool s) = Never \<and>
     length (pool_memory (ps_pool s)) = 3 \<and> \<not> slot_locked (pool_memory (ps_pool s) ! 0) \<and> \<not> slot_poisoned (pool_memory (ps_pool s) ! 0) \<and>
     ps_pc s = (\<lambda>_. Idle)(1 := CheckoutRead (tagged_new 0 0) 1, 3 := Holding 1, 4 := Holding 2)"

lemma aba_start:
  "aba_state 4 (pool_run (pool_start slot 3 Never) ([(1, ch_plain), (1, ch_plain)] @ take_slot 2 @ take_slot 3 @ take_slot 4 @ give_slot 2))"
  by (simp add: aba_state_def take_slot_def give_slot_def pool_start_def pool_new_def ch_plain_def thread_step_def pool_step_def
      compare_exchange_weak_def Let_def numeral_3_eq_3 fun_eq_iff)

lemma aba_cycle: "aba_state g s \<Longrightarrow> aba_state (g + 2) (pool_run s (take_slot 2 @ give_slot 2))"
  by (simp add: aba_state_def take_slot_def give_slot_def ch_plain_def thread_step_def pool_step_def
      compare_exchange_weak_def Let_def fun_eq_iff) (simp add: add.commute)

lemma pool_run_append [simp]: "pool_run s (tr @ tr') = pool_run (pool_run s tr) tr'"
  by (induction s tr rule: pool_run.induct) simp_all

lemma aba_cycles: "aba_state g s \<Longrightarrow> aba_state (g + 2 * of_nat n) (pool_run s (concat (replicate n (take_slot 2 @ give_slot 2))))"
proof (induction n arbitrary: g s)
  case (Suc n)
  from Suc.IH [OF aba_cycle [OF Suc.prems]] show ?case by (simp add: algebra_simps)
qed simp

text \<open>C39: The 16-bit generation tag does not rule the ABA problem out: there is an interleaving of five threads in which two of them own the same
  slot.  A thread that sleeps between reading the successor of the head and its exchange, while exactly 65536 exchanges of the
  others succeed and leave the same slot on top, puts a slot that is in use back on the free list, where the next checkout
  finds it.\<close>
theorem pool_aba:
  "\<exists>tr. let s = pool_run (pool_start slot 3 Never) tr in owns (ps_pc s 3) = Some 1 \<and> owns (ps_pc s 5) = Some 1"
proof -
  define n :: nat where "n = 32766"
  define tr where "tr = [(1, ch_plain), (1, ch_plain)] @ take_slot 2 @ take_slot 3 @ take_slot 4 @ give_slot 2"
  define cy where "cy = concat (replicate n (take_slot 2 @ give_slot 2))"
  define s1 where "s1 = pool_run (pool_start slot 3 Never) (tr @ cy)"
  have "aba_state (4 + 2 * of_nat n) s1"
    unfolding s1_def tr_def cy_def pool_run_append by (rule aba_cycles [OF aba_start [unfolded pool_run_append]])
  moreover have "(4 + 2 * of_nat n :: u16) = 0" by (simp add: n_def word_unat_eq_iff take_bit_eq_mod)
  ultimately have s1: "aba_state 0 s1" by (simp only:)
  let ?tr = "[(1, ch_plain), (5, ch_plain), (5, ch_plain), (5, ch_plain)]"
  have "owns (ps_pc (pool_run s1 ?tr) 3) = Some 1 \<and> owns (ps_pc (pool_run s1 ?tr) 5) = Some 1"
    using s1 by (simp add: aba_state_def ch_plain_def thread_step_def pool_step_def compare_exchange_weak_def Let_def)
  then show ?thesis unfolding Let_def s1_def pool_run_append [symmetric] by (rule exI)
qed

section \<open>Poisoned slots\<close>

text \<open>A guard whose owner panics poisons its slot on the way back to the free list; the checkout that gets the slot next panics, and
  so the pool is one slot smaller for good.\<close>

lemma poisoned_slot_panics:
  "let s = pool_run (pool_start slot 1 Never) (take_slot 1 @ take_slot 1 @ [(1, ch_plain\<lparr>ch_panicking := True\<rparr>)] @ take_slot 2) in
     ps_pc s 2 = Panicked 0"
  by (simp add: take_slot_def pool_start_def pool_new_def ch_plain_def thread_step_def pool_step_def
      compare_exchange_weak_def Let_def)

end
