(* ===== verification/BW_Input.thy ===== *)
theory BW_Input
  imports BW_Message "HOL-Library.AList"
begin

text \<open>
  Remote input: the injection API of \<^verbatim>\<open>bw-input\<close> (\<^verbatim>\<open>input.rs\<close>, \<^verbatim>\<open>inject.rs\<close>), the keyboard and mouse handlers of
  \<^verbatim>\<open>bw-server/src/lib.rs\<close> and the part of the client's window handler (\<^verbatim>\<open>bw-client/src/main.rs\<close>) that turns key and button
  events into messages.  The operating system behind the injection API is a parameter.
\<close>

section \<open>Injection\<close>

datatype mouse_button = Left | Right | Middle

datatype injected_input =
    MouseMove i32 i32
  | MouseMoveAbsolute i32 i32
  | MouseClick mouse_button bool
  | Keyboard u16 bool

datatype input_error = UnsupportedPlatform | InjectionFailed u32 u32

definition input_error_display :: "input_error \<Rightarrow> string" where
  "input_error_display e = (case e of
     UnsupportedPlatform \<Rightarrow> ''input injection is not supported on this platform''
   | InjectionFailed inserted requested \<Rightarrow>
       ''SendInput inserted '' @ map (\<lambda>d. char_of (unat d)) (dec_digits (unat inserted)) @ '' of '' @ map (\<lambda>d. char_of (unat d)) (dec_digits (unat requested)) @ '' input events'')"

type_synonym 's input_backend = "injected_input \<Rightarrow> 's \<Rightarrow> (unit, input_error) outcome \<times> 's"

definition inject_mouse_move :: "'s input_backend \<Rightarrow> i32 \<Rightarrow> i32 \<Rightarrow> 's \<Rightarrow> (unit, input_error) outcome \<times> 's" where
  "inject_mouse_move bk x y = bk (MouseMove x y)"

definition inject_mouse_move_absolute :: "'s input_backend \<Rightarrow> i32 \<Rightarrow> i32 \<Rightarrow> 's \<Rightarrow> (unit, input_error) outcome \<times> 's" where
  "inject_mouse_move_absolute bk norm_x norm_y = bk (MouseMoveAbsolute norm_x norm_y)"

definition inject_mouse_click :: "'s input_backend \<Rightarrow> mouse_button \<Rightarrow> bool \<Rightarrow> 's \<Rightarrow> (unit, input_error) outcome \<times> 's" where
  "inject_mouse_click bk button down = bk (MouseClick button down)"

definition inject_keyboard :: "'s input_backend \<Rightarrow> u16 \<Rightarrow> bool \<Rightarrow> 's \<Rightarrow> (unit, input_error) outcome \<times> 's" where
  "inject_keyboard bk code down = bk (Keyboard code down)"

text \<open>The backend of unsupported platforms, and the recording one, whose state is the list of the delivered events.\<close>

definition unsupported_backend :: "'s input_backend" where
  "unsupported_backend i s = (Err UnsupportedPlatform, s)"

definition recording_backend :: "injected_input list input_backend" where
  "recording_backend i events = (Ok (), events @ [i])"

text \<open>The Win32 backend.  The flag constants and \<open>SendInput\<close>, which reports how many events it inserted, are the interface of the
  operating system.\<close>

datatype win_input =
    MouseInput i32 i32 u32 u32
  | KeybdInput u16 u16 u32

record 's win32 =
  MOUSEEVENTF_MOVE :: u32
  MOUSEEVENTF_ABSOLUTE :: u32
  MOUSEEVENTF_LEFTDOWN :: u32
  MOUSEEVENTF_LEFTUP :: u32
  MOUSEEVENTF_RIGHTDOWN :: u32
  MOUSEEVENTF_RIGHTUP :: u32
  MOUSEEVENTF_MIDDLEDOWN :: u32
  MOUSEEVENTF_MIDDLEUP :: u32
  KEYEVENTF_KEYUP :: u32
  SendInput :: "win_input list \<Rightarrow> 's \<Rightarrow> u32 \<times> 's"

definition mouse_move_input :: "'s win32 \<Rightarrow> i32 \<Rightarrow> i32 \<Rightarrow> win_input" where
  "mouse_move_input W x y = MouseInput x y 0 (MOUSEEVENTF_MOVE W)"

definition mouse_move_absolute_input :: "'s win32 \<Rightarrow> i32 \<Rightarrow> i32 \<Rightarrow> win_input" where
  "mouse_move_absolute_input W norm_x norm_y = MouseInput norm_x norm_y 0 (MOUSEEVENTF_MOVE W OR MOUSEEVENTF_ABSOLUTE W)"

definition mouse_click_input :: "'s win32 \<Rightarrow> mouse_button \<Rightarrow> bool \<Rightarrow> win_input" where
  "mouse_click_input W button down = MouseInput 0 0 0 (case (button, down) of
     (Left, True) \<Rightarrow> MOUSEEVENTF_LEFTDOWN W | (Left, False) \<Rightarrow> MOUSEEVENTF_LEFTUP W
   | (Right, True) \<Rightarrow> MOUSEEVENTF_RIGHTDOWN W | (Right, False) \<Rightarrow> MOUSEEVENTF_RIGHTUP W
   | (Middle, True) \<Rightarrow> MOUSEEVENTF_MIDDLEDOWN W | (Middle, False) \<Rightarrow> MOUSEEVENTF_MIDDLEUP W)"

definition keyboard_input :: "'s win32 \<Rightarrow> u16 \<Rightarrow> bool \<Rightarrow> win_input" where
  "keyboard_input W code down = KeybdInput code 0 (if down then 0 else KEYEVENTF_KEYUP W)"

definition build_inputs :: "'s win32 \<Rightarrow> injected_input \<Rightarrow> win_input list" where
  "build_inputs W i = (case i of
     MouseMove x y \<Rightarrow> [mouse_move_input W x y]
   | MouseMoveAbsolute norm_x norm_y \<Rightarrow> [mouse_move_absolute_input W norm_x norm_y]
   | MouseClick button down \<Rightarrow> [mouse_click_input W button down]
   | Keyboard code down \<Rightarrow> [keyboard_input W code down])"

definition send_inputs :: "'s win32 \<Rightarrow> win_input list \<Rightarrow> 's \<Rightarrow> (unit, input_error) outcome \<times> 's" where
  "send_inputs W inputs s =
     (let (inserted, s') = SendInput W inputs s; requested = of_nat (length inputs)
      in (if inserted = requested then Ok () else Err (InjectionFailed inserted requested), s'))"

definition win32_backend :: "'s win32 \<Rightarrow> 's input_backend" where
  "win32_backend W i = send_inputs W (build_inputs W i)"

section \<open>The handlers of the server\<close>

text \<open>The state of the handlers: the mask last reported in each session, and the operating system.\<close>

record 's input_state =
  button_states :: "(session_id \<times> u8) list"
  os_state :: 's

definition BUTTON_BITS :: "(u8 \<times> mouse_button) list" where
  "BUTTON_BITS = [(0b001, Left), (0b010, Right), (0b100, Middle)]"

definition handler_result :: "(unit, input_error) outcome \<Rightarrow> (unit, dispatch_error) outcome" where
  "handler_result r = map_err (\<lambda>e. Handler (input_error_display e)) r"

definition parse_keyboard :: "keyboard_event cbor \<Rightarrow> message_envelope \<Rightarrow> (keyboard_event, dispatch_error) outcome" where
  "parse_keyboard kb e = ok_or (as_keyboard_event kb (env_message e)) (Handler ''undecodable keyboard event payload'')"

definition parse_mouse :: "mouse_event cbor \<Rightarrow> message_envelope \<Rightarrow> (mouse_event, dispatch_error) outcome" where
  "parse_mouse mb e = ok_or (as_mouse_event mb (env_message e)) (Handler ''undecodable mouse event payload'')"

definition keyboard_handler :: "keyboard_event cbor \<Rightarrow> 's input_backend \<Rightarrow> 's input_state message_handler" where
  "keyboard_handler kb bk e st = (case parse_keyboard kb e of
     Err x \<Rightarrow> (Err x, st)
   | Panic \<Rightarrow> (Panic, st)
   | Ok ev \<Rightarrow> let (r, os') = inject_keyboard bk (keycode ev) (is_down ev) (os_state st)
              in (handler_result r, st\<lparr>os_state := os'\<rparr>))"

definition move_mouse :: "'s input_backend \<Rightarrow> mouse_event \<Rightarrow> 's \<Rightarrow> (unit, input_error) outcome \<times> 's" where
  "move_mouse bk ev s =
     (if dx ev \<noteq> 0 \<or> dy ev \<noteq> 0
      then if is_absolute ev then inject_mouse_move_absolute bk (dx ev) (dy ev) s else inject_mouse_move bk (dx ev) (dy ev) s
      else (Ok (), s))"

fun click_buttons :: "'s input_backend \<Rightarrow> u8 \<Rightarrow> u8 \<Rightarrow> (u8 \<times> mouse_button) list \<Rightarrow> 's \<Rightarrow> (unit, input_error) outcome \<times> 's" where
  "click_buttons bk prev_mask cur [] s = (Ok (), s)"
| "click_buttons bk prev_mask cur ((b, button) # bs) s =
     (let was = prev_mask AND b \<noteq> 0; down = cur AND b \<noteq> 0;
          (r, s') = if down \<and> \<not> was then inject_mouse_click bk button True s
                    else if \<not> down \<and> was then inject_mouse_click bk button False s
                    else (Ok (), s)
      in case r of Ok _ \<Rightarrow> click_buttons bk prev_mask cur bs s' | Err x \<Rightarrow> (Err x, s') | Panic \<Rightarrow> (Panic, s'))"

definition bounded_states :: "session_id \<Rightarrow> (session_id \<times> u8) list \<Rightarrow> (session_id \<times> u8) list" where
  "bounded_states sid states = (if length states \<ge> 64 \<and> map_of states sid = None then [] else states)"

definition mouse_handler :: "mouse_event cbor \<Rightarrow> 's input_backend \<Rightarrow> 's input_state message_handler" where
  "mouse_handler mb bk e st = (case parse_mouse mb e of
     Err x \<Rightarrow> (Err x, st)
   | Panic \<Rightarrow> (Panic, st)
   | Ok ev \<Rightarrow>
       (case move_mouse bk ev (os_state st) of
          (Err x, s) \<Rightarrow> (handler_result (Err x), st\<lparr>os_state := s\<rparr>)
        | (Panic, s) \<Rightarrow> (Panic, st\<lparr>os_state := s\<rparr>)
        | (Ok _, s) \<Rightarrow>
            let states = bounded_states (env_session_id e) (button_states st);
                prev_mask = (case map_of states (env_session_id e) of Some m \<Rightarrow> m | None \<Rightarrow> 0)
            in case click_buttons bk prev_mask (buttons_mask ev) BUTTON_BITS s of
                 (Err x, s') \<Rightarrow> (handler_result (Err x), \<lparr>button_states = states, os_state = s'\<rparr>)
               | (Panic, s') \<Rightarrow> (Panic, \<lparr>button_states = states, os_state = s'\<rparr>)
               | (Ok _, s') \<Rightarrow>
                   (Ok (), \<lparr>button_states = AList.update (env_session_id e) (buttons_mask ev) states, os_state = s'\<rparr>)))"

definition register_input_handlers ::
  "keyboard_event cbor \<Rightarrow> mouse_event cbor \<Rightarrow> 's input_backend \<Rightarrow> 's input_state dispatcher \<Rightarrow> 's input_state dispatcher" where
  "register_input_handlers kb mb bk D =
     register_handler (register_handler D InputKeyboard (keyboard_handler kb bk)) InputMouse (mouse_handler mb bk)"

section \<open>The input side of the client\<close>

text \<open>A key code of the windowing library is the name of its variant: the enumeration is not exhaustive.\<close>

definition VK_TABLE :: "(string \<times> u16) list" where
  "VK_TABLE = [
    (''KeyA'', 0x41), (''KeyB'', 0x42), (''KeyC'', 0x43), (''KeyD'', 0x44), (''KeyE'', 0x45), (''KeyF'', 0x46),
    (''KeyG'', 0x47), (''KeyH'', 0x48), (''KeyI'', 0x49), (''KeyJ'', 0x4A), (''KeyK'', 0x4B), (''KeyL'', 0x4C),
    (''KeyM'', 0x4D), (''KeyN'', 0x4E), (''KeyO'', 0x4F), (''KeyP'', 0x50), (''KeyQ'', 0x51), (''KeyR'', 0x52),
    (''KeyS'', 0x53), (''KeyT'', 0x54), (''KeyU'', 0x55), (''KeyV'', 0x56), (''KeyW'', 0x57), (''KeyX'', 0x58),
    (''KeyY'', 0x59), (''KeyZ'', 0x5A), (''Digit0'', 0x30), (''Digit1'', 0x31), (''Digit2'', 0x32), (''Digit3'', 0x33),
    (''Digit4'', 0x34), (''Digit5'', 0x35), (''Digit6'', 0x36), (''Digit7'', 0x37), (''Digit8'', 0x38), (''Digit9'', 0x39),
    (''Numpad0'', 0x60), (''Numpad1'', 0x61), (''Numpad2'', 0x62), (''Numpad3'', 0x63), (''Numpad4'', 0x64),
    (''Numpad5'', 0x65), (''Numpad6'', 0x66), (''Numpad7'', 0x67), (''Numpad8'', 0x68), (''Numpad9'', 0x69),
    (''NumpadAdd'', 0x6B), (''NumpadSubtract'', 0x6D), (''NumpadMultiply'', 0x6A), (''NumpadDivide'', 0x6F),
    (''NumpadDecimal'', 0x6E), (''NumpadEnter'', 0x0D), (''F1'', 0x70), (''F2'', 0x71), (''F3'', 0x72), (''F4'', 0x73),
    (''F5'', 0x74), (''F6'', 0x75), (''F7'', 0x76), (''F8'', 0x77), (''F9'', 0x78), (''F10'', 0x79), (''F11'', 0x7A),
    (''F12'', 0x7B), (''F13'', 0x7C), (''F14'', 0x7D), (''F15'', 0x7E), (''F16'', 0x7F), (''F17'', 0x80), (''F18'', 0x81),
    (''F19'', 0x82), (''F20'', 0x83), (''F21'', 0x84), (''F22'', 0x85), (''F23'', 0x86), (''F24'', 0x87),
    (''Backspace'', 0x08), (''Tab'', 0x09), (''Enter'', 0x0D), (''Escape'', 0x1B), (''Space'', 0x20), (''Insert'', 0x2D),
    (''Delete'', 0x2E), (''Home'', 0x24), (''End'', 0x23), (''PageUp'', 0x21), (''PageDown'', 0x22), (''ArrowUp'', 0x26),
    (''ArrowDown'', 0x28), (''ArrowLeft'', 0x25), (''ArrowRight'', 0x27), (''CapsLock'', 0x14), (''PrintScreen'', 0x2C),
    (''ScrollLock'', 0x91), (''Pause'', 0x13), (''NumLock'', 0x90), (''ShiftLeft'', 0xA0), (''ShiftRight'', 0xA1),
    (''ControlLeft'', 0xA2), (''ControlRight'', 0xA3), (''AltLeft'', 0xA4), (''AltRight'', 0xA5), (''SuperLeft'', 0x5B),
    (''SuperRight'', 0x5C), (''ContextMenu'', 0x5D), (''Backquote'', 0xC0), (''Minus'', 0xBD), (''Equal'', 0xBB),
    (''BracketLeft'', 0xDB), (''BracketRight'', 0xDD), (''Backslash'', 0xDC), (''Semicolon'', 0xBA), (''Quote'', 0xDE),
    (''Comma'', 0xBC), (''Period'', 0xBE), (''Slash'', 0xBF), (''IntlBackslash'', 0xE2), (''IntlRo'', 0xE2),
    (''IntlYen'', 0xDC), (''Convert'', 0x1C), (''NonConvert'', 0x1D), (''KanaMode'', 0x15), (''Lang1'', 0x15),
    (''Lang2'', 0x19), (''Hiragana'', 0xF2), (''Katakana'', 0xF2), (''BrowserBack'', 0xA6), (''BrowserForward'', 0xA7),
    (''BrowserRefresh'', 0xA8), (''BrowserStop'', 0xA9), (''BrowserSearch'', 0xAA), (''BrowserFavorites'', 0xAB),
    (''BrowserHome'', 0xAC), (''AudioVolumeMute'', 0xAD), (''AudioVolumeDown'', 0xAE), (''AudioVolumeUp'', 0xAF),
    (''MediaTrackNext'', 0xB0), (''MediaTrackPrevious'', 0xB1), (''MediaStop'', 0xB2), (''MediaPlayPause'', 0xB3),
    (''LaunchMail'', 0xB4), (''MediaSelect'', 0xB5), (''LaunchApp1'', 0xB6), (''LaunchApp2'', 0xB7), (''Sleep'', 0x5F)]"

definition winit_keycode_to_vk :: "string \<Rightarrow> u16 option" where
  "winit_keycode_to_vk code = map_of VK_TABLE code"

datatype winit_button = WinitLeft | WinitRight | WinitMiddle | WinitOther

fun button_bit :: "winit_button \<Rightarrow> u8 option" where
  "button_bit WinitLeft = Some 0b001"
| "button_bit WinitRight = Some 0b010"
| "button_bit WinitMiddle = Some 0b100"
| "button_bit WinitOther = None"

text \<open>The events of the window that produce input messages.  A physical key is a key code or unidentified; \<open>MotionFlush\<close> is the end of
  \<open>device_event\<close>, with the normalized position that it computed.\<close>

datatype app_event =
    MouseButtonEvent bool winit_button
  | KeyEvent bool bool "string option"
  | MotionFlush i32 i32

text \<open>The message of an \<open>if let Ok(message)\<close>.\<close>

fun ok_value :: "('a, 'e) outcome \<Rightarrow> 'a option" where
  "ok_value (Ok x) = Some x"
| "ok_value (Err e) = None"
| "ok_value Panic = None"

definition mask_after :: "bool \<Rightarrow> winit_button \<Rightarrow> u8 \<Rightarrow> u8" where
  "mask_after pressed button cur = (case button_bit button of
     None \<Rightarrow> cur | Some b \<Rightarrow> if pressed then cur OR b else cur AND NOT b)"

definition app_event_step :: "keyboard_event cbor \<Rightarrow> mouse_event cbor \<Rightarrow> u8 \<Rightarrow> app_event \<Rightarrow> protocol_message option \<times> u8" where
  "app_event_step kb mb cur ev = (case ev of
     MouseButtonEvent pressed button \<Rightarrow>
       let cur' = mask_after pressed button cur in (ok_value (mouse_event_msg mb 0 0 cur'), cur')
   | KeyEvent repeated pressed key \<Rightarrow>
       (if repeated then None
        else case key of None \<Rightarrow> None
             | Some code \<Rightarrow> (case winit_keycode_to_vk code of None \<Rightarrow> None | Some vk \<Rightarrow> ok_value (keyboard_event_msg kb vk pressed)),
        cur)
   | MotionFlush norm_x norm_y \<Rightarrow> (ok_value (mouse_event_abs mb norm_x norm_y cur True), cur))"

section \<open>The receiver loop of a session\<close>

text \<open>
  The loop at the end of \<open>handle_session\<close>.  Its inputs are the results of \<open>recv_message\<close>; it ends with the first error, and waits for ever (no
  result) when no more messages come.  \<open>identifier\<close> is the text of the authenticated client identifier: copying more than 32 bytes of it panics.
\<close>

definition session_envelope :: "bytes \<Rightarrow> node_id \<Rightarrow> session_id \<Rightarrow> protocol_message \<Rightarrow> (message_envelope, 'e) outcome" where
  "session_envelope identifier server sid m =
     (if length identifier > 32 then Panic
      else Ok \<lparr>env_source = identifier @ replicate (32 - length identifier) 0, env_destination = server, env_session_id = sid,
        env_route = Direct, env_message = m, env_routing_flags = 0\<rparr>)"

fun receive_loop :: "'s dispatcher \<Rightarrow> bytes \<Rightarrow> node_id \<Rightarrow> session_id \<Rightarrow> (protocol_message, 'e) outcome list \<Rightarrow> 's \<Rightarrow>
    (unit, 'e) outcome option \<times> 's" where
  "receive_loop D identifier server sid [] st = (None, st)"
| "receive_loop D identifier server sid (r # rs) st =
     (case obind r (session_envelope identifier server sid) of
        Err x \<Rightarrow> (Some (Err x), st)
      | Panic \<Rightarrow> (Some Panic, st)
      | Ok e \<Rightarrow> (case dispatch D e st of
                 (Panic, st') \<Rightarrow> (Some Panic, st')
               | (_, st') \<Rightarrow> receive_loop D identifier server sid rs st'))"

section \<open>The remote buttons follow the local ones\<close>

text \<open>The buttons that a list of injected events leaves pressed, and the ones that the user holds down.\<close>

definition click_effect :: "(mouse_button \<Rightarrow> bool) \<Rightarrow> injected_input \<Rightarrow> mouse_button \<Rightarrow> bool" where
  "click_effect h i = (case i of MouseClick b down \<Rightarrow> h(b := down) | _ \<Rightarrow> h)"

definition held :: "injected_input list \<Rightarrow> mouse_button \<Rightarrow> bool" where
  "held is = foldl click_effect (\<lambda>_. False) is"

fun winit_of :: "mouse_button \<Rightarrow> winit_button" where
  "winit_of Left = WinitLeft"
| "winit_of Right = WinitRight"
| "winit_of Middle = WinitMiddle"

definition press_effect :: "mouse_button \<Rightarrow> bool \<Rightarrow> app_event \<Rightarrow> bool" where
  "press_effect b h ev = (case ev of MouseButtonEvent pressed w \<Rightarrow> if w = winit_of b then pressed else h | _ \<Rightarrow> h)"

definition user_holds :: "app_event list \<Rightarrow> mouse_button \<Rightarrow> bool" where
  "user_holds evs b = foldl (press_effect b) False evs"

lemma held_simps [simp]: "held [] = (\<lambda>_. False)" "held (is @ [i]) = click_effect (held is) i"
  by (simp_all add: held_def)

lemma user_holds_simps [simp]: "user_holds [] b = False" "user_holds (evs @ [ev]) b = press_effect b (user_holds evs b) ev"
  by (simp_all add: user_holds_def)

fun mask_bit :: "u8 \<Rightarrow> mouse_button \<Rightarrow> bool" where
  "mask_bit m Left = bit m 0"
| "mask_bit m Right = bit m 1"
| "mask_bit m Middle = bit m 2"

lemma and_bits: "(m :: u8) AND 1 = 0 \<longleftrightarrow> \<not> bit m 0" "m AND 2 = 0 \<longleftrightarrow> \<not> bit m 1" "m AND 4 = 0 \<longleftrightarrow> \<not> bit m 2"
  using and_exp_eq_0_iff_not_bit [of m 0] and_exp_eq_0_iff_not_bit [of m 1] and_exp_eq_0_iff_not_bit [of m 2] by simp_all

lemma mask_after_bit: "mask_bit (mask_after pressed w m) b = (if w = winit_of b then pressed else mask_bit m b)"
  by (cases w; cases b) (auto simp: mask_after_def bit_simps numeral_2_eq_2 numeral_3_eq_3)

text \<open>The loop over the buttons turns one mask into the next.\<close>

lemma click_buttons_recording:
  assumes "\<forall>b. held is b = mask_bit prev b"
  obtains is' where "click_buttons recording_backend prev cur BUTTON_BITS is = (Ok (), is')" "\<forall>b. held is' b = mask_bit cur b"
proof -
  have *: "held is Left = bit prev 0" "held is Right = bit prev 1" "held is Middle = bit prev 2" using assms by simp_all
  have "\<exists>is'. click_buttons recording_backend prev cur BUTTON_BITS is = (Ok (), is') \<and>
      held is' Left = bit cur 0 \<and> held is' Right = bit cur 1 \<and> held is' Middle = bit cur 2"
    using * by (auto simp: BUTTON_BITS_def and_bits inject_mouse_click_def recording_backend_def click_effect_def Let_def simp del: bit_0
      simp flip: append_assoc)
  then obtain is' where c: "click_buttons recording_backend prev cur BUTTON_BITS is = (Ok (), is')"
    and h: "held is' Left = bit cur 0" "held is' Right = bit cur 1" "held is' Middle = bit cur 2" by blast
  have "held is' b = mask_bit cur b" for b using h by (cases b) simp_all
  then show thesis using that [OF c] by blast
qed

lemma move_mouse_recording: "\<exists>is'. move_mouse recording_backend ev is = (Ok (), is') \<and> held is' = held is"
  by (auto simp: move_mouse_def inject_mouse_move_absolute_def inject_mouse_move_def recording_backend_def click_effect_def)

text \<open>The server's view of a session: the mask it remembers is the one it has injected.\<close>

definition tracks :: "session_id \<Rightarrow> u8 \<Rightarrow> injected_input list input_state \<Rightarrow> bool" where
  "tracks sid m st \<longleftrightarrow> (button_states st = [(sid, m)] \<or> button_states st = [] \<and> m = 0) \<and> (\<forall>b. held (os_state st) b = mask_bit m b)"

lemma mouse_handler_tracks:
  assumes "tracks (env_session_id e) m st" "as_mouse_event mb (env_message e) = Some ev"
  shows "\<exists>st'. mouse_handler mb recording_backend e st = (Ok (), st') \<and> tracks (env_session_id e) (buttons_mask ev) st'"
proof -
  let ?sid = "env_session_id e"
  obtain is1 where mv: "move_mouse recording_backend ev (os_state st) = (Ok (), is1)" "held is1 = held (os_state st)"
    using move_mouse_recording by blast
  then obtain is2 where cl: "click_buttons recording_backend m (buttons_mask ev) BUTTON_BITS is1 = (Ok (), is2)"
      "\<forall>b. held is2 b = mask_bit (buttons_mask ev) b"
    using click_buttons_recording [of is1 m] assms(1) by (auto simp: tracks_def)
  have "bounded_states ?sid (button_states st) = button_states st" "(case map_of (button_states st) ?sid of Some m \<Rightarrow> m | None \<Rightarrow> 0) = m"
    "AList.update ?sid (buttons_mask ev) (button_states st) = [(?sid, buttons_mask ev)]"
    using assms(1) by (auto simp: tracks_def bounded_states_def)
  with assms(2) mv(1) cl show ?thesis
    by (simp add: mouse_handler_def parse_mouse_def tracks_def)
qed

lemma keyboard_handler_tracks:
  assumes "tracks sid m st"
  shows "fst (keyboard_handler kb recording_backend e st) \<noteq> Panic \<and> tracks sid m (snd (keyboard_handler kb recording_backend e st))"
  using assms
  by (cases "as_keyboard_event kb (env_message e)")
    (auto simp: keyboard_handler_def parse_keyboard_def inject_keyboard_def recording_backend_def handler_result_def tracks_def click_effect_def)

text \<open>The messages of an input stream that decode as the client wrote them.\<close>

definition input_message :: "mouse_event cbor \<Rightarrow> protocol_message \<Rightarrow> bool" where
  "input_message mb m \<longleftrightarrow> msg_type m = InputKeyboard \<or> (msg_type m = InputMouse \<and> msg_payload m \<noteq> [] \<and> as_mouse_event mb m \<noteq> None)"

definition mask_of :: "mouse_event cbor \<Rightarrow> u8 \<Rightarrow> protocol_message \<Rightarrow> u8" where
  "mask_of mb m0 m = (case as_mouse_event mb m of Some ev \<Rightarrow> buttons_mask ev | None \<Rightarrow> m0)"

definition server_input :: "keyboard_event cbor \<Rightarrow> mouse_event cbor \<Rightarrow> injected_input list input_state dispatcher" where
  "server_input kb mb = register_input_handlers kb mb recording_backend dispatcher_new"

lemma dispatch_tracks:
  assumes "tracks (env_session_id e) m st" "input_message mb (env_message e)" "env_route e = Direct"
    "env_source e \<noteq> env_destination e" "env_destination e \<noteq> broadcast"
  shows "fst (dispatch (server_input kb mb) e st) \<noteq> Panic \<and>
    tracks (env_session_id e) (mask_of mb m (env_message e)) (snd (dispatch (server_input kb mb) e st))"
proof (cases "env_ok e")
  case False
  then have "msg_type (env_message e) = InputKeyboard" "as_mouse_event mb (env_message e) = None"
    using assms by (auto simp: env_ok_def input_message_def as_mouse_event_def)
  with assms(1) env_validate_not_ok [OF False] show ?thesis
    by (auto simp: dispatch_def mask_of_def)
next
  case True
  then have ok: "env_validate e = Ok ()" by (simp add: env_validate_iff)
  show ?thesis
  proof (cases "msg_type (env_message e) = InputKeyboard")
    case True
    then show ?thesis
      using keyboard_handler_tracks [OF assms(1), of kb e] ok
      by (simp add: dispatch_def server_input_def register_input_handlers_def register_handler_def mask_of_def as_mouse_event_def)
  next
    case False
    then obtain ev where ty: "msg_type (env_message e) = InputMouse" and ev: "as_mouse_event mb (env_message e) = Some ev"
      using assms(2) by (auto simp: input_message_def)
    with mouse_handler_tracks [OF assms(1) ev] ok show ?thesis
      by (auto simp: dispatch_def server_input_def register_input_handlers_def register_handler_def mask_of_def)
  qed
qed

lemma receive_loop_result:
  assumes "length identifier \<le> 32" "identifier @ replicate (32 - length identifier) 0 \<noteq> server" "server \<noteq> broadcast"
    and "\<forall>m \<in> set ms. input_message mb m" "tracks sid m0 st"
    and "receive_loop (server_input kb mb) identifier server sid (map Ok ms) st = (r, st')"
  shows "r = None \<and> tracks sid (foldl (mask_of mb) m0 ms) st'"
  using assms(4-6)
proof (induction ms arbitrary: m0 st)
  case (Cons m ms)
  let ?e = "\<lparr>env_source = identifier @ replicate (32 - length identifier) 0, env_destination = server, env_session_id = sid,
        env_route = Direct, env_message = m, env_routing_flags = 0\<rparr>"
  obtain x st1 where d: "dispatch (server_input kb mb) ?e st = (x, st1)" by force
  with dispatch_tracks [of ?e m0 st mb kb] Cons.prems assms(2,3) have "x \<noteq> Panic" "tracks sid (mask_of mb m0 m) st1" by auto
  then show ?case
    using d assms(1) Cons.IH [of "mask_of mb m0 m" st1] Cons.prems(1,3)
    by (cases x) (simp_all add: session_envelope_def)
qed simp

text \<open>The client: every event with the message that it queued, if the channel had room.\<close>

fun app_run :: "keyboard_event cbor \<Rightarrow> mouse_event cbor \<Rightarrow> u8 \<Rightarrow> (app_event \<times> bool) list \<Rightarrow> protocol_message list \<times> u8" where
  "app_run kb mb cur [] = ([], cur)"
| "app_run kb mb cur ((ev, room) # evs) =
     (let (msg, cur') = app_event_step kb mb cur ev; (ms, cur'') = app_run kb mb cur' evs
      in ((case msg of Some m \<Rightarrow> if room then m # ms else ms | None \<Rightarrow> ms), cur''))"

lemma app_run_append: "app_run kb mb cur (xs @ ys) =
    (fst (app_run kb mb cur xs) @ fst (app_run kb mb (snd (app_run kb mb cur xs)) ys), snd (app_run kb mb (snd (app_run kb mb cur xs)) ys))"
proof (induction xs arbitrary: cur)
  case (Cons x xs)
  then show ?case by (cases x) (simp add: case_prod_beta Let_def split: option.splits)
qed simp

lemma mask_bit_0 [simp]: "mask_bit 0 b = False"
  by (cases b) simp_all

lemma app_event_mask: "mask_bit (snd (app_event_step kb mb cur ev)) b = press_effect b (mask_bit cur b) ev"
  by (cases ev) (simp_all add: app_event_step_def press_effect_def Let_def mask_after_bit split: option.splits)

lemma app_run_mask: "mask_bit (snd (app_run kb mb 0 evs)) b = user_holds (map fst evs) b"
proof (induction evs rule: rev_induct)
  case Nil
  then show ?case by (cases b) simp_all
next
  case (snoc x evs)
  then show ?case by (cases x) (simp add: app_run_append app_event_mask case_prod_beta Let_def)
qed

definition writes_all :: "'a cbor \<Rightarrow> bool" where
  "writes_all cb \<longleftrightarrow> (\<forall>x. \<exists>p. into_writer cb x = Some p \<and> p \<noteq> [])"

lemma mouse_event_abs_decodes:
  assumes "cbor_contract mb" "writes_all mb"
  shows "\<exists>m. mouse_event_abs mb x y b absolute = Ok m \<and> input_message mb m \<and> mask_of mb m0 m = b"
proof -
  obtain p where "into_writer mb \<lparr>dx = x, dy = y, buttons_mask = b, is_absolute = absolute\<rparr> = Some p" "p \<noteq> []"
    using assms(2) unfolding writes_all_def by blast
  then show ?thesis
    using cbor_contractD [OF assms(1)] by (simp add: mouse_event_abs_def input_message_def mask_of_def as_mouse_event_def)
qed

lemma app_event_message:
  assumes "cbor_contract mb" "writes_all mb"
  shows "case fst (app_event_step kb mb cur ev) of Some m \<Rightarrow> input_message mb m | None \<Rightarrow> True"
    "\<forall>rep pr key. ev \<noteq> KeyEvent rep pr key \<Longrightarrow>
       \<exists>m. fst (app_event_step kb mb cur ev) = Some m \<and> mask_of mb m0 m = snd (app_event_step kb mb cur ev)"
proof -
  note abs = mouse_event_abs_decodes [OF assms]
  have key: "ok_value (keyboard_event_msg kb vk pr) = Some m \<Longrightarrow> input_message mb m" for vk pr m
    by (cases "into_writer kb \<lparr>keycode = vk, is_down = pr\<rparr>") (auto simp: keyboard_event_msg_def input_message_def)
  show "case fst (app_event_step kb mb cur ev) of Some m \<Rightarrow> input_message mb m | None \<Rightarrow> True"
  proof (cases ev)
    case (MouseButtonEvent pr w)
    then show ?thesis using abs [of 0 0 "mask_after pr w cur" False 0] by (auto simp: app_event_step_def mouse_event_msg_def Let_def)
  next
    case (KeyEvent rep pr k)
    then show ?thesis using key by (auto simp: app_event_step_def split: option.splits)
  next
    case (MotionFlush x y)
    then show ?thesis using abs [of x y cur True 0] by (auto simp: app_event_step_def)
  qed
  show "\<exists>m. fst (app_event_step kb mb cur ev) = Some m \<and> mask_of mb m0 m = snd (app_event_step kb mb cur ev)"
    if "\<forall>rep pr key. ev \<noteq> KeyEvent rep pr key"
  proof (cases ev)
    case (MouseButtonEvent pr w)
    then show ?thesis using abs [of 0 0 "mask_after pr w cur" False m0] by (auto simp: app_event_step_def mouse_event_msg_def Let_def)
  next
    case (MotionFlush x y)
    then show ?thesis using abs [of x y cur True m0] by (auto simp: app_event_step_def)
  qed (use that in blast)
qed

lemma app_run_messages:
  "cbor_contract mb \<Longrightarrow> writes_all mb \<Longrightarrow> \<forall>m \<in> set (fst (app_run kb mb cur evs)). input_message mb m"
proof (induction evs arbitrary: cur)
  case (Cons x evs)
  then show ?case
    using app_event_message(1) [of mb kb cur "fst x"] by (cases x) (auto simp: case_prod_beta Let_def split: option.splits)
qed simp

lemma app_run_last_mask:
  assumes "cbor_contract mb" "writes_all mb" "\<forall>rep pr key. ev \<noteq> KeyEvent rep pr key"
  shows "foldl (mask_of mb) m0 (fst (app_run kb mb 0 (evs @ [(ev, True)]))) = snd (app_run kb mb 0 (evs @ [(ev, True)]))"
proof -
  let ?cur = "snd (app_run kb mb 0 evs)"
  obtain m where "fst (app_event_step kb mb ?cur ev) = Some m"
      "mask_of mb (foldl (mask_of mb) m0 (fst (app_run kb mb 0 evs))) m = snd (app_event_step kb mb ?cur ev)"
    using app_event_message(2) [OF assms] by blast
  then show ?thesis by (simp add: app_run_append case_prod_beta Let_def)
qed

text \<open>C14: The buttons pressed on the server are those the user holds on the client.  The client may report any sequence of key, button and motion
  events and drop any of the messages because its channel is full: as soon as a button or motion event gets through, and the
  messages of the session have been received, dispatched and injected, every mouse button is down on the server exactly when the user holds
  it down, and no message stopped the receiver.\<close>
theorem buttons_follow:
  assumes "cbor_contract mb" "writes_all mb" "\<forall>rep pr key. ev \<noteq> KeyEvent rep pr key"
    and "length identifier \<le> 32" "identifier @ replicate (32 - length identifier) 0 \<noteq> server" "server \<noteq> broadcast"
    and "evs = before @ [(ev, True)]"
    and "receive_loop (server_input kb mb) identifier server sid (map Ok (fst (app_run kb mb 0 evs))) \<lparr>button_states = [], os_state = []\<rparr> = (r, st)"
  shows "r = None \<and> (\<forall>b. held (os_state st) b = user_holds (map fst evs) b)"
proof -
  have "tracks sid 0 \<lparr>button_states = [], os_state = []\<rparr>" unfolding tracks_def by (simp add: mask_bit_0)
  from receive_loop_result [OF assms(4-6) app_run_messages [OF assms(1,2)] this assms(8)]
  have "r = None" "tracks sid (foldl (mask_of mb) 0 (fst (app_run kb mb 0 evs))) st" by simp_all
  then show ?thesis
    using app_run_last_mask [OF assms(1-3), of 0 kb before] app_run_mask [of kb mb evs] by (simp add: tracks_def assms(7))
qed

text \<open>A concrete encoding of mouse events, for the examples.\<close>

definition demo_mouse_cbor :: "mouse_event cbor" where
  "demo_mouse_cbor = \<lparr>into_writer = (\<lambda>ev. Some (to_be_bytes 4 (dx ev) @ to_be_bytes 4 (dy ev) @ [buttons_mask ev, if is_absolute ev then 1 else 0])),
     from_reader = (\<lambda>p. if length p = 10
       then Some \<lparr>dx = from_be_bytes (slice_of 0 4 p), dy = from_be_bytes (slice_of 4 8 p), buttons_mask = p ! 8, is_absolute = p ! 9 = 1\<rparr>
       else None)\<rparr>"

lemma demo_mouse_contract: "cbor_contract demo_mouse_cbor" "writes_all demo_mouse_cbor"
  by (auto simp: cbor_contract_def writes_all_def demo_mouse_cbor_def slice_of_def from_to_be_bytes nth_append)

definition demo_keyboard_cbor :: "keyboard_event cbor" where
  "demo_keyboard_cbor = \<lparr>into_writer = (\<lambda>_. None), from_reader = (\<lambda>_. None)\<rparr>"

theorem buttons_follow_witness:
  "\<exists>st. receive_loop (server_input demo_keyboard_cbor demo_mouse_cbor) [1] [2] (SessionId [])
      (map Ok (fst (app_run demo_keyboard_cbor demo_mouse_cbor 0
        [(MouseButtonEvent True WinitLeft, True), (MouseButtonEvent True WinitRight, False), (MouseButtonEvent False WinitLeft, True)])))
      \<lparr>button_states = [], os_state = []\<rparr> = (None :: (unit, unit) outcome option, st) \<and>
    held (os_state st) Right \<and> \<not> held (os_state st) Left"
proof -
  let ?evs = "[(MouseButtonEvent True WinitLeft, True), (MouseButtonEvent True WinitRight, False)] @ [(MouseButtonEvent False WinitLeft, True)]"
  obtain r :: "(unit, unit) outcome option" and st
    where l: "receive_loop (server_input demo_keyboard_cbor demo_mouse_cbor) [1] [2] (SessionId [])
      (map Ok (fst (app_run demo_keyboard_cbor demo_mouse_cbor 0 ?evs))) \<lparr>button_states = [], os_state = []\<rparr> = (r, st)" by force
  have *: "[1 :: u8] @ replicate (32 - length [1 :: u8]) 0 \<noteq> [2]" "[2] \<noteq> broadcast"
    by (simp_all add: broadcast_def numeral_eq_Suc)
  have "r = None \<and> (\<forall>b. held (os_state st) b = user_holds (map fst ?evs) b)"
    by (rule buttons_follow [OF demo_mouse_contract _ _ * refl l]) simp_all
  with l show ?thesis by (auto simp: user_holds_def press_effect_def)
qed

section \<open>Forgotten buttons\<close>

lemma mouse_handler_idle:
  assumes "as_mouse_event mb (env_message e) = Some \<lparr>dx = 0, dy = 0, buttons_mask = 0, is_absolute = a\<rparr>"
    and "map_of (button_states st) (env_session_id e) = None"
  shows "mouse_handler mb bk e st =
    (Ok (), \<lparr>button_states = AList.update (env_session_id e) 0 (bounded_states (env_session_id e) (button_states st)), os_state = os_state st\<rparr>)"
  using assms by (simp add: mouse_handler_def parse_mouse_def move_mouse_def BUTTON_BITS_def bounded_states_def)

text \<open>The server can forget that a button is down.  The masks of ended sessions are never removed, so once 64 sessions have sent mouse
  input, the first mouse message of a new session clears all the masks.  When another session then reports that it released all of its
  buttons, nothing is injected: a button that it had pressed stays down.\<close>
theorem forgotten_release:
  assumes "64 \<le> length (button_states st)" "map_of (button_states st) (env_session_id new) = None"
    and "as_mouse_event mb (env_message new) = Some \<lparr>dx = 0, dy = 0, buttons_mask = 0, is_absolute = False\<rparr>"
    and "as_mouse_event mb (env_message release) = Some \<lparr>dx = 0, dy = 0, buttons_mask = 0, is_absolute = False\<rparr>"
    and "env_session_id release \<noteq> env_session_id new" "mouse_handler mb bk new st = (r1, st1)" "mouse_handler mb bk release st1 = (r2, st2)"
  shows "r1 = Ok () \<and> r2 = Ok () \<and> os_state st2 = os_state st"
proof -
  have "r1 = Ok ()" "st1 = \<lparr>button_states = [(env_session_id new, 0)], os_state = os_state st\<rparr>"
    using mouse_handler_idle [OF assms(3,2), of bk] assms(1,2,6) by (simp_all add: bounded_states_def)
  then show ?thesis
    using mouse_handler_idle [OF assms(4), of st1 bk] assms(5,7) by auto
qed

definition crowded :: "injected_input list input_state" where
  "crowded = \<lparr>button_states = map (\<lambda>i. (SessionId [of_nat i], 1)) [0..<64], os_state = [MouseClick Left True]\<rparr>"

definition idle_from :: "session_id \<Rightarrow> message_envelope" where
  "idle_from sid = \<lparr>env_source = [1], env_destination = [2], env_session_id = sid, env_route = Direct,
    env_message = \<lparr>msg_type = InputMouse, msg_id = 0, msg_flags = 0, msg_payload = replicate 10 0\<rparr>, env_routing_flags = 0\<rparr>"

theorem forgotten_release_witness:
  "\<exists>r1 st1 r2 st2. mouse_handler demo_mouse_cbor recording_backend (idle_from (SessionId [])) crowded = (r1, st1) \<and>
    mouse_handler demo_mouse_cbor recording_backend (idle_from (SessionId [0])) st1 = (r2, st2) \<and> held (os_state st2) Left"
proof -
  let ?new = "idle_from (SessionId [])" and ?release = "idle_from (SessionId [0])"
  obtain r1 st1 where 1: "mouse_handler demo_mouse_cbor recording_backend ?new crowded = (r1, st1)" by force
  obtain r2 st2 where 2: "mouse_handler demo_mouse_cbor recording_backend ?release st1 = (r2, st2)" by force
  have ev: "as_mouse_event demo_mouse_cbor (env_message (idle_from sid)) = Some \<lparr>dx = 0, dy = 0, buttons_mask = 0, is_absolute = False\<rparr>" for sid
    by (simp add: idle_from_def as_mouse_event_def demo_mouse_cbor_def slice_of_def from_be_bytes_def numeral_eq_Suc)
  have "64 \<le> length (button_states crowded)" "map_of (button_states crowded) (env_session_id ?new) = None"
    by (auto simp: crowded_def idle_from_def map_of_eq_None_iff)
  from forgotten_release [OF this ev ev _ 1 2] have "os_state st2 = os_state crowded" by (simp add: idle_from_def)
  then have "held (os_state st2) Left" by (simp add: crowded_def held_def click_effect_def)
  with 1 2 show ?thesis by blast
qed

text \<open>The top left corner cannot be reached by an absolute movement: the handler takes it for no movement at all.\<close>

lemma absolute_origin_ignored:
  "is_absolute ev \<Longrightarrow> dx ev = 0 \<Longrightarrow> dy ev = 0 \<Longrightarrow> move_mouse bk ev s = (Ok (), s)"
  by (simp add: move_mouse_def)

section \<open>The key table\<close>

text \<open>No key is listed twice, so every row of the table takes effect.\<close>

lemma vk_table_distinct: "distinct (map fst VK_TABLE)"
  by (simp add: VK_TABLE_def)

end
