(* ===== verification/BW_Admission.thy ===== *)
theory BW_Admission
  imports BW_Prelude "HOL-Library.AList"
begin

text \<open>
  Admission control of the server (\<^verbatim>\<open>bw-server/src/main.rs\<close>): the per-address limiter and the handshake permits that
  \<open>spawn_session_task\<close> consults before it starts a session.  Instants are natural numbers of nanoseconds.
\<close>

section \<open>The limiter\<close>

definition MAX_AUTH_ATTEMPTS_PER_IP :: nat where
  "MAX_AUTH_ATTEMPTS_PER_IP = 10"

definition IP_RATE_WINDOW :: nat where
  "IP_RATE_WINDOW = 60 * 10 ^ 9"

definition MAX_CONCURRENT_HANDSHAKES :: nat where
  "MAX_CONCURRENT_HANDSHAKES = 4"

type_synonym 'ip attempts = "('ip \<times> nat \<times> nat) list"

definition limiter_new :: "'ip attempts" where
  "limiter_new = []"

definition evict_stale :: "nat \<Rightarrow> 'ip attempts \<Rightarrow> 'ip attempts" where
  "evict_stale now m = (if length m > 1024 then filter (\<lambda>(_, _, ts). now - ts < IP_RATE_WINDOW) m else m)"

definition check_and_record :: "'ip attempts \<Rightarrow> nat \<times> 'ip \<Rightarrow> bool \<times> 'ip attempts" where
  "check_and_record m0 = (\<lambda>(now, ip).
     let m = evict_stale now m0;
         (n, ts) = (case map_of m ip of None \<Rightarrow> (0, now) | Some e \<Rightarrow> e)
     in if now - ts \<ge> IP_RATE_WINDOW then (True, AList.update ip (1, now) m)
        else if n \<ge> MAX_AUTH_ATTEMPTS_PER_IP then (False, AList.update ip (n, ts) m)
        else (True, AList.update ip (n + 1, ts) m))"

section \<open>Admission of a connection\<close>

text \<open>The permits of the semaphore that are left, and the tasks that hold one.  A task gives its permit back when its session has ended or
  has been cut off by the timeout.\<close>

record 'ip admission =
  adm_limiter :: "'ip attempts"
  adm_permits :: nat
  adm_tasks :: nat

datatype verdict = Admitted | RateLimitExceeded | TooManyHandshakes

definition admission_new :: "'ip admission" where
  "admission_new = \<lparr>adm_limiter = limiter_new, adm_permits = MAX_CONCURRENT_HANDSHAKES, adm_tasks = 0\<rparr>"

definition spawn_session_task :: "'ip admission \<Rightarrow> nat \<times> 'ip \<Rightarrow> verdict \<times> 'ip admission" where
  "spawn_session_task A conn =
     (let (allowed, m) = check_and_record (adm_limiter A) conn; A1 = A\<lparr>adm_limiter := m\<rparr>
      in if \<not> allowed then (RateLimitExceeded, A1)
         else if adm_permits A = 0 then (TooManyHandshakes, A1)
         else (Admitted, A1\<lparr>adm_permits := adm_permits A - 1, adm_tasks := adm_tasks A + 1\<rparr>))"

definition task_ended :: "'ip admission \<Rightarrow> 'ip admission" where
  "task_ended A = (if adm_tasks A = 0 then A else A\<lparr>adm_permits := adm_permits A + 1, adm_tasks := adm_tasks A - 1\<rparr>)"

section \<open>Addresses do not influence each other\<close>

text \<open>The reference limiter of one address: a counter and the start of its window.\<close>

fun window_spec :: "(nat \<times> nat) option \<Rightarrow> nat \<Rightarrow> bool \<times> (nat \<times> nat) option" where
  "window_spec None now = (True, Some (1, now))"
| "window_spec (Some (n, ts)) now =
     (if now - ts \<ge> IP_RATE_WINDOW then (True, Some (1, now))
      else if n \<ge> MAX_AUTH_ATTEMPTS_PER_IP then (False, Some (n, ts))
      else (True, Some (n + 1, ts)))"

definition own_times :: "'ip \<Rightarrow> (nat \<times> 'ip) list \<Rightarrow> nat list" where
  "own_times ip as = map fst (filter (\<lambda>a. snd a = ip) as)"

definition own_answers :: "'ip \<Rightarrow> (nat \<times> 'ip) list \<Rightarrow> bool list \<Rightarrow> bool list" where
  "own_answers ip as rs = map snd (filter (\<lambda>(a, r). snd a = ip) (zip as rs))"

definition stale_at :: "nat \<Rightarrow> (nat \<times> nat) option \<Rightarrow> bool" where
  "stale_at now s = (case s of None \<Rightarrow> True | Some (n, ts) \<Rightarrow> IP_RATE_WINDOW \<le> now - ts)"

definition agrees :: "nat \<Rightarrow> 'ip attempts \<Rightarrow> 'ip \<Rightarrow> (nat \<times> nat) option \<Rightarrow> bool" where
  "agrees now m ip s \<longleftrightarrow> map_of m ip = s \<or> (map_of m ip = None \<and> stale_at now s)"

lemma window_pos [simp]: "IP_RATE_WINDOW \<noteq> 0" "MAX_AUTH_ATTEMPTS_PER_IP \<noteq> 0" "0 < IP_RATE_WINDOW" "0 < MAX_AUTH_ATTEMPTS_PER_IP"
  by (simp_all add: IP_RATE_WINDOW_def MAX_AUTH_ATTEMPTS_PER_IP_def)

lemma map_of_filter_distinct:
  "distinct (map fst m) \<Longrightarrow> map_of (filter P m) k = (case map_of m k of Some v \<Rightarrow> if P (k, v) then Some v else None | None \<Rightarrow> None)"
  by (induction m) (auto split: option.splits simp: map_of_eq_None_iff dest: map_of_SomeD)

lemma evict_agrees:
  assumes "distinct (map fst m)" "agrees t m ip s" "t \<le> now"
  shows "agrees now (evict_stale now m) ip s"
proof -
  have "stale_at t s \<Longrightarrow> stale_at now s" using assms(3) by (auto simp: stale_at_def split: option.splits)
  then show ?thesis
    using assms(1,2) map_of_filter_distinct [OF assms(1), of "\<lambda>(_, _, ts). now - ts < IP_RATE_WINDOW" ip]
    by (cases "map_of m ip") (auto simp: agrees_def evict_stale_def stale_at_def simp del: map_of_eq_Some_iff split: if_splits)
qed

lemma evict_distinct: "distinct (map fst m) \<Longrightarrow> distinct (map fst (evict_stale now m))"
  by (simp add: evict_stale_def distinct_map_filter)

lemma check_step_own:
  assumes "distinct (map fst m)" "agrees t m ip s" "t \<le> now" "check_and_record m (now, ip) = (r, m')"
  shows "r = fst (window_spec s now) \<and> agrees now m' ip (snd (window_spec s now)) \<and> distinct (map fst m')"
  using evict_agrees [OF assms(1-3)] evict_distinct [OF assms(1), of now] assms(4)
  by (cases s; cases "map_of (evict_stale now m) ip")
    (auto simp: check_and_record_def agrees_def stale_at_def distinct_update update_conv' Let_def simp del: map_of_eq_Some_iff split: if_splits prod.splits)

lemma check_step_other:
  assumes "distinct (map fst m)" "agrees t m ip s" "t \<le> now" "ip \<noteq> ip'" "check_and_record m (now, ip') = (r, m')"
  shows "agrees now m' ip s \<and> distinct (map fst m')"
  using evict_agrees [OF assms(1-3)] evict_distinct [OF assms(1), of now] assms(4,5)
  by (auto simp: check_and_record_def agrees_def distinct_update update_conv' Let_def simp del: map_of_eq_Some_iff split: if_splits prod.splits)

lemma limiter_run_agrees:
  assumes "distinct (map fst m)" "agrees t m ip s" "sorted (t # map fst as)"
  shows "own_answers ip as (fst (run_all check_and_record m as)) = fst (run_all window_spec s (own_times ip as))"
  using assms
proof (induction as arbitrary: m t s)
  case Nil
  then show ?case by (simp add: own_answers_def own_times_def)
next
  case (Cons a as)
  obtain now ip' where a: "a = (now, ip')" by force
  obtain r m' where c: "check_and_record m a = (r, m')" by force
  have t: "t \<le> now" "sorted (now # map fst as)" using Cons.prems(3) a by auto
  show ?case
  proof (cases "ip' = ip")
    case True
    then show ?thesis
      using check_step_own [OF Cons.prems(1,2) t(1), of r m'] Cons.IH [of m' now "snd (window_spec s now)"] c a t(2)
      by (simp add: run_all_Cons own_answers_def own_times_def del: run_all.simps(2))
  next
    case False
    then show ?thesis
      using check_step_other [OF Cons.prems(1,2) t(1), of ip' r m'] Cons.IH [of m' now s] c a t(2)
      by (simp add: run_all_Cons own_answers_def own_times_def del: run_all.simps(2))
  qed
qed

text \<open>C18: The limiter keeps addresses apart.  In every history of attempts at non-decreasing times, the answers that one address gets are
  those of a counter of its own, whatever the other addresses do and whenever stale entries are evicted.\<close>
theorem limiter_refines:
  assumes "sorted (map fst as)"
  shows "own_answers ip as (fst (run_all check_and_record limiter_new as)) = fst (run_all window_spec None (own_times ip as))"
  using limiter_run_agrees [of limiter_new 0 ip None as] assms by (simp add: agrees_def limiter_new_def)

section \<open>How many attempts a window lets through\<close>

definition admitted :: "nat list \<Rightarrow> bool list \<Rightarrow> nat list" where
  "admitted ts rs = map fst (filter snd (zip ts rs))"

definition within :: "nat \<Rightarrow> nat list \<Rightarrow> nat" where
  "within t acc = length (filter (\<lambda>a. t \<le> a \<and> a < t + IP_RATE_WINDOW) acc)"

lemma length_filter_mono: "(\<And>x. x \<in> set xs \<Longrightarrow> P x \<Longrightarrow> Q x) \<Longrightarrow> length (filter P xs) \<le> length (filter Q xs)"
  by (induction xs) auto

lemma length_filter_cover:
  "(\<And>x. x \<in> set xs \<Longrightarrow> P x \<Longrightarrow> Q x \<or> R x) \<Longrightarrow> length (filter P xs) \<le> length (filter Q xs) + length (filter R xs)"
  by (induction xs) auto

text \<open>The invariant relates the counter to the admitted attempts: those since the start of the window, and those before it that a
  window reaching back from the start can still contain.\<close>

definition window_inv :: "nat \<Rightarrow> (nat \<times> nat) option \<Rightarrow> nat list \<Rightarrow> bool" where
  "window_inv now s acc \<longleftrightarrow> (\<forall>t. within t acc \<le> 2 * MAX_AUTH_ATTEMPTS_PER_IP - 1) \<and>
     (case s of None \<Rightarrow> acc = []
      | Some (n, ts) \<Rightarrow> ts \<le> now \<and> 0 < n \<and> n \<le> MAX_AUTH_ATTEMPTS_PER_IP \<and> (\<forall>a \<in> set acc. a < ts + IP_RATE_WINDOW) \<and>
          length (filter (\<lambda>a. ts \<le> a) acc) = n \<and> length (filter (\<lambda>a. ts < a) acc) < n \<and>
          length (filter (\<lambda>a. a < ts \<and> ts < a + IP_RATE_WINDOW) acc) < MAX_AUTH_ATTEMPTS_PER_IP)"

lemma within_snoc: "within t (acc @ [a]) = within t acc + (if t \<le> a \<and> a < t + IP_RATE_WINDOW then 1 else 0)"
  by (simp add: within_def)

lemma window_inv_reset:
  assumes "window_inv now (Some (n, ts)) acc" "ts + IP_RATE_WINDOW \<le> now'"
  shows "window_inv now' (Some (1, now')) (acc @ [now'])"
proof -
  note inv = assms(1) [unfolded window_inv_def option.case prod.case]
  have old: "a < now'" if "a \<in> set acc" for a using inv that assms(2) by force
  have "length (filter (\<lambda>a. now' < a + IP_RATE_WINDOW) acc) \<le> length (filter (\<lambda>a. ts < a) acc)"
    using assms(2) by (intro length_filter_mono) auto
  then have late: "length (filter (\<lambda>a. now' < a + IP_RATE_WINDOW) acc) < MAX_AUTH_ATTEMPTS_PER_IP" using inv by linarith
  have "within t acc < MAX_AUTH_ATTEMPTS_PER_IP" if "now' < t + IP_RATE_WINDOW" for t
    using late that length_filter_mono [of acc "\<lambda>a. t \<le> a \<and> a < t + IP_RATE_WINDOW" "\<lambda>a. now' < a + IP_RATE_WINDOW"]
    by (force simp: within_def)
  then have "within t (acc @ [now']) \<le> 2 * MAX_AUTH_ATTEMPTS_PER_IP - 1" for t
    using inv by (cases "now' < t + IP_RATE_WINDOW") (force simp: within_snoc)+
  moreover have "filter (\<lambda>a. now' \<le> a) acc = []" "filter (\<lambda>a. now' < a) acc = []"
    using old by (auto simp: filter_empty_conv not_le not_less intro: less_imp_le)
  moreover have "length (filter (\<lambda>a. a < now' \<and> now' < a + IP_RATE_WINDOW) acc) < MAX_AUTH_ATTEMPTS_PER_IP"
    using late length_filter_mono [of acc "\<lambda>a. a < now' \<and> now' < a + IP_RATE_WINDOW" "\<lambda>a. now' < a + IP_RATE_WINDOW"] by force
  moreover have "\<forall>a \<in> set acc. a < now' + IP_RATE_WINDOW" using old by force
  ultimately show ?thesis by (simp add: window_inv_def Suc_leI)
qed

lemma window_inv_count:
  assumes "window_inv now (Some (n, ts)) acc" "now \<le> now'" "now' < ts + IP_RATE_WINDOW" "n < MAX_AUTH_ATTEMPTS_PER_IP"
  shows "window_inv now' (Some (n + 1, ts)) (acc @ [now'])"
proof -
  note inv = assms(1) [unfolded window_inv_def option.case prod.case]
  have "within t acc \<le> length (filter (\<lambda>a. ts \<le> a) acc) + length (filter (\<lambda>a. a < ts \<and> ts < a + IP_RATE_WINDOW) acc)"
    if "now' < t + IP_RATE_WINDOW" for t
    unfolding within_def using that inv assms(2) by (intro length_filter_cover) auto
  then have "within t (acc @ [now']) \<le> 2 * MAX_AUTH_ATTEMPTS_PER_IP - 1" for t
    using inv assms(4) by (cases "now' < t + IP_RATE_WINDOW") (force simp: within_snoc)+
  then show ?thesis using inv assms by (simp add: window_inv_def)
qed

lemma window_inv_step:
  assumes "window_inv now s acc" "now \<le> now'"
  shows "window_inv now' (snd (window_spec s now')) (if fst (window_spec s now') then acc @ [now'] else acc)"
proof (cases s)
  case None
  then show ?thesis using assms(1) by (simp add: window_inv_def within_def MAX_AUTH_ATTEMPTS_PER_IP_def)
next
  case (Some e)
  obtain n ts where e: "e = (n, ts)" by force
  then have ts: "ts \<le> now'" using assms Some by (simp add: window_inv_def)
  then have *: "IP_RATE_WINDOW \<le> now' - ts \<longleftrightarrow> ts + IP_RATE_WINDOW \<le> now'" by (simp add: le_diff_conv2 add.commute)
  consider "ts + IP_RATE_WINDOW \<le> now'" | "now' < ts + IP_RATE_WINDOW" "n < MAX_AUTH_ATTEMPTS_PER_IP"
    | "now' < ts + IP_RATE_WINDOW" "MAX_AUTH_ATTEMPTS_PER_IP \<le> n" by linarith
  then show ?thesis
  proof cases
    case 1
    then show ?thesis using window_inv_reset [of now n ts acc now'] assms(1) ts by (simp add: Some e *)
  next
    case 2
    then show ?thesis using window_inv_count [of now n ts acc now'] assms ts by (simp add: Some e *)
  next
    case 3
    then show ?thesis using assms ts by (simp add: Some e * window_inv_def)
  qed
qed

lemma window_run_bound:
  "window_inv now s acc \<Longrightarrow> sorted (now # ts) \<Longrightarrow>
     within t (acc @ admitted ts (fst (run_all window_spec s ts))) \<le> 2 * MAX_AUTH_ATTEMPTS_PER_IP - 1"
proof (induction ts arbitrary: now s acc)
  case Nil
  then show ?case by (simp add: window_inv_def admitted_def)
next
  case (Cons x ts)
  have "window_inv x (snd (window_spec s x)) (if fst (window_spec s x) then acc @ [x] else acc)"
    using window_inv_step Cons.prems by simp
  from Cons.IH [OF this] Cons.prems(2) show ?case
    by (simp add: run_all_Cons admitted_def split: if_splits del: run_all.simps(2))
qed

text \<open>C30: The limiter admits at most 19 attempts of one address in any period of 60 seconds, whatever the history.\<close>
theorem limiter_bound:
  assumes "sorted (map fst as)"
  shows "within t (admitted (own_times ip as) (own_answers ip as (fst (run_all check_and_record limiter_new as)))) \<le> 19"
proof -
  have "sorted (own_times ip as)" using assms unfolding own_times_def by (rule sorted_filter)
  then have "within t (admitted (own_times ip as) (fst (run_all window_spec None (own_times ip as)))) \<le> 2 * MAX_AUTH_ATTEMPTS_PER_IP - 1"
    using window_run_bound [of 0 None "[]" "own_times ip as" t] by (simp add: window_inv_def within_def)
  then show ?thesis
    using limiter_run_agrees [of limiter_new 0 ip None as] assms
    by (simp add: agrees_def limiter_new_def MAX_AUTH_ATTEMPTS_PER_IP_def)
qed

theorem limiter_refines_witness:
  "own_answers (1 :: nat) (map (\<lambda>i. (i, i mod 2)) [0..<6]) (fst (run_all check_and_record limiter_new (map (\<lambda>i. (i, i mod 2)) [0..<6]))) =
   fst (run_all window_spec None [1, 3, 5])"
  using limiter_refines [of "map (\<lambda>i. (i, i mod 2)) [0..<6]" "1 :: nat"] by (simp add: own_times_def upt_rec comp_def)

theorem limiter_bound_witness:
  "within 0 (admitted (own_times (1 :: nat) (map (\<lambda>i. (i, 1 :: nat)) [0..<30])) (own_answers 1 (map (\<lambda>i. (i, 1 :: nat)) [0..<30])
     (fst (run_all check_and_record limiter_new (map (\<lambda>i. (i, 1 :: nat)) [0..<30]))))) \<le> 19"
  by (rule limiter_bound) (simp add: comp_def)

text \<open>The bound is met: the window is not a sliding one.\<close>

lemma window_burst:
  "now - ts < IP_RATE_WINDOW \<Longrightarrow> n + k \<le> MAX_AUTH_ATTEMPTS_PER_IP \<Longrightarrow>
     run_all window_spec (Some (n, ts)) (replicate k now @ rest) =
       (replicate k True @ fst (run_all window_spec (Some (n + k, ts)) rest), snd (run_all window_spec (Some (n + k, ts)) rest))"
proof (induction k arbitrary: n)
  case (Suc k)
  then show ?case using Suc.IH [of "Suc n"] by (simp add: run_all_Cons del: run_all.simps(2))
qed simp

lemma limiter_bound_tight:
  "let ts = 0 # replicate 9 (IP_RATE_WINDOW - 1) @ IP_RATE_WINDOW # replicate 9 IP_RATE_WINDOW
   in within 1 (admitted ts (fst (run_all window_spec None ts))) = 19"
proof -
  have W: "1 < IP_RATE_WINDOW" by (simp add: IP_RATE_WINDOW_def)
  let ?l = "IP_RATE_WINDOW # replicate 9 IP_RATE_WINDOW"
  have "fst (run_all window_spec (Some (10, 0)) ?l) = True # replicate 9 True"
    using window_burst [of IP_RATE_WINDOW IP_RATE_WINDOW 1 9 "[]"]
    by (simp add: run_all_Cons MAX_AUTH_ATTEMPTS_PER_IP_def del: run_all.simps(2))
  then have "fst (run_all window_spec None (0 # replicate 9 (IP_RATE_WINDOW - 1) @ ?l)) = True # replicate 9 True @ True # replicate 9 True"
    using window_burst [of "IP_RATE_WINDOW - 1" 0 1 9 ?l]
    by (simp add: run_all_Cons MAX_AUTH_ATTEMPTS_PER_IP_def del: run_all.simps(2))
  then show ?thesis using W by (simp add: within_def admitted_def filter_replicate del: run_all.simps(2)) linarith
qed

section \<open>Permits\<close>

text \<open>At most four sessions run at a time, each with a permit of its own.\<close>

definition permits_inv :: "'ip admission \<Rightarrow> bool" where
  "permits_inv A \<longleftrightarrow> adm_permits A + adm_tasks A = MAX_CONCURRENT_HANDSHAKES"

lemma permits_inv_new: "permits_inv admission_new"
  by (simp add: permits_inv_def admission_new_def)

lemma permits_inv_spawn: "permits_inv A \<Longrightarrow> permits_inv (snd (spawn_session_task A conn))"
  by (auto simp: permits_inv_def spawn_session_task_def Let_def split: prod.splits)

lemma permits_inv_ended: "permits_inv A \<Longrightarrow> permits_inv (task_ended A)"
  by (auto simp: permits_inv_def task_ended_def)

lemmas permits_inv_steps [inv_intros] = permits_inv_new permits_inv_spawn permits_inv_ended

text \<open>A connection is turned away only by the limiter or because all four permits are taken.\<close>

lemma spawn_verdict:
  assumes "permits_inv A"
  shows "fst (spawn_session_task A conn) =
    (if \<not> fst (check_and_record (adm_limiter A) conn) then RateLimitExceeded
     else if adm_tasks A = MAX_CONCURRENT_HANDSHAKES then TooManyHandshakes else Admitted)"
  using assms by (auto simp: permits_inv_def spawn_session_task_def Let_def split: prod.splits)

end
