(* ===== verification/BW_Pinning.thy ===== *)
theory BW_Pinning
  imports BW_Identity
begin

text \<open>
  Certificate pinning (\<^verbatim>\<open>bw-transport/src/cert.rs\<close>): the extraction of the Ed25519 key from a certificate and the verifier that the client
  installs for a pinned server.  Certificates are byte strings; SHA-256 is the hash of the signature library.
\<close>

section \<open>Extraction of the key\<close>

text \<open>The errors, with the text of an error of the certificate generator.\<close>

datatype cert_error = Rcgen string | KeyParseError | InvalidPublicKey | IdentityMismatch string string

definition OID_ED25519 :: bytes where
  "OID_ED25519 = [0x06, 0x03, 0x2b, 0x65, 0x70]"

text \<open>The position of the first window that equals a pattern.\<close>

fun window_position :: "bytes \<Rightarrow> bytes \<Rightarrow> nat option" where
  "window_position pat [] = None"
| "window_position pat (x # xs) = (if take (length pat) (x # xs) = pat then Some 0 else map_option Suc (window_position pat xs))"

lemma length_OID [simp]: "length OID_ED25519 = 5"
  by (simp add: OID_ED25519_def)

function extract_from :: "bytes \<Rightarrow> nat \<Rightarrow> (bytes, cert_error) outcome" where
  "extract_from der oid_pos =
     (if oid_pos + 5 < length der then
        (case window_position OID_ED25519 (drop oid_pos der) of
           None \<Rightarrow> Err InvalidPublicKey
         | Some offset \<Rightarrow>
             let after_oid = oid_pos + offset + 5
             in if after_oid + 3 > length der then Err InvalidPublicKey
                else if der ! after_oid = 0x03 \<and> der ! (after_oid + 1) = 0x21 then
                  (if der ! (after_oid + 2) \<noteq> 0x00 then Err InvalidPublicKey
                   else if after_oid + 3 + 32 > length der then Err InvalidPublicKey
                   else Ok (slice_of (after_oid + 3) (after_oid + 3 + 32) der))
                else extract_from der after_oid)
      else Err InvalidPublicKey)"
  by pat_completeness auto
termination by (relation "measure (\<lambda>(der, oid_pos). length der - oid_pos)") auto

declare extract_from.simps [simp del]

definition extract_ed25519_spki_raw :: "bytes \<Rightarrow> (bytes, cert_error) outcome" where
  "extract_ed25519_spki_raw der = extract_from der 0"

section \<open>The pinning verifier\<close>

text \<open>The verifier answers in the error type of the TLS library.\<close>

datatype tls_error = General string

definition verify_server_cert :: "sig_lib \<Rightarrow> bytes \<Rightarrow> bytes \<Rightarrow> (unit, tls_error) outcome" where
  "verify_server_cert S expected_id der =
     obind (map_err (\<lambda>_. General ''invalid certificate public key'') (extract_ed25519_spki_raw der)) (\<lambda>key.
       let actual_id = sl_sha256 S key
       in if actual_id \<noteq> expected_id
          then Err (General (''server identity mismatch: expected '' @ device_id_display expected_id @ '', got '' @ device_id_display actual_id))
          else Ok ())"

definition verify_tls12_signature :: "bytes \<Rightarrow> bytes \<Rightarrow> bytes \<Rightarrow> (unit, tls_error) outcome" where
  "verify_tls12_signature message cert dss = Ok ()"

definition verify_tls13_signature :: "bytes \<Rightarrow> bytes \<Rightarrow> bytes \<Rightarrow> (unit, tls_error) outcome" where
  "verify_tls13_signature message cert dss = Ok ()"

text \<open>What the TLS client asks of its verifier in a handshake: the certificate, then the signature of the transcript.\<close>

definition pinned_handshake :: "sig_lib \<Rightarrow> bytes \<Rightarrow> bytes \<Rightarrow> bytes \<Rightarrow> bytes \<Rightarrow> (unit, tls_error) outcome" where
  "pinned_handshake S expected_id der transcript dss =
     obind (verify_server_cert S expected_id der) (\<lambda>_. verify_tls13_signature transcript der dss)"

section \<open>What pinning establishes\<close>

lemma window_position_Some:
  "window_position pat xs = Some i \<Longrightarrow> take (length pat) (drop i xs) = pat \<and> i < length xs"
  by (induction xs arbitrary: i) (auto split: if_splits)

lemma window_position_skip:
  "pat \<noteq> [] \<Longrightarrow> hd pat \<notin> set pre \<Longrightarrow> window_position pat (pre @ pat @ rest) = Some (length pre)"
proof (induction pre)
  case Nil
  then show ?case by (cases pat) simp_all
next
  case (Cons x pre)
  then show ?case by (cases pat) auto
qed

text \<open>The bytes that precede the key in an Ed25519 certificate.\<close>

definition spki_marker :: bytes where
  "spki_marker = OID_ED25519 @ [0x03, 0x21, 0x00]"

lemma extract_from_sound:
  "extract_from der pos = Ok key \<Longrightarrow> \<exists>pre rest. der = pre @ spki_marker @ key @ rest \<and> length key = 32"
proof (induction der pos rule: extract_from.induct)
  case (1 der pos)
  from "1.prems" obtain off where l: "pos + 5 < length der" and w: "window_position OID_ED25519 (drop pos der) = Some off"
    by (auto simp: extract_from.simps [of der pos] split: if_splits option.splits)
  define a where "a = pos + off"
  have oid: "take 5 (drop a der) = OID_ED25519"
    using window_position_Some [OF w] by (simp add: a_def add.commute)
  have room: "\<not> length der < a + 8"
    using "1.prems" l w by (auto simp: extract_from.simps [of der pos] Let_def a_def ac_simps split: if_splits)
  show ?case
  proof (cases "der ! (a + 5) = 3 \<and> der ! (a + 6) = 0x21")
    case True
    with "1.prems" l w have k: "der ! (a + 7) = 0" "a + 40 \<le> length der" "key = take 32 (drop (a + 8) der)"
      by (auto simp: extract_from.simps [of der pos] Let_def a_def slice_of_def ac_simps split: if_splits)
    have "drop (a + 5) der = der ! (a + 5) # der ! (a + 6) # der ! (a + 7) # drop (a + 8) der"
      using k(2) Cons_nth_drop_Suc [of "a + 5" der] Cons_nth_drop_Suc [of "a + 6" der] Cons_nth_drop_Suc [of "a + 7" der]
      by (simp add: numeral_eq_Suc)
    then have "drop a der = spki_marker @ key @ drop (a + 40) der"
      using True k append_take_drop_id [of 5 "drop a der"] append_take_drop_id [of 32 "drop (a + 8) der"] oid
      by (simp add: spki_marker_def add.commute)
    moreover have "der = take a der @ drop a der" by simp
    ultimately show ?thesis using k(2,3) by (intro exI [of _ "take a der"] exI [of _ "drop (a + 40) der"]) auto
  next
    case False
    have "extract_from der (a + 5) = Ok key"
      using "1.prems" l w False by (auto simp: extract_from.simps [of der pos] Let_def a_def ac_simps split: if_splits)
    with "1.IH" [OF l w] False room show ?thesis by (auto simp: a_def ac_simps)
  qed
qed

text \<open>A pinned handshake goes through only with a certificate that shows a key whose SHA-256 is the expected identity.\<close>

lemma pinned_handshake_sound:
  assumes "pinned_handshake S expected der transcript dss = Ok ()"
  shows "\<exists>pre key rest. der = pre @ spki_marker @ key @ rest \<and> length key = 32 \<and> sl_sha256 S key = expected"
  using assms extract_from_sound [of der 0]
  by (auto simp: pinned_handshake_def verify_server_cert_def extract_ed25519_spki_raw_def Let_def outcome_simps split: if_splits)

lemma extract_first:
  assumes "window_position OID_ED25519 der = Some n" "der ! (n + 5) = 3" "der ! (n + 6) = 0x21" "der ! (n + 7) = 0" "n + 40 \<le> length der"
  shows "extract_ed25519_spki_raw der = Ok (take 32 (drop (n + 8) der))"
  using assms by (simp add: extract_ed25519_spki_raw_def extract_from.simps [of der 0] Let_def slice_of_def ac_simps)

lemma extract_at:
  assumes "length key = 32" "6 \<notin> set pre"
  shows "extract_ed25519_spki_raw (pre @ spki_marker @ key @ rest) = Ok key"
proof -
  have "window_position OID_ED25519 (pre @ spki_marker @ key @ rest) = Some (length pre)"
    using window_position_skip [of OID_ED25519 pre "[0x03, 0x21, 0x00] @ key @ rest"] assms(2) by (simp add: spki_marker_def OID_ED25519_def)
  moreover have "(pre @ spki_marker @ key @ rest) ! (length pre + 5) = 3" "(pre @ spki_marker @ key @ rest) ! (length pre + 6) = 0x21"
    "(pre @ spki_marker @ key @ rest) ! (length pre + 7) = 0" "take 32 (drop (length pre + 8) (pre @ spki_marker @ key @ rest)) = key"
    "length (pre @ spki_marker @ key @ rest) = length pre + 40 + length rest"
    using assms(1) by (simp_all add: spki_marker_def OID_ED25519_def nth_append)
  ultimately show ?thesis using extract_first [of "pre @ spki_marker @ key @ rest" "length pre"] by simp
qed



end
