(* ===== verification/BW_Clipboard.thy ===== *)
theory BW_Clipboard
  imports BW_Message
begin

text \<open>
  Clipboard synchronization: the manager and the poller of \<^verbatim>\<open>bw-clipboard\<close>, the callback of the poller and the handler of clipboard messages in
  \<^verbatim>\<open>bw-server/src/lib.rs\<close>, which \<^verbatim>\<open>bw-client/src/main.rs\<close> repeats.  The clipboard library and the hash function of the poller are
  parameters.  Text is the bytes of its UTF-8 form.
\<close>

section \<open>Text and images\<close>

text \<open>What \<open>std::str::from_utf8\<close> accepts: no overlong forms, no surrogates, nothing above U+10FFFF.\<close>

definition utf8_cont :: "u8 \<Rightarrow> bool" where
  "utf8_cont b \<longleftrightarrow> 0x80 \<le> b \<and> b \<le> 0xBF"

definition utf8_second :: "u8 \<Rightarrow> u8 \<Rightarrow> bool" where
  "utf8_second a b \<longleftrightarrow>
     (if a = 0xE0 then 0xA0 \<le> b \<and> b \<le> 0xBF else if a = 0xED then 0x80 \<le> b \<and> b \<le> 0x9F
      else if a = 0xF0 then 0x90 \<le> b \<and> b \<le> 0xBF else if a = 0xF4 then 0x80 \<le> b \<and> b \<le> 0x8F else utf8_cont b)"

definition utf8_width :: "u8 \<Rightarrow> nat" where
  "utf8_width a =
     (if a < 0x80 then 1 else if 0xC2 \<le> a \<and> a \<le> 0xDF then 2 else if 0xE0 \<le> a \<and> a \<le> 0xEF then 3 else if 0xF0 \<le> a \<and> a \<le> 0xF4 then 4 else 0)"

function utf8_valid :: "bytes \<Rightarrow> bool" where
  "utf8_valid [] = True"
| "utf8_valid (a # bs) =
     (let w = utf8_width a
      in w > 0 \<and> w \<le> Suc (length bs) \<and> (w > 1 \<longrightarrow> utf8_second a (hd bs)) \<and> list_all utf8_cont (take (w - 2) (tl bs)) \<and> utf8_valid (drop (w - 1) bs))"
  by pat_completeness auto
termination by (relation "measure length") auto

record clipboard_image =
  img_width :: nat
  img_height :: nat
  img_bytes :: bytes

datatype clipboard_error = Unavailable string | ClipRead string | ClipWrite string | InvalidImage nat nat nat

definition dec_text :: "nat \<Rightarrow> string" where
  "dec_text n = map (\<lambda>b. char_of (unat b)) (dec_digits n)"

fun clipboard_error_display :: "clipboard_error \<Rightarrow> string" where
  "clipboard_error_display (Unavailable e) = ''clipboard is not available on this platform or environment: '' @ e"
| "clipboard_error_display (ClipRead e) = ''failed to read clipboard: '' @ e"
| "clipboard_error_display (ClipWrite e) = ''failed to write clipboard: '' @ e"
| "clipboard_error_display (InvalidImage w h n) =
     ''image dimensions ('' @ dec_text w @ ''x'' @ dec_text h @ '') do not match pixel data length '' @ dec_text n"

definition clipboard_image_new :: "nat \<Rightarrow> nat \<Rightarrow> bytes \<Rightarrow> (clipboard_image, clipboard_error) outcome" where
  "clipboard_image_new width height bs =
     obind (ok_or (Option.bind (checked_mul_usize width height) (\<lambda>area. checked_mul_usize area 4)) (InvalidImage width height (length bs)))
       (\<lambda>expected. if length bs \<noteq> expected then Err (InvalidImage width height (length bs))
         else Ok \<lparr>img_width = width, img_height = height, img_bytes = bs\<rparr>)"

section \<open>The manager\<close>

text \<open>The clipboard library, with the text of its errors on the left.\<close>

record 'c arboard =
  ab_get_text :: "'c \<Rightarrow> (string + bytes) \<times> 'c"
  ab_set_text :: "bytes \<Rightarrow> 'c \<Rightarrow> (string + unit) \<times> 'c"
  ab_get_image :: "'c \<Rightarrow> (string + clipboard_image) \<times> 'c"
  ab_set_image :: "clipboard_image \<Rightarrow> 'c \<Rightarrow> (string + unit) \<times> 'c"

definition from_lib :: "(string \<Rightarrow> clipboard_error) \<Rightarrow> (string + 'a) \<times> 'c \<Rightarrow> ('a, clipboard_error) outcome \<times> 'c" where
  "from_lib wrap = (\<lambda>(r, c). (case r of Inl e \<Rightarrow> Err (wrap e) | Inr x \<Rightarrow> Ok x, c))"

definition get_text :: "'c arboard \<Rightarrow> 'c \<Rightarrow> (bytes, clipboard_error) outcome \<times> 'c" where
  "get_text A c = from_lib ClipRead (ab_get_text A c)"

definition set_text :: "'c arboard \<Rightarrow> bytes \<Rightarrow> 'c \<Rightarrow> (unit, clipboard_error) outcome \<times> 'c" where
  "set_text A text c = from_lib ClipWrite (ab_set_text A text c)"

definition get_image :: "'c arboard \<Rightarrow> 'c \<Rightarrow> (clipboard_image, clipboard_error) outcome \<times> 'c" where
  "get_image A c = from_lib ClipRead (ab_get_image A c)"

definition set_image :: "'c arboard \<Rightarrow> clipboard_image \<Rightarrow> 'c \<Rightarrow> (unit, clipboard_error) outcome \<times> 'c" where
  "set_image A img c = from_lib ClipWrite (ab_set_image A img c)"

section \<open>The handler\<close>

text \<open>The manager is behind a mutex.  \<open>utf8_error\<close> is the text of an error of the UTF-8 check.\<close>

record 'c clip_state =
  clip_poisoned :: bool
  clip_manager :: 'c

definition written :: "(unit, clipboard_error) outcome \<times> 'c \<Rightarrow> (unit, dispatch_error) outcome \<times> 'c" where
  "written = (\<lambda>(r, c). (map_err (\<lambda>e. Handler (''clipboard write failed: '' @ clipboard_error_display e)) r, c))"

definition apply_clipboard_event :: "(bytes \<Rightarrow> string) \<Rightarrow> 'c arboard \<Rightarrow> clipboard_event \<Rightarrow> 'c \<Rightarrow> (unit, dispatch_error) outcome \<times> 'c" where
  "apply_clipboard_event utf8_error A event c =
     (case cb_format event of
        Text \<Rightarrow>
          if \<not> utf8_valid (cb_data event) then (Err (Handler (''invalid clipboard UTF-8: '' @ utf8_error (cb_data event))), c)
          else written (set_text A (cb_data event) c)
      | ImageRgba8 width height \<Rightarrow>
          (case map_err (\<lambda>e. Handler (''invalid clipboard image: '' @ clipboard_error_display e)) (clipboard_image_new width height (cb_data event)) of
             Err e \<Rightarrow> (Err e, c)
           | Panic \<Rightarrow> (Panic, c)
           | Ok img \<Rightarrow> written (set_image A img c)))"

definition clipboard_handler :: "clipboard_event cbor \<Rightarrow> (bytes \<Rightarrow> string) \<Rightarrow> 'c arboard \<Rightarrow> 'c clip_state message_handler" where
  "clipboard_handler cb utf8_error A e st =
     (case as_clipboard_event cb (env_message e) of
        None \<Rightarrow> (Err (Handler ''undecodable clipboard event payload''), st)
      | Some event \<Rightarrow>
          if clip_poisoned st then (Err (Handler ''clipboard lock poisoned: poisoned lock: another task failed inside''), st)
          else (case apply_clipboard_event utf8_error A event (clip_manager st) of (r, c) \<Rightarrow> (r, st\<lparr>clip_manager := c\<rparr>)))"

definition register_clipboard_handler :: "clipboard_event cbor \<Rightarrow> (bytes \<Rightarrow> string) \<Rightarrow> 'c arboard \<Rightarrow> 'c clip_state dispatcher \<Rightarrow> 'c clip_state dispatcher" where
  "register_clipboard_handler cb utf8_error A D = register_handler D ClipboardData (clipboard_handler cb utf8_error A)"

section \<open>The poller\<close>

record clipboard_change =
  cc_is_text :: bool
  cc_text :: "bytes option"
  cc_image_data :: "bytes option"
  cc_image_width :: "nat option"
  cc_image_height :: "nat option"

record poller_config =
  text_interval :: nat
  image_interval :: nat

definition default_intervals :: poller_config where
  "default_intervals = \<lparr>text_interval = 500, image_interval = 2000\<rparr>"

record poller_state =
  last_text_hash :: u64
  last_image_hash :: u64
  text_next :: nat
  image_next :: nat

definition poller_start :: "nat \<Rightarrow> poller_state" where
  "poller_start now = \<lparr>last_text_hash = 0, last_image_hash = 0, text_next = now, image_next = now\<rparr>"

definition text_change :: "bytes \<Rightarrow> clipboard_change" where
  "text_change text = \<lparr>cc_is_text = True, cc_text = Some text, cc_image_data = None, cc_image_width = None, cc_image_height = None\<rparr>"

definition image_change :: "clipboard_image \<Rightarrow> clipboard_change" where
  "image_change img = \<lparr>cc_is_text = False, cc_text = None, cc_image_data = Some (img_bytes img),
     cc_image_width = Some (img_width img), cc_image_height = Some (img_height img)\<rparr>"

definition check_text :: "'c arboard \<Rightarrow> (bytes \<Rightarrow> u64) \<Rightarrow> poller_config \<Rightarrow> nat \<Rightarrow> 'c \<times> poller_state \<Rightarrow> clipboard_change list \<times> 'c \<times> poller_state" where
  "check_text A hash cfg now = (\<lambda>(c, ps).
     if now \<ge> text_next ps then
       let ps1 = ps\<lparr>text_next := now + text_interval cfg\<rparr>
       in case get_text A c of
            (Ok text, c1) \<Rightarrow>
              (if hash text \<noteq> last_text_hash ps1
               then ([text_change text], c1, ps1\<lparr>last_text_hash := hash text, last_image_hash := 0\<rparr>)
               else ([], c1, ps1))
          | (_, c1) \<Rightarrow> ([], c1, ps1\<lparr>last_text_hash := 0\<rparr>)
     else ([], c, ps))"

definition check_image :: "'c arboard \<Rightarrow> (bytes \<Rightarrow> u64) \<Rightarrow> poller_config \<Rightarrow> nat \<Rightarrow> 'c \<times> poller_state \<Rightarrow> clipboard_change list \<times> 'c \<times> poller_state" where
  "check_image A hash cfg now = (\<lambda>(c, ps).
     if now \<ge> image_next ps then
       let ps1 = ps\<lparr>image_next := now + image_interval cfg\<rparr>
       in case get_image A c of
            (Ok img, c1) \<Rightarrow>
              (if hash (img_bytes img) \<noteq> last_image_hash ps1
               then ([image_change img], c1, ps1\<lparr>last_image_hash := hash (img_bytes img), last_text_hash := 0\<rparr>)
               else ([], c1, ps1))
          | (_, c1) \<Rightarrow> ([], c1, ps1\<lparr>last_image_hash := 0\<rparr>)
     else ([], c, ps))"

definition poll_round :: "'c arboard \<Rightarrow> (bytes \<Rightarrow> u64) \<Rightarrow> poller_config \<Rightarrow> nat \<Rightarrow> 'c \<times> poller_state \<Rightarrow> clipboard_change list \<times> 'c \<times> poller_state" where
  "poll_round A hash cfg now s =
     (case check_text A hash cfg now s of
        (xs, s1) \<Rightarrow> (case check_image A hash cfg now s1 of (ys, s2) \<Rightarrow> (xs @ ys, s2)))"

text \<open>The rounds of the loop, at the instants at which they read the clock, until the handle is dropped.\<close>

fun poll_run :: "'c arboard \<Rightarrow> (bytes \<Rightarrow> u64) \<Rightarrow> poller_config \<Rightarrow> nat list \<Rightarrow> 'c \<times> poller_state \<Rightarrow> clipboard_change list" where
  "poll_run A hash cfg [] s = []"
| "poll_run A hash cfg (now # nows) s = (case poll_round A hash cfg now s of (xs, s') \<Rightarrow> xs @ poll_run A hash cfg nows s')"

definition or_default :: "'a list option \<Rightarrow> 'a list" where
  "or_default x = (case x of Some y \<Rightarrow> y | None \<Rightarrow> [])"

definition change_event :: "clipboard_change \<Rightarrow> clipboard_event" where
  "change_event change =
     \<lparr>cb_format = (if cc_is_text change then Text
        else ImageRgba8 (case cc_image_width change of Some w \<Rightarrow> w | None \<Rightarrow> 0) (case cc_image_height change of Some h \<Rightarrow> h | None \<Rightarrow> 0)),
      cb_data = (if cc_is_text change then or_default (cc_text change) else or_default (cc_image_data change))\<rparr>"

definition change_message :: "clipboard_event cbor \<Rightarrow> clipboard_change \<Rightarrow> (protocol_message, protocol_error) outcome" where
  "change_message cb change = clipboard_event_msg cb (change_event change)"

section \<open>What is copied arrives\<close>

text \<open>The documented behaviour of a clipboard: reading does not change it and yields text as a string and images with four bytes per pixel; what is written can be read.\<close>

definition image_ok :: "clipboard_image \<Rightarrow> bool" where
  "image_ok img \<longleftrightarrow> length (img_bytes img) = img_width img * img_height img * 4"

definition clipboard_reads :: "'c arboard \<Rightarrow> bool" where
  "clipboard_reads A \<longleftrightarrow> (\<forall>c. snd (ab_get_text A c) = c \<and> snd (ab_get_image A c) = c \<and>
     (\<forall>text. fst (ab_get_text A c) = Inr text \<longrightarrow> utf8_valid text) \<and> (\<forall>img. fst (ab_get_image A c) = Inr img \<longrightarrow> image_ok img))"

definition clipboard_writes :: "'c arboard \<Rightarrow> bool" where
  "clipboard_writes A \<longleftrightarrow>
     (\<forall>text c. utf8_valid text \<longrightarrow> (\<exists>c'. ab_set_text A text c = (Inr (), c') \<and> fst (ab_get_text A c') = Inr text)) \<and>
     (\<forall>img c. image_ok img \<longrightarrow> (\<exists>c'. ab_set_image A img c = (Inr (), c') \<and> fst (ab_get_image A c') = Inr img))"

lemma check_text_reports:
  assumes "clipboard_reads A" "check_text A hash cfg now (c, ps) = (xs, c', ps')"
  shows "c' = c \<and> (\<forall>x \<in> set xs. \<exists>text. fst (ab_get_text A c) = Inr text \<and> utf8_valid text \<and> x = text_change text)"
proof -
  obtain r where r: "ab_get_text A c = (r, c)" "\<And>text. r = Inr text \<Longrightarrow> utf8_valid text"
    using assms(1) by (metis clipboard_reads_def prod.collapse)
  show ?thesis using assms(2) r(2)
    by (cases r) (auto simp: check_text_def get_text_def from_lib_def r(1) Let_def split: if_splits)
qed

lemma check_image_reports:
  assumes "clipboard_reads A" "check_image A hash cfg now (c, ps) = (xs, c', ps')"
  shows "c' = c \<and> (\<forall>x \<in> set xs. \<exists>img. fst (ab_get_image A c) = Inr img \<and> image_ok img \<and> x = image_change img)"
proof -
  obtain r where r: "ab_get_image A c = (r, c)" "\<And>img. r = Inr img \<Longrightarrow> image_ok img"
    using assms(1) by (metis clipboard_reads_def prod.collapse)
  show ?thesis using assms(2) r(2)
    by (cases r) (auto simp: check_image_def get_image_def from_lib_def r(1) Let_def split: if_splits)
qed

lemma poll_round_reports:
  assumes "clipboard_reads A" "poll_round A hash cfg now (c, ps) = (xs, c', ps')" "x \<in> set xs"
  shows "(\<exists>text. fst (ab_get_text A c) = Inr text \<and> utf8_valid text \<and> x = text_change text) \<or>
    (\<exists>img. fst (ab_get_image A c) = Inr img \<and> image_ok img \<and> x = image_change img)"
proof -
  obtain xs1 c1 ps1 where t: "check_text A hash cfg now (c, ps) = (xs1, c1, ps1)" by (metis prod_cases3)
  obtain ys c2 ps2 where i: "check_image A hash cfg now (c1, ps1) = (ys, c2, ps2)" by (metis prod_cases3)
  have "xs = xs1 @ ys" using assms(2) t i by (simp add: poll_round_def)
  then show ?thesis using check_text_reports [OF assms(1) t] check_image_reports [OF assms(1) i] assms(3) by auto
qed

lemma image_new_ok: "clip_sized (ImageRgba8 w h) (length bs) \<Longrightarrow> clipboard_image_new w h bs = Ok \<lparr>img_width = w, img_height = h, img_bytes = bs\<rparr>"
  using image_no_overflow [of w h] by (simp add: clipboard_image_new_def)

text \<open>C21: What is copied on one side can be pasted on the other.  Whatever change the poller reports is what the clipboard of its side holds, and when
  the event is within the size limits, its message makes the handler of the other side, unless its lock is poisoned, succeed and place exactly this
  text or image on the clipboard there.\<close>
theorem clipboard_arrives:
  assumes "clipboard_reads A" "clipboard_writes B" "cbor_contract cb"
    and "poll_round A hash cfg now (c, ps) = (changes, c', ps')" "change \<in> set changes" "change_message cb change = Ok m"
    and "clip_sized (cb_format (change_event change)) (length (cb_data (change_event change)))"
    and "env_message e = m" "env_validate e = Ok ()" "\<not> clip_poisoned st"
    and "dispatch (register_clipboard_handler cb utf8_error B D) e st = (r, st')"
  shows "r = Ok () \<and>
    ((\<exists>text. change = text_change text \<and> fst (ab_get_text A c) = Inr text \<and> fst (ab_get_text B (clip_manager st')) = Inr text) \<or>
     (\<exists>img. change = image_change img \<and> fst (ab_get_image A c) = Inr img \<and> fst (ab_get_image B (clip_manager st')) = Inr img))"
proof -
  have m: "msg_type m = ClipboardData" "from_reader cb (msg_payload m) = Some (change_event change)"
    using assms(3,6) cbor_contractD by (fastforce simp: change_message_def clipboard_event_msg_def outcome_simps)+
  then have ev: "as_clipboard_event cb m = Some (change_event change)" using assms(7) by (simp add: as_clipboard_event_eq)
  have d: "dispatch (register_clipboard_handler cb utf8_error B D) e st = clipboard_handler cb utf8_error B e st"
    using assms(8,9) m by (simp add: dispatch_def register_clipboard_handler_def register_handler_def)
  from poll_round_reports [OF assms(1,4,5)] show ?thesis
  proof (elim disjE exE conjE)
    fix tx assume t: "fst (ab_get_text A c) = Inr tx" "utf8_valid tx" "change = text_change tx"
    then obtain c1 where w: "ab_set_text B tx (clip_manager st) = (Inr (), c1)" "fst (ab_get_text B c1) = Inr tx"
      using assms(2) unfolding clipboard_writes_def by blast
    have "clipboard_handler cb utf8_error B e st = (Ok (), st\<lparr>clip_manager := c1\<rparr>)"
      using ev assms(8,10) t(2,3) w(1)
      by (simp add: clipboard_handler_def apply_clipboard_event_def change_event_def text_change_def or_default_def set_text_def from_lib_def written_def)
    then show ?thesis using assms(11) d t w(2) by auto
  next
    fix img assume i: "fst (ab_get_image A c) = Inr img" "image_ok img" "change = image_change img"
    then obtain c1 where w: "ab_set_image B img (clip_manager st) = (Inr (), c1)" "fst (ab_get_image B c1) = Inr img"
      using assms(2) unfolding clipboard_writes_def by blast
    have "clipboard_image_new (img_width img) (img_height img) (img_bytes img) = Ok img"
      using image_new_ok [of "img_width img" "img_height img" "img_bytes img"] assms(7) i(3)
      by (simp add: change_event_def image_change_def or_default_def)
    then have "clipboard_handler cb utf8_error B e st = (Ok (), st\<lparr>clip_manager := c1\<rparr>)"
      using ev assms(8,10) i(3) w(1)
      by (simp add: clipboard_handler_def apply_clipboard_event_def change_event_def image_change_def or_default_def set_image_def from_lib_def written_def)
    then show ?thesis using assms(11) d i w(2) by auto
  qed
qed

section \<open>Repeated reports\<close>

text \<open>A clipboard with text alone is reported once.\<close>

lemma poller_quiet:
  assumes "ab_get_text A c = (Inr text, c)" "ab_get_image A c = (Inl why, c)" "last_text_hash ps = hash text"
  shows "poll_run A hash cfg nows (c, ps) = []"
  using assms(3)
proof (induction nows arbitrary: ps)
  case (Cons now nows)
  then show ?case using assms(1,2)
    by (auto simp: poll_round_def check_text_def check_image_def get_text_def get_image_def from_lib_def Let_def)
qed simp


section \<open>A concrete clipboard\<close>

definition demo_board :: "(bytes option \<times> clipboard_image option) arboard" where
  "demo_board = \<lparr>
     ab_get_text = (\<lambda>c. (case fst c of Some t \<Rightarrow> if utf8_valid t then Inr t else Inl ''empty'' | None \<Rightarrow> Inl ''empty'', c)),
     ab_set_text = (\<lambda>t c. (Inr (), (Some t, None))),
     ab_get_image = (\<lambda>c. (case snd c of Some i \<Rightarrow> if image_ok i then Inr i else Inl ''empty'' | None \<Rightarrow> Inl ''empty'', c)),
     ab_set_image = (\<lambda>i c. (Inr (), (None, Some i)))\<rparr>"

lemma demo_board_contract: "clipboard_reads demo_board" "clipboard_writes demo_board"
  by (auto simp: clipboard_reads_def clipboard_writes_def demo_board_def split: option.splits if_splits)

definition demo_clip_cbor :: "clipboard_event cbor" where
  "demo_clip_cbor = single_cbor (change_event (text_change [104, 105]))"

definition demo_clip_envelope :: message_envelope where
  "demo_clip_envelope = \<lparr>env_source = [1], env_destination = [2], env_session_id = SessionId [3], env_route = Direct,
     env_message = \<lparr>msg_type = ClipboardData, msg_id = 0, msg_flags = 0, msg_payload = [1]\<rparr>, env_routing_flags = 0\<rparr>"

lemma demo_text_valid: "utf8_valid [104, 105]"
  by (simp add: utf8_width_def)

theorem clipboard_arrives_witness:
  "\<exists>c' ps' st'. poll_round demo_board (\<lambda>_. 7) default_intervals 0 ((Some [104, 105], None), poller_start 0) = ([text_change [104, 105]], c', ps') \<and>
     dispatch (register_clipboard_handler demo_clip_cbor (\<lambda>_. []) demo_board dispatcher_new) demo_clip_envelope
       \<lparr>clip_poisoned = False, clip_manager = (None, None)\<rparr> = (Ok (), st') \<and>
     fst (ab_get_text demo_board (clip_manager st')) = Inr [104, 105]"
proof -
  let ?c = "(Some [104, 105], None)" and ?st = "\<lparr>clip_poisoned = False, clip_manager = (None, None)\<rparr>"
  have g: "ab_get_text demo_board ?c = (Inr [104, 105], ?c)" "ab_get_image demo_board ?c = (Inl ''empty'', ?c)"
    by (simp_all add: demo_board_def utf8_width_def)
  then obtain c' ps' where p: "poll_round demo_board (\<lambda>_. 7) default_intervals 0 (?c, poller_start 0) = ([text_change [104, 105]], c', ps')"
    by (simp add: poll_round_def check_text_def check_image_def poller_start_def get_text_def get_image_def from_lib_def Let_def)
  obtain r st' where d: "dispatch (register_clipboard_handler demo_clip_cbor (\<lambda>_. []) demo_board dispatcher_new) demo_clip_envelope ?st = (r, st')" by fastforce
  have m: "change_message demo_clip_cbor (text_change [104, 105]) = Ok (env_message demo_clip_envelope)"
    by (simp add: change_message_def clipboard_event_msg_def demo_clip_cbor_def single_cbor_def demo_clip_envelope_def)
  have v: "env_validate demo_clip_envelope = Ok ()"
    by (simp add: env_validate_def msg_validate_def demo_clip_envelope_def is_broadcast_def numeral_eq_Suc)
  have "cbor_contract demo_clip_cbor" by (simp add: demo_clip_cbor_def)
  note A = clipboard_arrives [OF demo_board_contract(1,2) this p _ m _ refl v _ d]
  have "r = Ok ()" "fst (ab_get_text demo_board (clip_manager st')) = Inr [104, 105]"
    using A g by (auto simp: change_event_def text_change_def image_change_def or_default_def)
  then show ?thesis using p d by blast
qed


end
