(* ===== verification/BW_Video.thy ===== *)
theory BW_Video
  imports BW_Prelude
begin

text \<open>
  Pixels and frames: the wire format of encoded frames (\<^verbatim>\<open>bw-encoder/src/lib.rs\<close>), the dirty rectangles of a captured
  frame (\<^verbatim>\<open>bw-capture/src/frame.rs\<close>) and the cursor overlay (\<open>composite_cursor\<close> of \<^verbatim>\<open>bw-server/src/lib.rs\<close>).
\<close>

section \<open>Encoded frames\<close>

datatype frame_type = IFrame | PFrame | UnknownFrame

datatype video_codec = H264 | UnknownCodec

record encoded_frame =
  ef_session_id :: u64
  ef_sequence :: u64
  ef_timestamp_us :: u64
  ef_frame_type :: frame_type
  ef_width :: u32
  ef_height :: u32
  ef_codec :: video_codec
  ef_payload :: bytes

fun frame_type_byte :: "frame_type \<Rightarrow> u8" where
  "frame_type_byte IFrame = 1"
| "frame_type_byte PFrame = 2"
| "frame_type_byte UnknownFrame = 0"

fun codec_byte :: "video_codec \<Rightarrow> u8" where
  "codec_byte H264 = 1"
| "codec_byte UnknownCodec = 0"

definition frame_type_of :: "u8 \<Rightarrow> frame_type" where
  "frame_type_of b = (if b = 1 then IFrame else if b = 2 then PFrame else UnknownFrame)"

definition codec_of :: "u8 \<Rightarrow> video_codec" where
  "codec_of b = (if b = 1 then H264 else UnknownCodec)"

definition ef_to_bytes :: "encoded_frame \<Rightarrow> bytes" where
  "ef_to_bytes f =
     to_be_bytes 8 (ef_session_id f) @ to_be_bytes 8 (ef_sequence f) @ to_be_bytes 8 (ef_timestamp_us f) @
     [frame_type_byte (ef_frame_type f)] @ to_be_bytes 4 (ef_width f) @ to_be_bytes 4 (ef_height f) @
     [codec_byte (ef_codec f)] @ to_be_bytes 4 (of_nat (length (ef_payload f)) :: u32) @ ef_payload f"

definition nal_start :: "bytes \<Rightarrow> bool" where
  "nal_start p \<longleftrightarrow> p ! 0 = 0 \<and> p ! 1 = 0 \<and> ((p ! 2 = 0 \<and> p ! 3 = 1) \<or> p ! 2 = 1)"

definition ef_from_bytes :: "bytes \<Rightarrow> (encoded_frame, string) outcome" where
  "ef_from_bytes data =
     (if length data < 42 then Err ''Payload too short to contain header''
      else let codec = codec_of (data ! 33);
               payload_len = unat (from_be_bytes (slice_of 34 38 data) :: u32)
           in if codec = UnknownCodec then Err ''Unknown codec rejected''
              else if length data < 38 + payload_len then Err ''Truncated payload''
              else if length data > 38 + payload_len then Err ''Trailing garbage in payload''
              else if payload_len > 4 \<and> \<not> nal_start (drop 38 data) then Err ''Malformed H.264 NAL unit''
              else Ok \<lparr>ef_session_id = from_be_bytes (slice_of 0 8 data), ef_sequence = from_be_bytes (slice_of 8 16 data),
                ef_timestamp_us = from_be_bytes (slice_of 16 24 data), ef_frame_type = frame_type_of (data ! 24),
                ef_width = from_be_bytes (slice_of 25 29 data), ef_height = from_be_bytes (slice_of 29 33 data), ef_codec = codec,
                ef_payload = slice_of 38 (38 + payload_len) data\<rparr>)"

section \<open>Dirty rectangles\<close>

record dirty_rect =
  dr_x :: u32
  dr_y :: u32
  dr_width :: u32
  dr_height :: u32

definition dr_is_non_empty :: "dirty_rect \<Rightarrow> bool" where
  "dr_is_non_empty r \<longleftrightarrow> dr_width r > 0 \<and> dr_height r > 0"

definition dr_contains :: "dirty_rect \<Rightarrow> dirty_rect \<Rightarrow> bool" where
  "dr_contains r s \<longleftrightarrow> dr_x s \<ge> dr_x r \<and> dr_y s \<ge> dr_y r \<and> dr_x s + dr_width s \<le> dr_x r + dr_width r \<and>
     dr_y s + dr_height s \<le> dr_y r + dr_height r"

definition dr_union :: "dirty_rect \<Rightarrow> dirty_rect \<Rightarrow> dirty_rect" where
  "dr_union r s =
     (let x = min (dr_x r) (dr_x s); y = min (dr_y r) (dr_y s);
          right = max (dr_x r + dr_width r) (dr_x s + dr_width s); bottom = max (dr_y r + dr_height r) (dr_y s + dr_height s)
      in \<lparr>dr_x = x, dr_y = y, dr_width = right - x, dr_height = bottom - y\<rparr>)"

definition rects_overlap :: "dirty_rect \<Rightarrow> dirty_rect \<Rightarrow> bool" where
  "rects_overlap a b \<longleftrightarrow> dr_x a < dr_x b + dr_width b \<and> dr_x a + dr_width a > dr_x b \<and>
     dr_y a < dr_y b + dr_height b \<and> dr_y a + dr_height a > dr_y b"

fun absorb_rect :: "dirty_rect \<Rightarrow> dirty_rect list \<Rightarrow> dirty_rect list" where
  "absorb_rect r [] = [r]"
| "absorb_rect r (e # es) = (if rects_overlap e r then dr_union e r # es else e # absorb_rect r es)"

definition merge_dirty_rects :: "dirty_rect list \<Rightarrow> dirty_rect list" where
  "merge_dirty_rects rects = foldl (\<lambda>merged r. absorb_rect r merged) [] rects"

section \<open>The cursor overlay\<close>

definition clamp_i32 :: "32 word \<Rightarrow> 32 word \<Rightarrow> 32 word \<Rightarrow> (32 word, 'e) outcome" where
  "clamp_i32 x lo hi = (if sint lo > sint hi then Panic else Ok (if sint x < sint lo then lo else if sint x > sint hi then hi else x))"

definition xor_bgra_pixel :: "u32 \<Rightarrow> u32 \<Rightarrow> u32 \<Rightarrow> bytes \<Rightarrow> u32 \<times> u32 \<Rightarrow> bytes" where
  "xor_bgra_pixel stride width height buffer = (\<lambda>(x, y).
     if x \<ge> width \<or> y \<ge> height then buffer
     else let offset = unat (y * stride + x * 4) in
          if offset + 3 < length buffer
          then buffer[offset := buffer ! offset XOR 0xFF, offset + 1 := buffer ! (offset + 1) XOR 0xFF, offset + 2 := buffer ! (offset + 2) XOR 0xFF]
          else buffer)"

definition crosshair :: "u32 \<Rightarrow> u32 \<Rightarrow> u32 \<Rightarrow> u32 \<Rightarrow> (u32 \<times> u32) list" where
  "crosshair width height cx cy =
     concat (map (\<lambda>i. (if cx \<ge> i then [(cx - i, cy)] else []) @ (if cx + i < width then [(cx + i, cy)] else [])) [1, 2, 3, 4, 5, 6]) @
     concat (map (\<lambda>i. (if cy \<ge> i then [(cx, cy - i)] else []) @ (if cy + i < height then [(cx, cy + i)] else [])) [1, 2, 3, 4, 5, 6]) @
     [(cx, cy)]"

definition composite_cursor :: "bytes \<Rightarrow> u32 \<Rightarrow> u32 \<Rightarrow> u32 \<Rightarrow> 32 word \<Rightarrow> 32 word \<Rightarrow> bool \<Rightarrow> (bytes, 'e) outcome" where
  "composite_cursor buffer stride width height cursor_x cursor_y cursor_visible =
     (if \<not> cursor_visible \<or> buffer = [] then Ok buffer
      else obind (clamp_i32 cursor_x 0 (width - 1)) (\<lambda>cx.
           obind (clamp_i32 cursor_y 0 (height - 1)) (\<lambda>cy.
           Ok (foldl (xor_bgra_pixel stride width height) buffer (crosshair width height cx cy)))))"

section \<open>The wire format is exact\<close>

definition ef_image :: "encoded_frame \<Rightarrow> u8 \<Rightarrow> bytes" where
  "ef_image f b =
     to_be_bytes 8 (ef_session_id f) @ to_be_bytes 8 (ef_sequence f) @ to_be_bytes 8 (ef_timestamp_us f) @
     [b] @ to_be_bytes 4 (ef_width f) @ to_be_bytes 4 (ef_height f) @
     [codec_byte (ef_codec f)] @ to_be_bytes 4 (of_nat (length (ef_payload f)) :: u32) @ ef_payload f"

lemma ef_image_update: "(ef_to_bytes f)[24 := b] = ef_image f b"
  by (simp add: ef_to_bytes_def ef_image_def list_update_append numeral_eq_Suc)

lemma slice_snoc: "i < length d \<Longrightarrow> slice_of i (Suc i) d = [d ! i]"
  by (simp add: slice_of_def take_Suc_conv_app_nth)

lemma ef_split:
  assumes "38 \<le> length d"
  shows "d = slice_of 0 8 d @ slice_of 8 16 d @ slice_of 16 24 d @ [d ! 24] @ slice_of 25 29 d @ slice_of 29 33 d @ [d ! 33] @
    slice_of 34 38 d @ drop 38 d"
proof -
  have "slice_of 24 25 d = [d ! 24]" "slice_of 33 34 d = [d ! 33]"
    using slice_snoc [of 24 d] slice_snoc [of 33 d] assms by simp_all
  moreover have "drop 38 d = slice_of 38 (length d) d" by (simp add: slice_of_def)
  moreover have "d = slice_of 0 8 d @ slice_of 8 16 d @ slice_of 16 24 d @ slice_of 24 25 d @ slice_of 25 29 d @ slice_of 29 33 d @
      slice_of 33 34 d @ slice_of 34 38 d @ slice_of 38 (length d) d"
    using assms by (simp add: slice_of_append slice_of_append2 slice_of_full)
  ultimately show ?thesis by simp
qed

lemma ef_from_image:
  assumes "ef_codec f = H264" "4 \<le> length (ef_payload f)" "length (ef_payload f) < 2 ^ 32"
    "length (ef_payload f) = 4 \<or> nal_start (ef_payload f)" "frame_type_of b = ef_frame_type f"
  shows "ef_from_bytes (ef_image f b) = Ok f"
proof -
  let ?d = "ef_image f b"
  have "length ?d = 38 + length (ef_payload f)" "?d ! 24 = b" "?d ! 33 = 1" "drop 38 ?d = ef_payload f"
    "slice_of 0 8 ?d = to_be_bytes 8 (ef_session_id f)" "slice_of 8 16 ?d = to_be_bytes 8 (ef_sequence f)"
    "slice_of 16 24 ?d = to_be_bytes 8 (ef_timestamp_us f)" "slice_of 25 29 ?d = to_be_bytes 4 (ef_width f)"
    "slice_of 29 33 ?d = to_be_bytes 4 (ef_height f)" "slice_of 34 38 ?d = to_be_bytes 4 (of_nat (length (ef_payload f)) :: u32)"
    "slice_of 38 (38 + length (ef_payload f)) ?d = ef_payload f"
    using assms(1) by (simp_all add: ef_image_def slice_of_def nth_append)
  moreover have "unat (of_nat (length (ef_payload f)) :: u32) = length (ef_payload f)"
    using assms(3) by (simp add: unat_of_nat take_bit_nat_eq_self)
  ultimately show ?thesis
    using assms by (simp add: ef_from_bytes_def Let_def from_to_be_bytes codec_of_def)
qed

lemma codec_of_iff [simp]: "codec_of b = UnknownCodec \<longleftrightarrow> b \<noteq> 1" "codec_of b = H264 \<longleftrightarrow> b = 1"
  by (simp_all add: codec_of_def)

lemma ef_from_bytes_OkD:
  assumes "ef_from_bytes d = Ok f"
  defines "n \<equiv> unat (from_be_bytes (slice_of 34 38 d) :: u32)"
  shows "42 \<le> length d" "length d = 38 + n" "d ! 33 = 1" "n \<le> 4 \<or> nal_start (drop 38 d)"
    "f = \<lparr>ef_session_id = from_be_bytes (slice_of 0 8 d), ef_sequence = from_be_bytes (slice_of 8 16 d),
          ef_timestamp_us = from_be_bytes (slice_of 16 24 d), ef_frame_type = frame_type_of (d ! 24),
          ef_width = from_be_bytes (slice_of 25 29 d), ef_height = from_be_bytes (slice_of 29 33 d), ef_codec = codec_of (d ! 33),
          ef_payload = slice_of 38 (38 + n) d\<rparr>"
proof -
  note ef = assms(1) [unfolded ef_from_bytes_def Let_def, folded n_def]
  show l: "42 \<le> length d" using ef by (rule contrapos_pp) simp
  show c: "d ! 33 = 1" using ef by (rule contrapos_pp) (use l in simp)
  show m: "length d = 38 + n" using ef by (rule contrapos_pp) (use l c in auto)
  show p: "n \<le> 4 \<or> nal_start (drop 38 d)" using ef by (rule contrapos_pp) (use l c m in simp)
  show "f = \<lparr>ef_session_id = from_be_bytes (slice_of 0 8 d), ef_sequence = from_be_bytes (slice_of 8 16 d),
          ef_timestamp_us = from_be_bytes (slice_of 16 24 d), ef_frame_type = frame_type_of (d ! 24),
          ef_width = from_be_bytes (slice_of 25 29 d), ef_height = from_be_bytes (slice_of 29 33 d), ef_codec = codec_of (d ! 33),
          ef_payload = slice_of 38 (38 + n) d\<rparr>"
    using ef l c m p by (simp split: if_splits)
qed

lemma slice_of_rest: "length d = i + n \<Longrightarrow> slice_of i (i + n) d = drop i d"
  by (simp add: slice_of_def)

lemma ef_payload_from: "ef_from_bytes d = Ok f \<Longrightarrow> ef_payload f = drop 38 d"
  using slice_of_rest [OF ef_from_bytes_OkD(2)] ef_from_bytes_OkD(5) [of d f] by simp

lemma ef_image_from:
  assumes "ef_from_bytes d = Ok f"
  shows "d = ef_image f (d ! 24)"
proof -
  let ?n = "from_be_bytes (slice_of 34 38 d) :: u32"
  note l = ef_from_bytes_OkD(1,2) [OF assms] and c = ef_from_bytes_OkD(3) [OF assms] and f = ef_from_bytes_OkD(5) [OF assms]
  note p = ef_payload_from [OF assms]
  have n: "of_nat (length (drop 38 d)) = ?n" unfolding length_drop l(2) by simp
  have "to_be_bytes 8 (ef_session_id f) = slice_of 0 8 d" "to_be_bytes 8 (ef_sequence f) = slice_of 8 16 d"
    "to_be_bytes 8 (ef_timestamp_us f) = slice_of 16 24 d" "to_be_bytes 4 (ef_width f) = slice_of 25 29 d"
    "to_be_bytes 4 (ef_height f) = slice_of 29 33 d" "to_be_bytes 4 ?n = slice_of 34 38 d" "codec_byte (ef_codec f) = d ! 33"
    unfolding f using l(1) c by (simp_all add: to_from_be_bytes codec_of_def)
  then have "ef_image f (d ! 24) = slice_of 0 8 d @ slice_of 8 16 d @ slice_of 16 24 d @ [d ! 24] @ slice_of 25 29 d @
      slice_of 29 33 d @ [d ! 33] @ slice_of 34 38 d @ drop 38 d"
    unfolding ef_image_def p n by (simp only:)
  also have "\<dots> = d" using ef_split [of d] l(1) by simp
  finally show ?thesis ..
qed

text \<open>C34: The decoder of video frames is exact.  A buffer decodes to a frame if and only if it is the encoding of that frame, up to the
  byte of the frame type, where every byte but 1 and 2 stands for an unknown type, and the frame has the codec H.264, a payload of at
  least 4 and less than \<open>2^32\<close> bytes and, when it has more than 4, a NAL start code in front.\<close>
theorem encoded_frame_iff:
  "ef_from_bytes d = Ok f \<longleftrightarrow> ef_codec f = H264 \<and> 4 \<le> length (ef_payload f) \<and> length (ef_payload f) < 2 ^ 32 \<and>
     (length (ef_payload f) = 4 \<or> nal_start (ef_payload f)) \<and> (\<exists>b. frame_type_of b = ef_frame_type f \<and> d = (ef_to_bytes f)[24 := b])"
  (is "?l = ?r")
proof
  assume l: ?l
  note D = ef_from_bytes_OkD [OF l]
  note p = ef_payload_from [OF l]
  have "ef_codec f = H264" "ef_frame_type f = frame_type_of (d ! 24)"
    using D(3) by (simp_all add: D(5))
  moreover have "4 \<le> length (ef_payload f)" "length (ef_payload f) < 2 ^ 32" "length (ef_payload f) = 4 \<or> nal_start (ef_payload f)"
    using D(1,2,4) unat_bound [of "from_be_bytes (slice_of 34 38 d) :: u32"] unfolding p length_drop by auto
  ultimately show ?r using ef_image_from [OF l] by (auto simp: ef_image_update)
qed (auto simp: ef_image_update intro: ef_from_image)

section \<open>Merged rectangles cover the dirty ones\<close>

definition dr_ok :: "dirty_rect \<Rightarrow> bool" where
  "dr_ok r \<longleftrightarrow> unat (dr_x r) + unat (dr_width r) < 2 ^ 32 \<and> unat (dr_y r) + unat (dr_height r) < 2 ^ 32"

definition pixels :: "dirty_rect \<Rightarrow> (nat \<times> nat) set" where
  "pixels r = {unat (dr_x r) ..< unat (dr_x r) + unat (dr_width r)} \<times> {unat (dr_y r) ..< unat (dr_y r) + unat (dr_height r)}"

lemma unat_add_ok: "unat (a :: u32) + unat b < 2 ^ 32 \<Longrightarrow> unat (a + b) = unat a + unat b"
  using unat_add_lem [of a b] by simp

lemma unat_max: "unat (max (a :: u32) b) = max (unat a) (unat b)" and unat_min: "unat (min (a :: u32) b) = min (unat a) (unat b)"
  by (simp_all add: max_def min_def word_le_nat_alt)

lemma dr_union_fields:
  assumes "dr_ok r" "dr_ok s"
  shows "unat (dr_x (dr_union r s)) = min (unat (dr_x r)) (unat (dr_x s))"
    "unat (dr_y (dr_union r s)) = min (unat (dr_y r)) (unat (dr_y s))"
    "unat (dr_x (dr_union r s)) + unat (dr_width (dr_union r s)) = max (unat (dr_x r) + unat (dr_width r)) (unat (dr_x s) + unat (dr_width s))"
    "unat (dr_y (dr_union r s)) + unat (dr_height (dr_union r s)) = max (unat (dr_y r) + unat (dr_height r)) (unat (dr_y s) + unat (dr_height s))"
proof -
  have le: "min (a :: u32) b \<le> max (a + w) (b + v)" if "unat a + unat w < 2 ^ 32" "unat b + unat v < 2 ^ 32" for a b w v
    using that by (simp add: word_le_nat_alt unat_max unat_min unat_add_ok)
  show "unat (dr_x (dr_union r s)) + unat (dr_width (dr_union r s)) = max (unat (dr_x r) + unat (dr_width r)) (unat (dr_x s) + unat (dr_width s))"
    using assms le [of "dr_x r" "dr_width r" "dr_x s" "dr_width s"]
    by (simp add: dr_ok_def dr_union_def Let_def unat_sub unat_max unat_min unat_add_ok)
  show "unat (dr_y (dr_union r s)) + unat (dr_height (dr_union r s)) = max (unat (dr_y r) + unat (dr_height r)) (unat (dr_y s) + unat (dr_height s))"
    using assms le [of "dr_y r" "dr_height r" "dr_y s" "dr_height s"]
    by (simp add: dr_ok_def dr_union_def Let_def unat_sub unat_max unat_min unat_add_ok)
qed (simp_all add: dr_union_def Let_def unat_min)

lemma dr_union_ok: "dr_ok r \<Longrightarrow> dr_ok s \<Longrightarrow> dr_ok (dr_union r s)"
  using dr_union_fields(3,4) [of r s] by (simp add: dr_ok_def)

lemma dr_union_covers: "dr_ok r \<Longrightarrow> dr_ok s \<Longrightarrow> pixels r \<union> pixels s \<subseteq> pixels (dr_union r s)"
  using dr_union_fields [of r s] by (auto simp: pixels_def)

lemma dr_contains_iff: "dr_ok r \<Longrightarrow> dr_ok s \<Longrightarrow> dr_contains r s \<longleftrightarrow>
    unat (dr_x r) \<le> unat (dr_x s) \<and> unat (dr_y r) \<le> unat (dr_y s) \<and> unat (dr_x s) + unat (dr_width s) \<le> unat (dr_x r) + unat (dr_width r) \<and>
    unat (dr_y s) + unat (dr_height s) \<le> unat (dr_y r) + unat (dr_height r)"
  by (simp add: dr_contains_def dr_ok_def word_le_nat_alt unat_add_ok)

lemma dr_union_least: "dr_ok b \<Longrightarrow> dr_ok r \<Longrightarrow> dr_ok s \<Longrightarrow> dr_contains b r \<Longrightarrow> dr_contains b s \<Longrightarrow> dr_contains b (dr_union r s)"
  using dr_union_fields [of r s] dr_union_ok [of r s] by (simp add: dr_contains_iff)

lemma absorb_rect_ok: "dr_ok r \<Longrightarrow> \<forall>e \<in> set es. dr_ok e \<Longrightarrow> \<forall>e \<in> set (absorb_rect r es). dr_ok e"
  by (induction es) (simp_all add: dr_union_ok)

lemma absorb_rect_length: "length (absorb_rect r es) \<le> Suc (length es)"
  by (induction es) simp_all

lemma absorb_rect_inside:
  "dr_ok b \<Longrightarrow> dr_ok r \<Longrightarrow> \<forall>e \<in> set es. dr_ok e \<Longrightarrow> dr_contains b r \<Longrightarrow> \<forall>e \<in> set es. dr_contains b e \<Longrightarrow>
   \<forall>e \<in> set (absorb_rect r es). dr_contains b e"
  by (induction es) (simp_all add: dr_union_least)

lemma absorb_rect_covers:
  "dr_ok r \<Longrightarrow> \<forall>e \<in> set es. dr_ok e \<Longrightarrow> \<Union> (pixels ` set es) \<union> pixels r \<subseteq> \<Union> (pixels ` set (absorb_rect r es))"
proof (induction es)
  case (Cons e es)
  then show ?case using dr_union_covers [of e r] by auto
qed simp

lemma merge_snoc: "merge_dirty_rects (rs @ [r]) = absorb_rect r (merge_dirty_rects rs)"
  by (simp add: merge_dirty_rects_def)

lemma merge_rects_ok: "\<forall>r \<in> set rs. dr_ok r \<Longrightarrow> \<forall>m \<in> set (merge_dirty_rects rs). dr_ok m"
proof (induction rs rule: rev_induct)
  case (snoc r rs)
  then show ?case using absorb_rect_ok [of r "merge_dirty_rects rs"] by (simp add: merge_snoc)
qed (simp add: merge_dirty_rects_def)

lemma merge_rects_length: "length (merge_dirty_rects rs) \<le> length rs"
proof (induction rs rule: rev_induct)
  case (snoc r rs)
  then show ?case using absorb_rect_length [of r "merge_dirty_rects rs"] by (simp add: merge_snoc)
qed (simp add: merge_dirty_rects_def)

lemma merge_rects_inside:
  "dr_ok b \<Longrightarrow> \<forall>r \<in> set rs. dr_ok r \<Longrightarrow> \<forall>r \<in> set rs. dr_contains b r \<Longrightarrow> \<forall>m \<in> set (merge_dirty_rects rs). dr_contains b m"
proof (induction rs rule: rev_induct)
  case (snoc r rs)
  from snoc.prems have p: "dr_ok r" "\<forall>r \<in> set rs. dr_ok r" "dr_contains b r" "\<forall>r \<in> set rs. dr_contains b r" by auto
  show ?case unfolding merge_snoc
    by (rule absorb_rect_inside [OF snoc.prems(1) p(1) merge_rects_ok [OF p(2)] p(3) snoc.IH [OF snoc.prems(1) p(2,4)]])
qed (simp add: merge_dirty_rects_def)

lemma merge_rects_covers:
  "\<forall>r \<in> set rs. dr_ok r \<Longrightarrow> \<Union> (pixels ` set rs) \<subseteq> \<Union> (pixels ` set (merge_dirty_rects rs))"
proof (induction rs rule: rev_induct)
  case (snoc r rs)
  then have "\<Union> (pixels ` set rs) \<union> pixels r \<subseteq> \<Union> (pixels ` set (merge_dirty_rects rs)) \<union> pixels r"
    by (intro Un_mono) simp_all
  also have "\<dots> \<subseteq> \<Union> (pixels ` set (absorb_rect r (merge_dirty_rects rs)))"
    using snoc.prems by (intro absorb_rect_covers merge_rects_ok) simp_all
  finally show ?case by (simp add: merge_snoc Un_commute)
qed simp

text \<open>Merging the dirty rectangles of a frame loses no pixel: when no edge lies beyond the 32-bit range, the result has at most as many
  rectangles, covers every pixel of the given ones, and stays inside every rectangle, such as the screen, that contains all
  of them.\<close>
theorem merge_covers:
  assumes "\<forall>r \<in> set rs. dr_ok r"
  shows "\<Union> (pixels ` set rs) \<subseteq> \<Union> (pixels ` set (merge_dirty_rects rs)) \<and> length (merge_dirty_rects rs) \<le> length rs \<and>
    (\<forall>screen. dr_ok screen \<and> (\<forall>r \<in> set rs. dr_contains screen r) \<longrightarrow> (\<forall>m \<in> set (merge_dirty_rects rs). dr_contains screen m))"
  using merge_rects_covers [OF assms] merge_rects_length [of rs] merge_rects_inside [OF _ assms] by blast

theorem merge_covers_witness:
  "\<Union> (pixels ` set [\<lparr>dr_x = 0, dr_y = 0, dr_width = 2, dr_height = 2\<rparr>, \<lparr>dr_x = 1, dr_y = 0, dr_width = 4, dr_height = 2\<rparr>])
    \<subseteq> \<Union> (pixels ` set (merge_dirty_rects
      [\<lparr>dr_x = 0, dr_y = 0, dr_width = 2, dr_height = 2\<rparr>, \<lparr>dr_x = 1, dr_y = 0, dr_width = 4, dr_height = 2\<rparr>]))"
  by (rule conjunct1 [OF merge_covers]) (simp add: dr_ok_def)

text \<open>The result is not minimal: a rectangle that grew into another one is not merged with it.\<close>

lemma merge_leaves_overlap:
  "merge_dirty_rects [\<lparr>dr_x = 0, dr_y = 0, dr_width = 2, dr_height = 2\<rparr>, \<lparr>dr_x = 4, dr_y = 0, dr_width = 2, dr_height = 2\<rparr>,
      \<lparr>dr_x = 1, dr_y = 0, dr_width = 4, dr_height = 2\<rparr>] =
     [\<lparr>dr_x = 0, dr_y = 0, dr_width = 5, dr_height = 2\<rparr>, \<lparr>dr_x = 4, dr_y = 0, dr_width = 2, dr_height = 2\<rparr>] \<and>
   rects_overlap \<lparr>dr_x = 0, dr_y = 0, dr_width = 5, dr_height = 2\<rparr> \<lparr>dr_x = 4, dr_y = 0, dr_width = 2, dr_height = 2\<rparr>"
  by (simp add: merge_dirty_rects_def rects_overlap_def dr_union_def)

section \<open>The cursor overlay is an involution\<close>

text \<open>Whether drawing a pixel inverts byte \<open>i\<close> of a buffer of \<open>n\<close> bytes.\<close>

definition inverts :: "u32 \<Rightarrow> u32 \<Rightarrow> u32 \<Rightarrow> nat \<Rightarrow> nat \<Rightarrow> u32 \<times> u32 \<Rightarrow> bool" where
  "inverts stride width height n i = (\<lambda>(x, y). x < width \<and> y < height \<and>
     (let offset = unat (y * stride + x * 4) in offset + 3 < n \<and> offset \<le> i \<and> i \<le> offset + 2))"

lemma length_xor_pixel [simp]: "length (xor_bgra_pixel stride width height b p) = length b"
  by (cases p) (simp add: xor_bgra_pixel_def Let_def)

lemma nth_xor_pixel:
  assumes "i < length b"
  shows "xor_bgra_pixel stride width height b p ! i = b ! i XOR (if inverts stride width height (length b) i p then 0xFF else 0)"
proof -
  obtain x y where p: "p = (x, y)" by force
  define off where "off = unat (y * stride + x * 4)"
  have "i = off \<or> i = off + 1 \<or> i = off + 2 \<longleftrightarrow> off \<le> i \<and> i \<le> off + 2" by auto
  then show ?thesis
    using assms unfolding p xor_bgra_pixel_def inverts_def Let_def prod.case off_def [symmetric]
    by (auto simp: nth_list_update not_le)
qed

lemma length_xor_pixels [simp]: "length (foldl (xor_bgra_pixel stride width height) b ps) = length b"
  by (induction ps arbitrary: b) simp_all

lemma nth_xor_pixels:
  "i < length b \<Longrightarrow> foldl (xor_bgra_pixel stride width height) b ps ! i =
     b ! i XOR (if odd (length (filter (inverts stride width height (length b) i) ps)) then 0xFF else 0)"
  by (induction ps arbitrary: b) (auto simp: nth_xor_pixel xor.assoc)

lemma xor_pixels_twice:
  "foldl (xor_bgra_pixel stride width height) (foldl (xor_bgra_pixel stride width height) b ps) ps = b"
  by (rule nth_equalityI) (simp_all add: nth_xor_pixels xor.assoc)

lemma inverts_not_alpha:
  assumes "4 dvd unat stride" "i mod 4 = 3"
  shows "\<not> inverts stride width height n i p"
proof -
  obtain x y where p: "p = (x, y)" by force
  have "4 dvd unat y * unat stride + unat x * 4" using assms(1) by simp
  then have "4 dvd (unat y * unat stride + unat x * 4) mod 2 ^ 32" by (rule dvd_mod) simp
  also have "(unat y * unat stride + unat x * 4) mod 2 ^ 32 = unat (y * stride + x * 4)"
    by (simp add: unat_word_ariths mod_simps)
  finally show ?thesis using assms(2) unfolding inverts_def p by (auto simp: Let_def dvd_def) presburger
qed

lemma composite_cursor_Ok:
  assumes "composite_cursor b stride width height cx cy vis = (Ok b' :: (bytes, 'e) outcome)"
  obtains ps where "b' = foldl (xor_bgra_pixel stride width height) b ps"
    "\<forall>c. length c = length b \<longrightarrow> composite_cursor c stride width height cx cy vis = (Ok (foldl (xor_bgra_pixel stride width height) c ps) :: (bytes, 'e) outcome)"
proof (cases "\<not> vis \<or> b = []")
  case True
  then show ?thesis using assms by (intro that [of "[]"]) (auto simp: composite_cursor_def)
next
  case False
  then obtain x y where "clamp_i32 cx 0 (width - 1) = (Ok x :: (32 word, 'e) outcome)" "clamp_i32 cy 0 (height - 1) = (Ok y :: (32 word, 'e) outcome)"
    and "b' = foldl (xor_bgra_pixel stride width height) b (crosshair width height x y)"
    using assms by (auto simp: composite_cursor_def outcome_simps)
  then show ?thesis using False by (intro that [of "crosshair width height x y"]) (auto simp: composite_cursor_def)
qed

text \<open>The cursor overlay can be taken off again by drawing it a second time.  When \<open>composite_cursor\<close> returns, a second call with the same
  position restores every byte of the frame; the size of the frame is kept and, with rows of whole pixels, no alpha byte changes.\<close>
theorem cursor_involutive:
  assumes "composite_cursor b stride width height cx cy vis = (Ok b' :: (bytes, 'e) outcome)"
  shows "composite_cursor b' stride width height cx cy vis = (Ok b :: (bytes, 'e) outcome) \<and> length b' = length b \<and>
    (\<forall>i < length b. 4 dvd unat stride \<longrightarrow> i mod 4 = 3 \<longrightarrow> b' ! i = b ! i)"
proof -
  obtain ps where ps: "b' = foldl (xor_bgra_pixel stride width height) b ps"
    "\<forall>c. length c = length b \<longrightarrow> composite_cursor c stride width height cx cy vis = (Ok (foldl (xor_bgra_pixel stride width height) c ps) :: (bytes, 'e) outcome)"
    by (rule composite_cursor_Ok [OF assms])
  show ?thesis
    using spec [OF ps(2), of b'] unfolding ps(1) by (simp add: xor_pixels_twice nth_xor_pixels inverts_not_alpha)
qed

theorem cursor_involutive_witness:
  "composite_cursor [7, 7, 7, 7] 4 1 1 0 0 True = (Ok [248, 248, 248, 7] :: (bytes, unit) outcome) \<and>
   composite_cursor [248, 248, 248, 7] 4 1 1 0 0 True = (Ok [7, 7, 7, 7] :: (bytes, unit) outcome)"
proof -
  have c: "clamp_i32 0 0 0 = (Ok 0 :: (32 word, unit) outcome)" by (simp add: clamp_i32_def)
  have h: "crosshair 1 1 0 0 = [(0, 0)]" by (simp add: crosshair_def)
  have x: "xor_bgra_pixel 4 1 1 [7, 7, 7, 7] (0, 0) = [248, 248, 248, 7]" by (simp add: xor_bgra_pixel_def numeral_2_eq_2)
  have w: "composite_cursor [7, 7, 7, 7] 4 1 1 0 0 True = (Ok [248, 248, 248, 7] :: (bytes, unit) outcome)"
    by (simp add: composite_cursor_def c h x)
  show ?thesis by (rule conjI [OF w conjunct1 [OF cursor_involutive [OF w]]])
qed

text \<open>An empty frame with a non-empty buffer makes the overlay panic: the upper bound of \<open>clamp\<close> is \<open>-1\<close>.\<close>

lemma cursor_panics: "b \<noteq> [] \<Longrightarrow> composite_cursor b stride 0 height cx cy True = Panic"
  by (simp add: composite_cursor_def clamp_i32_def)

end
