(* ===== verification/BW_Capture.thy ===== *)
theory BW_Capture
  imports BW_Video
begin

text \<open>
  Captured frames and the capture thread (\<^verbatim>\<open>bw-capture/src/frame.rs\<close>, \<^verbatim>\<open>cursor.rs\<close>, \<^verbatim>\<open>thread.rs\<close>).  The graphics backend,
  the clock and the room in the channel are inputs of an iteration of the loop.
\<close>

section \<open>Frames\<close>

datatype pixel_format = Bgra8 | Rgba8

datatype cursor_shape = Arrow | IBeam | Crosshair | SizeAll | Hand | Hidden | UnknownShape

record cursor_info =
  ci_x :: i32
  ci_y :: i32
  ci_visible :: bool
  ci_shape :: cursor_shape
  ci_bitmap :: "bytes option"
  ci_bitmap_width :: u32
  ci_bitmap_height :: u32

record move_rect =
  mr_source_x :: u32
  mr_source_y :: u32
  mr_dest :: dirty_rect

record frame =
  fr_width :: u32
  fr_height :: u32
  fr_stride :: u32
  fr_timestamp_us :: u64
  fr_pixel_format :: pixel_format
  fr_buffer :: bytes
  fr_dirty_rects :: "dirty_rect list"
  fr_move_rects :: "move_rect list"
  fr_cursor :: "cursor_info option"
  fr_is_refresh :: bool

definition has_updates :: "frame \<Rightarrow> bool" where
  "has_updates f \<longleftrightarrow> fr_is_refresh f \<or> fr_dirty_rects f \<noteq> [] \<or> fr_move_rects f \<noteq> []"

definition expected_buffer_size :: "frame \<Rightarrow> nat" where
  "expected_buffer_size f = unat (fr_stride f) * unat (fr_height f)"

section \<open>The capture thread\<close>

datatype capture_error =
    InitFailed string | DisplayEnumerationFailed string | InvalidDisplay | FrameAcquisitionFailed string
  | Stopped | AccessDenied | UnsupportedFormat | PlatformNotSupported

record frame_timer_config =
  idle_sleep_ms :: u64
  refresh_interval_ms :: u64
  min_frame_interval_ms :: u64

definition default_frame_timer :: frame_timer_config where
  "default_frame_timer = \<lparr>idle_sleep_ms = 16, refresh_interval_ms = 1000, min_frame_interval_ms = 33\<rparr>"

record capture_state =
  cap_last_frame :: "frame option"
  cap_last_real :: nat

text \<open>
  What one iteration finds: whether a stop was requested, what the backend returns, the instants at which the clock is read, in
  milliseconds, what the cursor query and the restart of the backend yield, and whether the channel has room.
\<close>

record capture_tick =
  tk_stop :: bool
  tk_next_frame :: "(frame, capture_error) outcome"
  tk_elapsed_at :: nat
  tk_reset_at :: nat
  tk_cursor :: "cursor_info option"
  tk_restarts :: bool
  tk_room :: bool

definition refresh_of :: "frame \<Rightarrow> cursor_info option \<Rightarrow> frame" where
  "refresh_of cached cursor =
     (let f = cached\<lparr>fr_is_refresh := True, fr_timestamp_us := 0\<rparr>
      in case cursor of Some c \<Rightarrow> f\<lparr>fr_cursor := Some c\<rparr> | None \<Rightarrow> f)"

text \<open>An iteration yields the frame it put into the channel, if any, and the state of the next iteration, if there is one.\<close>

definition capture_step :: "frame_timer_config \<Rightarrow> capture_state \<Rightarrow> capture_tick \<Rightarrow> frame option \<times> capture_state option" where
  "capture_step cfg st tk =
     (if tk_stop tk then (None, None)
      else case tk_next_frame tk of
        Ok f \<Rightarrow>
          (if fr_buffer f = [] then
             (case cap_last_frame st of
                Some cached \<Rightarrow>
                  (if refresh_interval_ms cfg > 0 \<and> tk_elapsed_at tk - cap_last_real st \<ge> unat (refresh_interval_ms cfg)
                   then (if tk_room tk then Some (refresh_of cached (tk_cursor tk)) else None, Some (st\<lparr>cap_last_real := tk_reset_at tk\<rparr>))
                   else (None, Some st))
              | None \<Rightarrow> (None, Some st))
           else (if tk_room tk then Some f else None, Some \<lparr>cap_last_frame = Some f, cap_last_real = tk_reset_at tk\<rparr>))
      | Err Stopped \<Rightarrow> (None, None)
      | Err e \<Rightarrow> (None, if tk_restarts tk then Some \<lparr>cap_last_frame = None, cap_last_real = tk_reset_at tk\<rparr> else None)
      | Panic \<Rightarrow> (None, None))"

fun capture_run :: "frame_timer_config \<Rightarrow> capture_state \<Rightarrow> capture_tick list \<Rightarrow> frame list" where
  "capture_run cfg st [] = []"
| "capture_run cfg st (tk # tks) =
     (let (out, next) = capture_step cfg st tk;
          rest = (case next of Some st' \<Rightarrow> capture_run cfg st' tks | None \<Rightarrow> [])
      in (case out of Some f \<Rightarrow> f # rest | None \<Rightarrow> rest))"

section \<open>What the encoder is given\<close>

text \<open>Every frame in the channel has pixels and shows a picture that the backend delivered during this run.\<close>

definition delivered :: "capture_tick list \<Rightarrow> bytes set" where
  "delivered tks = {fr_buffer f | f tk. tk \<in> set tks \<and> tk_next_frame tk = Ok f \<and> fr_buffer f \<noteq> []}"

lemma refresh_of_buffer [simp]: "fr_buffer (refresh_of f c) = fr_buffer f" "fr_is_refresh (refresh_of f c)"
  by (simp_all add: refresh_of_def Let_def split: option.splits)

lemma capture_step_sound:
  assumes "case cap_last_frame st of Some f \<Rightarrow> fr_buffer f \<in> S | None \<Rightarrow> True" "delivered [tk] \<subseteq> S" "capture_step cfg st tk = (out, next)"
  shows "(\<forall>f. out = Some f \<longrightarrow> fr_buffer f \<in> S) \<and>
    (case next of Some st' \<Rightarrow> (case cap_last_frame st' of Some f \<Rightarrow> fr_buffer f \<in> S | None \<Rightarrow> True) | None \<Rightarrow> True)"
  using assms
  by (auto simp: capture_step_def delivered_def split: if_splits outcome.splits option.splits capture_error.splits)

lemma capture_run_sound:
  assumes "case cap_last_frame st of Some f \<Rightarrow> fr_buffer f \<in> S | None \<Rightarrow> True" "delivered tks \<subseteq> S"
  shows "fr_buffer ` set (capture_run cfg st tks) \<subseteq> S"
  using assms
proof (induction tks arbitrary: st)
  case (Cons tk tks)
  obtain out nxt where c: "capture_step cfg st tk = (out, nxt)" by force
  have d: "delivered [tk] \<subseteq> S" "delivered tks \<subseteq> S" using Cons.prems(2) by (auto simp: delivered_def)
  note step = capture_step_sound [OF Cons.prems(1) d(1) c]
  show ?case
  proof (cases nxt)
    case None
    then show ?thesis using step c by (cases out) simp_all
  next
    case (Some st')
    have "fr_buffer ` set (capture_run cfg st' tks) \<subseteq> S"
      using step by (intro Cons.IH d(2)) (simp add: Some)
    then show ?thesis using step c Some by (cases out) simp_all
  qed
qed simp

end
