(* ===== verification/BW_Encode.thy ===== *)
theory BW_Encode
  imports BW_Capture
begin

text \<open>
  The encoder side of the video pipeline: the colour conversion and the OpenH264 backend of \<^verbatim>\<open>bw-encoder/src/h264.rs\<close> and the encoder
  thread of \<^verbatim>\<open>bw-encoder/src/pipeline.rs\<close>.  The OpenH264 library is a parameter.
\<close>

section \<open>Colour conversion\<close>

text \<open>Reading and writing a buffer by index panics out of bounds.  The channel values are small enough for the arithmetic of \<open>i32\<close> never to
  overflow, so it is done on integers; \<open>as u8\<close> takes the low byte.\<close>

definition rd :: "bytes \<Rightarrow> nat \<Rightarrow> (int, 'e) outcome" where
  "rd xs i = (if i < length xs then Ok (uint (xs ! i)) else Panic)"

definition wr :: "nat \<Rightarrow> u8 \<Rightarrow> bytes \<Rightarrow> (bytes, 'e) outcome" where
  "wr i v xs = (if i < length xs then Ok (xs[i := v]) else Panic)"

definition luma :: "int \<Rightarrow> int \<Rightarrow> int \<Rightarrow> u8" where
  "luma r g b = word_of_int (drop_bit 8 (77 * r + 150 * g + 29 * b + 128))"

definition chroma_u :: "int \<Rightarrow> int \<Rightarrow> int \<Rightarrow> u8" where
  "chroma_u r g b = word_of_int (drop_bit 8 (- 43 * r - 85 * g + 128 * b + 32768))"

definition chroma_v :: "int \<Rightarrow> int \<Rightarrow> int \<Rightarrow> u8" where
  "chroma_v r g b = word_of_int (drop_bit 8 (128 * r - 107 * g - 21 * b + 32768))"

definition pixel :: "bytes \<Rightarrow> nat \<Rightarrow> (int \<times> int \<times> int, 'e) outcome" where
  "pixel bgra i = obind (rd bgra i) (\<lambda>b. obind (rd bgra (i + 1)) (\<lambda>g. obind (rd bgra (i + 2)) (\<lambda>r. Ok (r, g, b))))"

text \<open>One block of two by two pixels.\<close>

definition yuv_block :: "bytes \<Rightarrow> nat \<Rightarrow> nat \<Rightarrow> nat \<Rightarrow> nat \<times> nat \<Rightarrow> bytes \<Rightarrow> (bytes, 'e) outcome" where
  "yuv_block bgra w u_offset v_offset = (\<lambda>(row, col) yuv.
     let y_row0 = row * w; y_row1 = (row + 1) * w; uv_row = (row div 2) * (w div 2);
         i00 = (y_row0 + col) * 4; i10 = (y_row1 + col) * 4; i01 = i00 + 4; i11 = i10 + 4
     in obind (pixel bgra i00) (\<lambda>(r00, g00, b00). obind (pixel bgra i01) (\<lambda>(r01, g01, b01).
        obind (pixel bgra i10) (\<lambda>(r10, g10, b10). obind (pixel bgra i11) (\<lambda>(r11, g11, b11).
        obind (wr (y_row0 + col) (luma r00 g00 b00) yuv) (\<lambda>yuv. obind (wr (y_row0 + col + 1) (luma r01 g01 b01) yuv) (\<lambda>yuv.
        obind (wr (y_row1 + col) (luma r10 g10 b10) yuv) (\<lambda>yuv. obind (wr (y_row1 + col + 1) (luma r11 g11 b11) yuv) (\<lambda>yuv.
        let r_avg = (r00 + r01 + r10 + r11 + 2) div 4; g_avg = (g00 + g01 + g10 + g11 + 2) div 4; b_avg = (b00 + b01 + b10 + b11 + 2) div 4;
            uv_idx = uv_row + col div 2
        in obind (wr (u_offset + uv_idx) (chroma_u r_avg g_avg b_avg) yuv)
             (wr (v_offset + uv_idx) (chroma_v r_avg g_avg b_avg)))))))))))"

fun yuv_blocks :: "bytes \<Rightarrow> nat \<Rightarrow> nat \<Rightarrow> nat \<Rightarrow> (nat \<times> nat) list \<Rightarrow> bytes \<Rightarrow> (bytes, 'e) outcome" where
  "yuv_blocks bgra w u_offset v_offset [] yuv = Ok yuv"
| "yuv_blocks bgra w u_offset v_offset (p # ps) yuv =
     obind (yuv_block bgra w u_offset v_offset p yuv) (yuv_blocks bgra w u_offset v_offset ps)"

definition step_by_2 :: "nat \<Rightarrow> nat list" where
  "step_by_2 n = map (\<lambda>i. 2 * i) [0..<(n + 1) div 2]"

definition bgra_to_yuv420p :: "bytes \<Rightarrow> u32 \<Rightarrow> u32 \<Rightarrow> (bytes, 'e) outcome" where
  "bgra_to_yuv420p bgra width height =
     (let y_size = unat (width * height); uv_size = y_size div 4; w = unat width; h = unat height
      in yuv_blocks bgra w y_size (y_size + uv_size) (List.product (step_by_2 h) (step_by_2 w)) (replicate (y_size + uv_size * 2) 0))"

section \<open>The backend\<close>

record encoder_config =
  target_bitrate :: u32
  framerate :: u32
  keyframe_interval :: u32

definition default_encoder_config :: encoder_config where
  "default_encoder_config = \<lparr>target_bitrate = 5000000, framerate = 60, keyframe_interval = 120\<rparr>"

datatype encoder_error = EncoderInitFailed string | EncodeFailed string | EncoderStopped

text \<open>OpenH264: \<open>Encoder::new\<close>, \<open>force_intra_frame\<close> and \<open>encode\<close> on the three planes, with the text of an error.\<close>

record yuv_source =
  ys_width :: nat
  ys_height :: nat
  ys_y :: bytes
  ys_u :: bytes
  ys_v :: bytes

record 'h openh264 =
  h264_new :: "('h, string) outcome"
  h264_force_intra :: "'h \<Rightarrow> 'h"
  h264_encode :: "'h \<Rightarrow> yuv_source \<Rightarrow> (bytes, string) outcome \<times> 'h"

record 'h h264_backend =
  be_encoder :: "'h option"
  be_width :: u32
  be_height :: u32
  be_config :: encoder_config
  be_since_idr :: u32

definition backend_new :: "'h h264_backend" where
  "backend_new = \<lparr>be_encoder = None, be_width = 0, be_height = 0, be_config = default_encoder_config, be_since_idr = 0\<rparr>"

definition backend_start :: "'h openh264 \<Rightarrow> 'h h264_backend \<Rightarrow> u32 \<Rightarrow> u32 \<Rightarrow> encoder_config \<Rightarrow>
    (unit, encoder_error) outcome \<times> 'h h264_backend" where
  "backend_start H B width height config =
     (case map_err EncoderInitFailed (h264_new H) of
        Ok h \<Rightarrow> (Ok (), \<lparr>be_encoder = Some h, be_width = width, be_height = height, be_config = config, be_since_idr = 0\<rparr>)
      | Err e \<Rightarrow> (Err e, B)
      | Panic \<Rightarrow> (Panic, B))"

definition force_keyframe :: "'h openh264 \<Rightarrow> 'h h264_backend \<Rightarrow> 'h h264_backend" where
  "force_keyframe H B = B\<lparr>be_encoder := map_option (h264_force_intra H) (be_encoder B), be_since_idr := 0\<rparr>"

definition backend_stop :: "'h h264_backend \<Rightarrow> 'h h264_backend" where
  "backend_stop B = B\<lparr>be_encoder := None\<rparr>"

definition idr_at :: "bytes \<Rightarrow> nat \<Rightarrow> bool" where
  "idr_at p i \<longleftrightarrow>
     (if p ! i = 0 \<and> p ! (i + 1) = 0 \<and> p ! (i + 2) = 0 \<and> p ! (i + 3) = 1 then p ! (i + 4) AND 0x1F = 5
      else p ! i = 0 \<and> p ! (i + 1) = 0 \<and> p ! (i + 2) = 1 \<and> p ! (i + 3) AND 0x1F = 5)"

definition is_idr :: "bytes \<Rightarrow> bool" where
  "is_idr p = list_ex (idr_at p) [0..<length p - 4]"

definition ensure_started :: "'h openh264 \<Rightarrow> 'h h264_backend \<Rightarrow> frame \<Rightarrow> (unit, encoder_error) outcome \<times> 'h h264_backend" where
  "ensure_started H B f =
     (if be_encoder B = None \<or> fr_width f \<noteq> be_width B \<or> fr_height f \<noteq> be_height B
      then backend_start H B (fr_width f) (fr_height f) (be_config B) else (Ok (), B))"

definition keyframe_due :: "'h openh264 \<Rightarrow> 'h h264_backend \<Rightarrow> 'h h264_backend" where
  "keyframe_due H B =
     (if keyframe_interval (be_config B) > 0 \<and> be_since_idr B \<ge> keyframe_interval (be_config B)
      then B\<lparr>be_encoder := map_option (h264_force_intra H) (be_encoder B)\<rparr> else B)"

definition planes :: "u32 \<Rightarrow> u32 \<Rightarrow> bytes \<Rightarrow> (yuv_source, 'e) outcome" where
  "planes width height yuv =
     (let a = unat (width * height); c = unat (width * height + width * height div 4)
      in if a \<le> c \<and> c \<le> length yuv
         then Ok \<lparr>ys_width = unat width, ys_height = unat height, ys_y = slice_of 0 a yuv, ys_u = slice_of a c yuv, ys_v = drop c yuv\<rparr>
         else Panic)"

definition encode_picture :: "'h openh264 \<Rightarrow> 'h h264_backend \<Rightarrow> 'h \<Rightarrow> frame \<Rightarrow> u64 \<Rightarrow>
    (encoded_frame, encoder_error) outcome \<times> 'h h264_backend" where
  "encode_picture H B h f seq =
     (case obind (bgra_to_yuv420p (fr_buffer f) (fr_width f) (fr_height f)) (planes (be_width B) (be_height B)) of
        Err e \<Rightarrow> (Err e, B)
      | Panic \<Rightarrow> (Panic, B)
      | Ok src \<Rightarrow>
          (case h264_encode H h src of
             (Err e, h') \<Rightarrow> (Err (EncodeFailed e), B\<lparr>be_encoder := Some h'\<rparr>)
           | (Panic, h') \<Rightarrow> (Panic, B\<lparr>be_encoder := Some h'\<rparr>)
           | (Ok payload, h') \<Rightarrow>
               let idr = is_idr payload
               in (Ok \<lparr>ef_session_id = 0, ef_sequence = seq, ef_timestamp_us = fr_timestamp_us f,
                     ef_frame_type = (if idr then IFrame else PFrame), ef_width = be_width B, ef_height = be_height B,
                     ef_codec = H264, ef_payload = payload\<rparr>,
                   B\<lparr>be_encoder := Some h', be_since_idr := (if idr then 0 else be_since_idr B + 1)\<rparr>)))"

definition has_pixels :: "frame \<Rightarrow> bool" where
  "has_pixels f =
     (case Option.bind (checked_mul_usize (unat (fr_width f)) (unat (fr_height f))) (\<lambda>n. checked_mul_usize n 4) of
        Some n \<Rightarrow> length (fr_buffer f) \<ge> n | None \<Rightarrow> False)"

definition backend_encode_frame :: "'h openh264 \<Rightarrow> 'h h264_backend \<Rightarrow> frame \<Rightarrow> u64 \<Rightarrow>
    (encoded_frame, encoder_error) outcome \<times> 'h h264_backend" where
  "backend_encode_frame H B0 f seq =
     (if \<not> has_pixels f then (Err (EncodeFailed ''frame has no pixel data (empty capture frame)''), B0)
      else case ensure_started H B0 f of
        (Err e, B) \<Rightarrow> (Err e, B)
      | (Panic, B) \<Rightarrow> (Panic, B)
      | (Ok _, B1) \<Rightarrow>
          let B = keyframe_due H B1
          in case be_encoder B of None \<Rightarrow> (Err EncoderStopped, B) | Some h \<Rightarrow> encode_picture H B h f seq)"

section \<open>The encoder thread\<close>

text \<open>
  An iteration receives a batch of frames, of which it keeps the newest, encodes it, and tries to put the result into the channel of the sender.
  The thread ends when a channel is closed or the encoder panics.
\<close>

datatype try_send = Sent | Full | Closed

record 'h encoder_thread =
  et_backend :: "'h h264_backend"
  et_sequence :: u64

definition thread_new :: "'h encoder_thread" where
  "thread_new = \<lparr>et_backend = backend_new, et_sequence = 0\<rparr>"

definition encode_newest :: "'h openh264 \<Rightarrow> 'h encoder_thread \<Rightarrow> frame list \<Rightarrow> (encoded_frame, encoder_error) outcome \<times> 'h h264_backend" where
  "encode_newest H T batch =
     (let f = last batch; B = (if fr_is_refresh f then force_keyframe H (et_backend T) else et_backend T)
      in backend_encode_frame H B f (et_sequence T))"

definition pipeline_step :: "'h openh264 \<Rightarrow> 'h encoder_thread \<Rightarrow> frame list \<times> try_send \<Rightarrow> encoded_frame option \<times> 'h encoder_thread option" where
  "pipeline_step H T = (\<lambda>(batch, send).
     if batch = [] then (None, None)
     else case encode_newest H T batch of
            (Panic, B) \<Rightarrow> (None, None)
          | (Err e, B) \<Rightarrow> (None, Some (T\<lparr>et_backend := B\<rparr>))
          | (Ok ef, B) \<Rightarrow>
              (case send of
                 Sent \<Rightarrow> (Some ef, Some \<lparr>et_backend = B, et_sequence = et_sequence T + 1\<rparr>)
               | Full \<Rightarrow> (None, Some (T\<lparr>et_backend := force_keyframe H B\<rparr>))
               | Closed \<Rightarrow> (None, None)))"

fun pipeline_run :: "'h openh264 \<Rightarrow> 'h encoder_thread \<Rightarrow> (frame list \<times> try_send) list \<Rightarrow> encoded_frame list" where
  "pipeline_run H T [] = []"
| "pipeline_run H T (x # xs) =
     (case pipeline_step H T x of
        (out, next) \<Rightarrow>
          (case out of Some f \<Rightarrow> [f] | None \<Rightarrow> []) @ (case next of Some T' \<Rightarrow> pipeline_run H T' xs | None \<Rightarrow> []))"

section \<open>The conversion computes the reference planes\<close>

definition channels :: "bytes \<Rightarrow> nat \<Rightarrow> int \<times> int \<times> int" where
  "channels bgra k = (uint (bgra ! (4 * k + 2)), uint (bgra ! (4 * k + 1)), uint (bgra ! (4 * k)))"

definition ref_y :: "bytes \<Rightarrow> nat \<Rightarrow> u8" where
  "ref_y bgra k = (case channels bgra k of (r, g, b) \<Rightarrow> luma r g b)"

definition average :: "int list \<Rightarrow> int" where
  "average xs = (sum_list xs + 2) div 4"

definition ref_uv :: "(int \<Rightarrow> int \<Rightarrow> int \<Rightarrow> u8) \<Rightarrow> bytes \<Rightarrow> nat \<Rightarrow> nat \<Rightarrow> nat \<Rightarrow> u8" where
  "ref_uv f bgra w r c =
     (let ps = map (channels bgra) [2 * r * w + 2 * c, 2 * r * w + 2 * c + 1, (2 * r + 1) * w + 2 * c, (2 * r + 1) * w + 2 * c + 1]
      in f (average (map fst ps)) (average (map (fst \<circ> snd) ps)) (average (map (snd \<circ> snd) ps)))"

text \<open>The value of every cell of the three planes of an image of \<open>2a\<close> by \<open>2b\<close> pixels.\<close>

definition ref_cell :: "bytes \<Rightarrow> nat \<Rightarrow> nat \<Rightarrow> nat \<Rightarrow> u8" where
  "ref_cell bgra a b k =
     (if k < 4 * (a * b) then ref_y bgra k
      else if k < 5 * (a * b) then ref_uv chroma_u bgra (2 * a) ((k - 4 * (a * b)) div a) ((k - 4 * (a * b)) mod a)
      else ref_uv chroma_v bgra (2 * a) ((k - 5 * (a * b)) div a) ((k - 5 * (a * b)) mod a))"

definition cells :: "nat \<Rightarrow> nat \<Rightarrow> nat \<Rightarrow> nat \<Rightarrow> nat list" where
  "cells a b i j = [4 * (i * a) + 2 * j, 4 * (i * a) + 2 * j + 1, 4 * (i * a) + 2 * j + 2 * a, 4 * (i * a) + 2 * j + 2 * a + 1,
     4 * (a * b) + (i * a + j), 5 * (a * b) + (i * a + j)]"

definition fill :: "(nat \<Rightarrow> u8) \<Rightarrow> nat list \<Rightarrow> bytes \<Rightarrow> bytes" where
  "fill F is xs = foldl (\<lambda>xs i. xs[i := F i]) xs is"

lemma length_fill [simp]: "length (fill F is xs) = length xs"
  unfolding fill_def by (induction "is" arbitrary: xs) simp_all

lemma fill_append: "fill F (is @ js) xs = fill F js (fill F is xs)"
  by (simp add: fill_def)

lemma nth_fill: "k < length xs \<Longrightarrow> fill F is xs ! k = (if k \<in> set is then F k else xs ! k)"
  unfolding fill_def by (induction "is" arbitrary: xs) (auto simp: nth_list_update)

lemma block_room:
  assumes "i < b" "j < (a :: nat)"
  shows "i * a + j < a * b" "4 * (i * a) + 2 * a + 2 * j + 1 < 4 * (a * b)"
proof -
  have "(i + 1) * a \<le> b * a" using assms(1) by (intro mult_le_mono1) simp
  then have "i * a + a \<le> a * b" by (simp add: algebra_simps)
  with assms(2) show "i * a + j < a * b" "4 * (i * a) + 2 * a + 2 * j + 1 < 4 * (a * b)" by linarith+
qed

lemma pixel_at: "4 * k + 3 < length bgra \<Longrightarrow> n = 4 * k \<Longrightarrow> pixel bgra n = Ok (channels bgra k)"
  by (simp add: pixel_def rd_def channels_def)

lemma yuv_block_fill:
  assumes "i < b" "j < a" "16 * (a * b) \<le> length bgra" "length yuv = 6 * (a * b)"
  shows "yuv_block bgra (2 * a) (4 * (a * b)) (5 * (a * b)) (2 * i, 2 * j) yuv = Ok (fill (ref_cell bgra a b) (cells a b i j) yuv)"
proof -
  note room = block_room [OF assms(1,2)]
  let ?k = "4 * (i * a) + 2 * j"
  have idx: "2 * i * (2 * a) + 2 * j = ?k" "(2 * i + 1) * (2 * a) + 2 * j = ?k + 2 * a" by (simp_all add: algebra_simps)
  have px: "pixel bgra (?k * 4) = Ok (channels bgra ?k)" "pixel bgra (?k * 4 + 4) = Ok (channels bgra (?k + 1))"
    "pixel bgra ((?k + 2 * a) * 4) = Ok (channels bgra (?k + 2 * a))" "pixel bgra ((?k + 2 * a) * 4 + 4) = Ok (channels bgra (?k + 2 * a + 1))"
    using room(2) assms(3) by (intro pixel_at; simp)+
  have div: "(i * a + j) div a = i" "(i * a + j) mod a = j" using assms(2) by simp_all
  have y: "ref_cell bgra a b ?k = ref_y bgra ?k" "ref_cell bgra a b (?k + 1) = ref_y bgra (?k + 1)"
    "ref_cell bgra a b (?k + 2 * a) = ref_y bgra (?k + 2 * a)" "ref_cell bgra a b (?k + 2 * a + 1) = ref_y bgra (?k + 2 * a + 1)"
    using room(2) by (simp_all add: ref_cell_def)
  have uv: "ref_cell bgra a b (4 * (a * b) + (i * a + j)) = ref_uv chroma_u bgra (2 * a) i j"
    "ref_cell bgra a b (5 * (a * b) + (i * a + j)) = ref_uv chroma_v bgra (2 * a) i j"
    using room(1) div by (simp_all add: ref_cell_def)
  obtain r0 g0 b0 r1 g1 b1 r2 g2 b2 r3 g3 b3 where
    ch: "channels bgra ?k = (r0, g0, b0)" "channels bgra (?k + 1) = (r1, g1, b1)" "channels bgra (?k + 2 * a) = (r2, g2, b2)"
      "channels bgra (?k + 2 * a + 1) = (r3, g3, b3)"
    by (meson prod_cases3)
  have uvv: "ref_uv f bgra (2 * a) i j = f ((r0 + r1 + r2 + r3 + 2) div 4) ((g0 + g1 + g2 + g3 + 2) div 4) ((b0 + b1 + b2 + b3 + 2) div 4)" for f
    unfolding ref_uv_def idx Let_def by (simp only: list.map ch average_def comp_apply fst_conv snd_conv) (simp add: add.assoc)
  show ?thesis
    unfolding yuv_block_def prod.case Let_def idx px obind.simps ch
    using room assms(4) y uv ch
    by (simp add: wr_def fill_def cells_def ref_y_def uvv idx)
qed

lemma yuv_blocks_fill:
  assumes "\<forall>(i, j) \<in> set ps. i < b \<and> j < a" "16 * (a * b) \<le> length bgra" "length yuv = 6 * (a * b)"
  shows "yuv_blocks bgra (2 * a) (4 * (a * b)) (5 * (a * b)) (map (\<lambda>(i, j). (2 * i, 2 * j)) ps) yuv =
    Ok (fill (ref_cell bgra a b) (concat (map (\<lambda>(i, j). cells a b i j) ps)) yuv)"
  using assms
proof (induction ps arbitrary: yuv)
  case Nil
  then show ?case by (simp add: fill_def)
next
  case (Cons p ps)
  then show ?case by (cases p) (simp add: yuv_block_fill fill_append)
qed

text \<open>Every cell belongs to a block.\<close>

lemma cells_cover:
  assumes "k < 6 * (a * b)"
  obtains i j where "i < b" "j < a" "k \<in> set (cells a b i j)"
proof -
  have a: "0 < a" using assms by (cases a) auto
  consider "k < 4 * (a * b)" | m where "m < a * b" "k = 4 * (a * b) + m \<or> k = 5 * (a * b) + m"
  proof -
    have "k < 4 * (a * b) \<or> (\<exists>m < a * b. k = 4 * (a * b) + m \<or> k = 5 * (a * b) + m)"
      using assms by (cases "k < 5 * (a * b)") (auto intro: exI [of _ "k - 4 * (a * b)"] exI [of _ "k - 5 * (a * b)"])
    then show thesis using that by blast
  qed
  then show thesis
  proof cases
    case 1
    define q r where "q = k div (2 * a)" and "r = k mod (2 * a)"
    have k: "k = q * (2 * a) + r" unfolding q_def r_def by (rule div_mult_mod_eq [symmetric])
    have r: "r < 2 * a" using a by (simp add: r_def)
    have q: "q < 2 * b" unfolding q_def using 1 a by (intro less_mult_imp_div_less) (simp add: algebra_simps)
    define i j where "i = q div 2" and "j = r div 2"
    have "q = 2 * i \<or> q = 2 * i + 1" "r = 2 * j \<or> r = 2 * j + 1" unfolding i_def j_def by auto
    moreover from this have "k \<in> set (cells a b i j)" unfolding cells_def k by (elim disjE) (simp_all add: algebra_simps)
    ultimately show thesis using q r by (intro that [of i j]) auto
  next
    case 2
    have "m div a < b" "m mod a < a" "m = m div a * a + m mod a"
      using 2(1) a div_mult_mod_eq [of m a] by (simp_all add: less_mult_imp_div_less mult.commute)
    with 2(2) show thesis by (intro that [of "m div a" "m mod a"]) (auto simp: cells_def)
  qed
qed

lemma step_by_2_even: "step_by_2 (2 * n) = map (\<lambda>i. 2 * i) [0..<n]"
  by (simp add: step_by_2_def)

lemma product_map: "List.product (map f xs) (map g ys) = map (\<lambda>(x, y). (f x, g y)) (List.product xs ys)"
  by (induction xs) simp_all

lemma yuv_planes:
  assumes "unat width = 2 * a" "unat height = 2 * b" "4 * (a * b) < 2 ^ 32" "16 * (a * b) \<le> length bgra"
  shows "\<exists>yuv. bgra_to_yuv420p bgra width height = (Ok yuv :: (bytes, 'e) outcome) \<and> length yuv = 6 * (a * b) \<and> (\<forall>k < 6 * (a * b). yuv ! k = ref_cell bgra a b k)"
proof -
  have "2 * a * (2 * b) = 4 * (a * b)" by simp
  then have s: "unat (width * height) = 4 * (a * b)"
    using assms(3) unfolding unat_word_ariths(2) assms(1,2) by simp
  let ?ps = "List.product [0..<b] [0..<a]" and ?z = "replicate (6 * (a * b)) (0 :: u8)"
  have "bgra_to_yuv420p bgra width height = (Ok (fill (ref_cell bgra a b) (concat (map (\<lambda>(i, j). cells a b i j) ?ps)) ?z) :: (bytes, 'e) outcome)"
    using yuv_blocks_fill [of ?ps b a bgra ?z] assms(4)
    unfolding bgra_to_yuv420p_def Let_def s assms(1,2) step_by_2_even product_map by (simp add: case_prod_beta)
  moreover have "fill (ref_cell bgra a b) (concat (map (\<lambda>(i, j). cells a b i j) ?ps)) ?z ! k = ref_cell bgra a b k" if k: "k < 6 * (a * b)" for k
  proof -
    obtain i j where "i < b" "j < a" "k \<in> set (cells a b i j)" using cells_cover [OF k] .
    then have "k \<in> set (concat (map (\<lambda>(i, j). cells a b i j) ?ps))" by force
    then show ?thesis using k by (simp add: nth_fill)
  qed
  ultimately show ?thesis by simp
qed

lemma byte_div:
  assumes "0 \<le> s" "s < 65536"
  shows "s div 256 mod 256 = s div (256 :: int)"
  using zdiv_mono1 [of s 65535 256] assms by (intro mod_pos_pos_trivial) (simp_all add: pos_imp_zdiv_nonneg_iff)

lemma luma_value:
  assumes "r \<in> {0..255}" "g \<in> {0..255}" "b \<in> {0..255}"
  shows "uint (luma r g b) = (77 * r + 150 * g + 29 * b + 128) div 256"
proof -
  have "0 \<le> 77 * r + 150 * g + 29 * b + 128" "77 * r + 150 * g + 29 * b + 128 < 65536" using assms by simp_all
  then have "(77 * r + 150 * g + 29 * b + 128) div 256 mod 256 = (77 * r + 150 * g + 29 * b + 128) div 256"
    by (rule byte_div)
  then show ?thesis by (simp add: luma_def unsigned_of_int drop_bit_eq_div take_bit_eq_mod)
qed

lemma uint_byte: "uint (x :: u8) \<in> {0..255}"
  using uint_lt2p [of x] by simp

lemma ref_y_value:
  "uint (ref_y bgra k) = (77 * uint (bgra ! (4 * k + 2)) + 150 * uint (bgra ! (4 * k + 1)) + 29 * uint (bgra ! (4 * k)) + 128) div 256"
  unfolding ref_y_def channels_def prod.case by (intro luma_value uint_byte)


text \<open>An image of odd height or width with nothing behind its last pixel makes the conversion panic.\<close>

lemma odd_image_panics: "bgra_to_yuv420p [b, g, r, a] 1 1 = Panic"
  by (simp add: bgra_to_yuv420p_def step_by_2_def yuv_block_def pixel_def rd_def Let_def)


section \<open>The stream recovers from dropped frames\<close>

text \<open>
  What OpenH264 promises: the first picture of an encoder and the first picture after a request for an intra frame are IDR pictures.  \<open>pending\<close>
  says that the next picture of an encoder will be one; a failed attempt does not consume it.
\<close>

definition h264_contract :: "'h openh264 \<Rightarrow> ('h \<Rightarrow> bool) \<Rightarrow> bool" where
  "h264_contract H pending \<longleftrightarrow>
     (\<forall>h. h264_new H = Ok h \<longrightarrow> pending h) \<and> (\<forall>h. pending (h264_force_intra H h)) \<and>
     (\<forall>h src p h'. pending h \<longrightarrow> h264_encode H h src = (Ok p, h') \<longrightarrow> is_idr p) \<and>
     (\<forall>h src e h'. pending h \<longrightarrow> h264_encode H h src = (Err e, h') \<longrightarrow> pending h')"

definition next_is_idr :: "('h \<Rightarrow> bool) \<Rightarrow> 'h h264_backend \<Rightarrow> bool" where
  "next_is_idr pending B \<longleftrightarrow> (case be_encoder B of Some h \<Rightarrow> pending h | None \<Rightarrow> True)"

text \<open>The encoded frames with their fates.\<close>

fun pipeline_trace :: "'h openh264 \<Rightarrow> 'h encoder_thread \<Rightarrow> (frame list \<times> try_send) list \<Rightarrow> (encoded_frame \<times> try_send) list" where
  "pipeline_trace H T [] = []"
| "pipeline_trace H T ((batch, send) # xs) =
     (case fst (encode_newest H T batch) of Ok ef \<Rightarrow> if batch \<noteq> [] \<and> send \<noteq> Closed then [(ef, send)] else [] | _ \<Rightarrow> []) @
     (case snd (pipeline_step H T (batch, send)) of Some T' \<Rightarrow> pipeline_trace H T' xs | None \<Rightarrow> [])"

lemma pipeline_run_trace: "pipeline_run H T xs = map fst (filter (\<lambda>x. snd x = Sent) (pipeline_trace H T xs))"
proof (induction xs arbitrary: T)
  case (Cons x xs)
  obtain batch send where x: "x = (batch, send)" by force
  obtain r B where "encode_newest H T batch = (r, B)" by force
  then show ?case using Cons.IH unfolding x by (cases r; cases send) (simp_all add: pipeline_step_def)
qed simp

lemma force_keyframe_next: "h264_contract H pending \<Longrightarrow> next_is_idr pending (force_keyframe H B)"
  by (simp add: h264_contract_def next_is_idr_def force_keyframe_def split: option.splits)

lemma ensure_started_next:
  assumes "h264_contract H pending" "next_is_idr pending B" "ensure_started H B f = (r, B')"
  shows "next_is_idr pending B'"
  using assms
  by (cases "h264_new H") (auto simp: h264_contract_def next_is_idr_def ensure_started_def backend_start_def split: if_splits)

lemma keyframe_due_next: "h264_contract H pending \<Longrightarrow> next_is_idr pending B \<Longrightarrow> next_is_idr pending (keyframe_due H B)"
  by (auto simp: h264_contract_def next_is_idr_def keyframe_due_def split: option.splits)

lemma encode_picture_next:
  assumes "h264_contract H pending" "pending h" "be_encoder B = Some h" "encode_picture H B h f seq = (r, B')"
  shows "(\<forall>ef. r = Ok ef \<longrightarrow> ef_frame_type ef = IFrame) \<and> (\<forall>e. r = Err e \<longrightarrow> next_is_idr pending B')"
proof (cases "obind (bgra_to_yuv420p (fr_buffer f) (fr_width f) (fr_height f)) (planes (be_width B) (be_height B)) :: (yuv_source, encoder_error) outcome")
  case (Ok src)
  obtain x h' where e: "h264_encode H h src = (x, h')" by force
  have "x = Ok p \<Longrightarrow> is_idr p" "x = Err y \<Longrightarrow> pending h'" for p y
    using assms(1,2) e unfolding h264_contract_def by blast+
  then show ?thesis using assms(4) Ok e by (cases x) (auto simp: encode_picture_def next_is_idr_def Let_def)
qed (use assms in \<open>auto simp: encode_picture_def next_is_idr_def\<close>)

lemma backend_encode_next:
  assumes "h264_contract H pending" "next_is_idr pending B" "backend_encode_frame H B f seq = (r, B')"
  shows "(\<forall>ef. r = Ok ef \<longrightarrow> ef_frame_type ef = IFrame) \<and> (\<forall>e. r = Err e \<longrightarrow> next_is_idr pending B')"
proof (cases "has_pixels f")
  case False
  then show ?thesis using assms(2,3) by (auto simp: backend_encode_frame_def)
next
  case True
  obtain s B1 where es: "ensure_started H B f = (s, B1)" by force
  note n1 = ensure_started_next [OF assms(1,2) es]
  show ?thesis
  proof (cases s)
    case (Ok u)
    note n2 = keyframe_due_next [OF assms(1) n1]
    show ?thesis
    proof (cases "be_encoder (keyframe_due H B1)")
      case None
      then show ?thesis using assms(3) True es Ok n2 by (auto simp: backend_encode_frame_def Let_def)
    next
      case (Some h)
      then have "pending h" using n2 by (simp add: next_is_idr_def)
      then show ?thesis
        using encode_picture_next [OF assms(1) _ Some] assms(3) True es Ok Some by (simp add: backend_encode_frame_def Let_def)
    qed
  qed (use assms(3) True es n1 in \<open>auto simp: backend_encode_frame_def\<close>)
qed

lemma encode_newest_next:
  assumes "h264_contract H pending" "next_is_idr pending (et_backend T)" "encode_newest H T batch = (r, B')"
  shows "(\<forall>ef. r = Ok ef \<longrightarrow> ef_frame_type ef = IFrame) \<and> (\<forall>e. r = Err e \<longrightarrow> next_is_idr pending B')"
proof -
  let ?B = "if fr_is_refresh (last batch) then force_keyframe H (et_backend T) else et_backend T"
  have "next_is_idr pending ?B" using assms(2) force_keyframe_next [OF assms(1)] by simp
  from backend_encode_next [OF assms(1) this] show ?thesis using assms(3) by (simp add: encode_newest_def Let_def)
qed

definition follows_gap :: "encoded_frame \<times> try_send \<Rightarrow> encoded_frame \<times> try_send \<Rightarrow> bool" where
  "follows_gap x y \<longleftrightarrow> snd x = Sent \<or> ef_frame_type (fst y) = IFrame"

lemma pipeline_trace_gaps:
  assumes "h264_contract H pending"
  shows "successively follows_gap (pipeline_trace H T xs) \<and>
    (next_is_idr pending (et_backend T) \<longrightarrow> pipeline_trace H T xs = [] \<or> ef_frame_type (fst (hd (pipeline_trace H T xs))) = IFrame)"
proof (induction xs arbitrary: T)
  case (Cons x xs)
  obtain batch send where x: "x = (batch, send)" by force
  obtain r B where e: "encode_newest H T batch = (r, B)" by force
  note n = encode_newest_next [OF assms _ e]
  show ?case
  proof (cases "batch = [] \<or> r = Panic \<or> (\<exists>ef. r = Ok ef \<and> send = Closed)")
    case True
    then show ?thesis using e unfolding x by (auto simp: pipeline_step_def split: outcome.splits try_send.splits)
  next
    case False
    then consider err where "r = Err err" | ef where "r = Ok ef" "send = Sent" | ef where "r = Ok ef" "send = Full"
      by (cases r; cases send) auto
    then show ?thesis
    proof cases
      case 1
      then show ?thesis using Cons.IH [of "T\<lparr>et_backend := B\<rparr>"] n e False unfolding x by (simp add: pipeline_step_def)
    next
      case 2
      then show ?thesis
        using Cons.IH [of "\<lparr>et_backend = B, et_sequence = et_sequence T + 1\<rparr>"] n e False
        unfolding x by (auto simp: pipeline_step_def successively_Cons follows_gap_def)
    next
      case 3
      then show ?thesis
        using Cons.IH [of "T\<lparr>et_backend := force_keyframe H B\<rparr>"] n e False force_keyframe_next [OF assms]
        unfolding x by (auto simp: pipeline_step_def successively_Cons follows_gap_def)
    qed
  qed
qed simp

lemma encode_picture_sequence: "encode_picture H B h f seq = (Ok ef, B') \<Longrightarrow> ef_sequence ef = seq"
  by (auto simp: encode_picture_def Let_def split: outcome.splits prod.splits)

lemma encode_newest_sequence: "encode_newest H T batch = (Ok ef, B') \<Longrightarrow> ef_sequence ef = et_sequence T"
  by (auto simp: encode_newest_def backend_encode_frame_def Let_def encode_picture_sequence
    split: if_splits outcome.splits prod.splits option.splits)

lemma pipeline_run_sequence:
  "map ef_sequence (pipeline_run H T xs) = map (\<lambda>i. et_sequence T + of_nat i) [0..<length (pipeline_run H T xs)]"
proof (induction xs arbitrary: T)
  case (Cons x xs)
  obtain batch send where x: "x = (batch, send)" by force
  obtain r B where e: "encode_newest H T batch = (r, B)" by force
  let ?T = "\<lparr>et_backend = B, et_sequence = et_sequence T + 1\<rparr>"
  show ?case
  proof (cases "batch \<noteq> [] \<and> (\<exists>ef. r = Ok ef) \<and> send = Sent")
    case True
    then obtain ef where "r = Ok ef" by blast
    moreover have "[0..<Suc n] = 0 # map Suc [0..<n]" for n by (simp add: map_Suc_upt upt_conv_Cons)
    ultimately show ?thesis
      using True e encode_newest_sequence [of H T batch ef B] Cons.IH [of ?T] unfolding x
      by (simp add: pipeline_step_def add.assoc del: upt_Suc)
  next
    case False
    then show ?thesis using e Cons.IH unfolding x by (cases r; cases send) (auto simp: pipeline_step_def)
  qed
qed simp

text \<open>C17: The video stream recovers from every dropped frame.  With an encoder that starts with an IDR picture and honours requests for intra frames, the
  first encoded frame is a keyframe, and so is every frame encoded after one that was dropped because the channel was full: a
  frame that depends on others is only sent when its predecessor was sent.  The frames that are sent are numbered consecutively from 0.\<close>
theorem pipeline_resync:
  assumes "h264_contract H pending" "tr = pipeline_trace H thread_new xs" "sent = pipeline_run H thread_new xs"
  shows "sent = map fst (filter (\<lambda>x. snd x = Sent) tr) \<and> successively follows_gap tr \<and> (tr = [] \<or> ef_frame_type (fst (hd tr)) = IFrame) \<and>
    map ef_sequence sent = map of_nat [0..<length sent]"
  using pipeline_trace_gaps [OF assms(1), of thread_new xs] pipeline_run_trace [of H thread_new xs] pipeline_run_sequence [of H thread_new xs]
  unfolding assms(2,3) by (simp add: thread_new_def backend_new_def next_is_idr_def)

definition demo_h264 :: "bool openh264" where
  "demo_h264 = \<lparr>h264_new = Ok True, h264_force_intra = (\<lambda>_. True),
     h264_encode = (\<lambda>h _. (Ok (if h then [0, 0, 0, 1, 0x65] else [0, 0, 0, 1, 0x41]), False))\<rparr>"

lemma demo_h264_contract: "h264_contract demo_h264 id"
  by (simp add: h264_contract_def demo_h264_def is_idr_def idr_at_def)

definition demo_frame :: frame where
  "demo_frame = \<lparr>fr_width = 2, fr_height = 2, fr_stride = 8, fr_timestamp_us = 0, fr_pixel_format = Bgra8, fr_buffer = replicate 16 0,
     fr_dirty_rects = [], fr_move_rects = [], fr_cursor = None, fr_is_refresh = False\<rparr>"

theorem pipeline_resync_witness:
  "successively follows_gap (pipeline_trace demo_h264 thread_new [([demo_frame], Sent), ([demo_frame], Full), ([demo_frame], Sent)])"
  using pipeline_resync [OF demo_h264_contract refl refl] by blast

text \<open>The stride of a frame plays no part: rows that are padded are read as if they were not.\<close>

lemma encode_ignores_stride: "backend_encode_frame H B (f\<lparr>fr_stride := s\<rparr>) seq = backend_encode_frame H B f seq"
proof -
  let ?f = "f\<lparr>fr_stride := s\<rparr>"
  have fields: "fr_width ?f = fr_width f" "fr_height ?f = fr_height f" "fr_buffer ?f = fr_buffer f" "fr_timestamp_us ?f = fr_timestamp_us f"
    by simp_all
  show ?thesis
    unfolding backend_encode_frame_def has_pixels_def ensure_started_def encode_picture_def fields by (rule refl)
qed

end
