(* ===== verification/BW_Display.thy ===== *)
theory BW_Display
  imports BW_Encode BW_Forwarding BW_Message
begin

text \<open>
  From the encoder to the window: the cursor compositor and the video sender of \<^verbatim>\<open>bw-server/src/main.rs\<close>, the decoder of \<^verbatim>\<open>bw-decoder\<close>, and
  the receiver task and the blit of \<^verbatim>\<open>bw-client/src/main.rs\<close>.  The H.264 decoder is a parameter.
\<close>

section \<open>The server side\<close>

definition compose_cursor :: "frame \<Rightarrow> (frame, 'e) outcome" where
  "compose_cursor f =
     (case fr_cursor f of
        None \<Rightarrow> Ok f
      | Some cursor \<Rightarrow>
          obind (composite_cursor (fr_buffer f) (fr_stride f) (fr_width f) (fr_height f) (ci_x cursor) (ci_y cursor) (ci_visible cursor))
            (\<lambda>buffer. Ok (f\<lparr>fr_buffer := buffer\<rparr>)))"

text \<open>The compositor takes the newest frame of a batch and hands it to the encoder as long as that listens.\<close>

fun compositor_run :: "(frame list \<times> bool) list \<Rightarrow> frame list" where
  "compositor_run [] = []"
| "compositor_run ((batch, listening) # xs) =
     (if batch = [] then []
      else case compose_cursor (last batch) :: (frame, unit) outcome of
             Ok f \<Rightarrow> if listening then f # compositor_run xs else []
           | _ \<Rightarrow> [])"

definition video_message :: "video_payload cbor \<Rightarrow> encoded_frame \<Rightarrow> (protocol_message, protocol_error) outcome" where
  "video_message vb f = video_data vb \<lparr>encoded_frame = ef_to_bytes f\<rparr>"

text \<open>The sender of video takes the encoded frames as they come, and stops when the queue of outgoing messages is closed.\<close>

fun video_sender :: "video_payload cbor \<Rightarrow> (encoded_frame \<times> bool) list \<Rightarrow> protocol_message list" where
  "video_sender vb [] = []"
| "video_sender vb ((f, listening) # fs) =
     (case video_message vb f of
        Ok m \<Rightarrow> if listening then m # video_sender vb fs else []
      | _ \<Rightarrow> video_sender vb fs)"

section \<open>The decoder\<close>

record decoded_image =
  di_width :: u32
  di_height :: u32
  di_rgb :: bytes

datatype decoder_error =
    DecoderInitFailed string | DecodeFailed string | UnsupportedCodec video_codec | EmptyPayload | InvalidDimensions nat nat

text \<open>A decoded picture has its dimensions and can be written to a buffer of RGB pixels.\<close>

record yuv_picture =
  yp_width :: nat
  yp_height :: nat
  yp_write_rgb8 :: "bytes \<Rightarrow> bytes"

record 'd h264_decoder =
  hd_new :: "('d, string) outcome"
  hd_decode :: "'d \<Rightarrow> bytes \<Rightarrow> (yuv_picture option, string) outcome \<times> 'd"

definition decoder_new :: "'d h264_decoder \<Rightarrow> ('d, decoder_error) outcome" where
  "decoder_new L = map_err DecoderInitFailed (hd_new L)"

definition decoder_decode :: "'d h264_decoder \<Rightarrow> 'd \<Rightarrow> encoded_frame \<Rightarrow> (decoded_image option, decoder_error) outcome \<times> 'd" where
  "decoder_decode L d f =
     (if ef_codec f \<noteq> H264 then (Err (UnsupportedCodec (ef_codec f)), d)
      else if ef_payload f = [] then (Err EmptyPayload, d)
      else case hd_decode L d (ef_payload f) of
             (Err e, d') \<Rightarrow> (Err (DecodeFailed e), d')
           | (Panic, d') \<Rightarrow> (Panic, d')
           | (Ok None, d') \<Rightarrow> (Ok None, d')
           | (Ok (Some yuv), d') \<Rightarrow>
               let width = yp_width yuv; height = yp_height yuv
               in if width = 0 \<or> height = 0 then (Err (InvalidDimensions width height), d')
                  else (Ok (Some \<lparr>di_width = of_nat width, di_height = of_nat height,
                     di_rgb = yp_write_rgb8 yuv (replicate (width * height * 3) 0)\<rparr>), d'))"

section \<open>The receiver task of the client\<close>

definition incoming_envelope :: "protocol_message \<Rightarrow> node_id \<Rightarrow> node_id \<Rightarrow> message_envelope" where
  "incoming_envelope m client server = \<lparr>env_source = server, env_destination = client, env_session_id = SessionId (replicate 16 0),
     env_route = Direct, env_message = m, env_routing_flags = 0\<rparr>"

definition handle_incoming_message :: "'s dispatcher \<Rightarrow> protocol_message \<Rightarrow> node_id \<Rightarrow> node_id \<Rightarrow> 's \<Rightarrow> (unit, dispatch_error) outcome \<times> 's" where
  "handle_incoming_message D m client server st = dispatch D (incoming_envelope m client server) st"

text \<open>The images that go to the window, from what the connection yields and whether the window is still there for a picture.\<close>

fun client_receive :: "'s dispatcher \<Rightarrow> video_payload cbor \<Rightarrow> 'd h264_decoder \<Rightarrow> node_id \<Rightarrow> node_id \<Rightarrow>
    ((protocol_message, 'e) outcome \<times> bool) list \<Rightarrow> 'd \<Rightarrow> 's \<Rightarrow> decoded_image list \<times> 's" where
  "client_receive D vb L client server [] d st = ([], st)"
| "client_receive D vb L client server ((r, window_open) # rs) d st =
     (case r of
        Ok m \<Rightarrow>
          (case as_video_data vb m of
             Some payload \<Rightarrow>
               (case ef_from_bytes (encoded_frame payload) of
                  Ok f \<Rightarrow>
                    (case decoder_decode L d f of
                       (Ok (Some img), d') \<Rightarrow>
                         if window_open then case client_receive D vb L client server rs d' st of (imgs, s) \<Rightarrow> (img # imgs, s) else ([], st)
                     | (Panic, d') \<Rightarrow> ([], st)
                     | (_, d') \<Rightarrow> client_receive D vb L client server rs d' st)
                | _ \<Rightarrow> client_receive D vb L client server rs d st)
           | None \<Rightarrow>
               (case handle_incoming_message D m client server st of
                  (Panic, st') \<Rightarrow> ([], st')
                | (_, st') \<Rightarrow> client_receive D vb L client server rs d st'))
      | _ \<Rightarrow> ([], st))"

definition receiver_task :: "'s dispatcher \<Rightarrow> video_payload cbor \<Rightarrow> 'd h264_decoder \<Rightarrow> node_id \<Rightarrow> node_id \<Rightarrow>
    ((protocol_message, 'e) outcome \<times> bool) list \<Rightarrow> 's \<Rightarrow> decoded_image list \<times> 's" where
  "receiver_task D vb L client server rs st =
     (case decoder_new L of Ok d \<Rightarrow> client_receive D vb L client server rs d st | _ \<Rightarrow> ([], st))"

section \<open>The blit\<close>

datatype scale_mode = NearestNeighbor | Bilinear

record blit_context =
  bc_rgb :: bytes
  src_w :: nat
  src_h :: nat
  src_stride :: nat
  dst_w :: nat
  dst_h :: nat
  dst_stride :: nat
  x_scale :: rat
  y_scale :: rat
  src_max_x :: rat
  src_max_y :: rat

text \<open>Single-precision arithmetic: a value is a rational and every operation rounds its exact result to 24 significant bits, ties to even.\<close>

definition f32_exponent :: "rat \<Rightarrow> int" where
  "f32_exponent x =
     (case quotient_of x of (p, q) \<Rightarrow>
        let e = int (floorlog 2 (nat p)) - int (floorlog 2 (nat q)) - 24
        in if x < 2 powi (e + 24) then e else e + 1)"

definition f32 :: "rat \<Rightarrow> rat" where
  "f32 x =
     (if x = 0 then 0
      else let e = f32_exponent \<bar>x\<bar>
           in sgn x * of_int (round_half_even (\<bar>x\<bar> / 2 powi e)) * 2 powi e)"

definition f32_of_nat :: "nat \<Rightarrow> rat" where
  "f32_of_nat n = f32 (of_nat n)"

definition blit_new :: "bytes \<Rightarrow> nat \<Rightarrow> nat \<Rightarrow> nat \<Rightarrow> nat \<Rightarrow> blit_context" where
  "blit_new rgb sw sh dw dh =
     \<lparr>bc_rgb = rgb, src_w = sw, src_h = sh, src_stride = sw * 3, dst_w = dw, dst_h = dh, dst_stride = dw * 4,
      x_scale = f32 (f32_of_nat sw / f32_of_nat dw), y_scale = f32 (f32_of_nat sh / f32_of_nat dh),
      src_max_x = f32_of_nat (sw - 1), src_max_y = f32_of_nat (sh - 1)\<rparr>"

definition nearest_pixel :: "blit_context \<Rightarrow> bytes \<Rightarrow> nat \<times> nat \<Rightarrow> bytes" where
  "nearest_pixel b out = (\<lambda>(y, x).
     let src_row = y * src_h b div dst_h b * src_stride b; dst_row = y * dst_stride b;
         si = src_row + x * src_w b div dst_w b * 3; di = dst_row + x * 4
     in if si + 3 \<le> length (bc_rgb b) \<and> di + 4 \<le> length out
        then out[di := bc_rgb b ! si, di + 1 := bc_rgb b ! (si + 1), di + 2 := bc_rgb b ! (si + 2), di + 3 := 0xFF]
        else out)"

definition blit_nearest :: "blit_context \<Rightarrow> bytes \<Rightarrow> bytes" where
  "blit_nearest b out = foldl (nearest_pixel b) out (List.product [0..<dst_h b] [0..<dst_w b])"

text \<open>The two source positions of a coordinate and the fraction between them.\<close>

definition sample :: "rat \<Rightarrow> rat \<Rightarrow> nat \<Rightarrow> nat \<Rightarrow> nat \<times> nat \<times> rat" where
  "sample scale hi extent dst =
     (let s_f = f32 (f32 (f32 (f32_of_nat dst + 1 / 2) * scale) - 1 / 2);
          s_clamped = (if s_f < 0 then 0 else if s_f > hi then hi else s_f);
          s0 = nat \<lfloor>s_clamped\<rfloor>
      in (s0, min (s0 + 1) (extent - 1), f32 (s_clamped - f32_of_nat s0)))"

definition to_u8 :: "rat \<Rightarrow> u8" where
  "to_u8 v = of_int (max 0 (min 255 (if v < 0 then - \<lfloor>- v + 1 / 2\<rfloor> else \<lfloor>v + 1 / 2\<rfloor>)))"

definition blend :: "bytes \<Rightarrow> rat \<times> rat \<Rightarrow> nat \<times> nat \<times> nat \<times> nat \<Rightarrow> nat \<Rightarrow> (u8, 'e) outcome" where
  "blend rgb = (\<lambda>(fx, fy) (p00, p10, p01, p11) c.
     let w00 = f32 (f32 (1 - fx) * f32 (1 - fy)); w10 = f32 (fx * f32 (1 - fy)); w01 = f32 (f32 (1 - fx) * fy); w11 = f32 (fx * fy)
     in obind (rd rgb (p00 + c)) (\<lambda>v00. obind (rd rgb (p10 + c)) (\<lambda>v10. obind (rd rgb (p01 + c)) (\<lambda>v01. obind (rd rgb (p11 + c)) (\<lambda>v11.
        let v1 = f32 (f32 (w00 * of_int v00) + f32 (w10 * of_int v10)); v2 = f32 (v1 + f32 (w01 * of_int v01)); v = f32 (v2 + f32 (w11 * of_int v11))
        in Ok (to_u8 v))))))"

fun bilinear_row :: "blit_context \<Rightarrow> nat \<Rightarrow> nat \<times> nat \<times> rat \<Rightarrow> nat list \<Rightarrow> bytes \<Rightarrow> (bytes, 'e) outcome" where
  "bilinear_row b dst_row (sy0, sy1, fy) [] out = Ok out"
| "bilinear_row b dst_row (sy0, sy1, fy) (x # xs) out =
     (let di = dst_row + x * 4 in
      if di + 4 > length out then Ok out
      else case sample (x_scale b) (src_max_x b) (src_w b) x of
        (sx0, sx1, fx) \<Rightarrow>
          let p00 = sy0 * src_stride b + sx0 * 3; p10 = sy0 * src_stride b + sx1 * 3;
              p01 = sy1 * src_stride b + sx0 * 3; p11 = sy1 * src_stride b + sx1 * 3
          in if p11 + 3 > length (bc_rgb b) then Ok out
             else obind (blend (bc_rgb b) (fx, fy) (p00, p10, p01, p11) 0) (\<lambda>v0.
                  obind (blend (bc_rgb b) (fx, fy) (p00, p10, p01, p11) 1) (\<lambda>v1.
                  obind (blend (bc_rgb b) (fx, fy) (p00, p10, p01, p11) 2) (\<lambda>v2.
                  bilinear_row b dst_row (sy0, sy1, fy) xs (out[di := v0, di + 1 := v1, di + 2 := v2, di + 3 := 0xFF])))))"

fun bilinear_rows :: "blit_context \<Rightarrow> nat list \<Rightarrow> bytes \<Rightarrow> (bytes, 'e) outcome" where
  "bilinear_rows b [] out = Ok out"
| "bilinear_rows b (y # ys) out =
     obind (bilinear_row b (y * dst_stride b) (sample (y_scale b) (src_max_y b) (src_h b) y) [0..<dst_w b] out) (bilinear_rows b ys)"

definition blit_bilinear :: "blit_context \<Rightarrow> bytes \<Rightarrow> (bytes, 'e) outcome" where
  "blit_bilinear b out =
     (if src_w b = dst_w b \<and> src_h b = dst_h b then Ok (blit_nearest b out) else bilinear_rows b [0..<dst_h b] out)"

definition blit_rgb_to_frame :: "bytes \<Rightarrow> decoded_image \<Rightarrow> u32 \<Rightarrow> u32 \<Rightarrow> scale_mode \<Rightarrow> (bytes, 'e) outcome" where
  "blit_rgb_to_frame buf img win_w win_h mode =
     (let out = replicate (length buf) 0 in
      if di_rgb img = [] \<or> di_width img = 0 \<or> di_height img = 0 then Ok out
      else let b = blit_new (di_rgb img) (unat (di_width img)) (unat (di_height img)) (unat win_w) (unat win_h)
           in case mode of NearestNeighbor \<Rightarrow> Ok (blit_nearest b out) | Bilinear \<Rightarrow> blit_bilinear b out)"

section \<open>Video end to end\<close>

text \<open>The pictures of a sequence of frames, and the frames that are lost in the decoder.\<close>

fun decode_all :: "'d h264_decoder \<Rightarrow> 'd \<Rightarrow> encoded_frame list \<Rightarrow> decoded_image list" where
  "decode_all L d [] = []"
| "decode_all L d (f # fs) =
     (case decoder_decode L d f of
        (Ok (Some img), d') \<Rightarrow> img # decode_all L d' fs
      | (Panic, d') \<Rightarrow> []
      | (_, d') \<Rightarrow> decode_all L d' fs)"

text \<open>OpenH264 writes a byte stream in Annex B format: it begins with a start code.\<close>

definition annex_b :: "'h openh264 \<Rightarrow> bool" where
  "annex_b H \<longleftrightarrow> (\<forall>h src p h'. h264_encode H h src = (Ok p, h') \<longrightarrow> 4 < length p \<and> length p < 2 ^ 32 \<and> nal_start p)"

lemma annex_bD: "annex_b H \<Longrightarrow> h264_encode H h src = (Ok p, h') \<Longrightarrow> 4 < length p \<and> length p < 2 ^ 32 \<and> nal_start p"
  unfolding annex_b_def by blast

lemma encode_picture_payload:
  assumes "annex_b H" "encode_picture H B h f seq = (Ok ef, B')"
  shows "ef_codec ef = H264 \<and> 4 < length (ef_payload ef) \<and> length (ef_payload ef) < 2 ^ 32 \<and> nal_start (ef_payload ef)"
  using assms(2) annex_bD [OF assms(1)] by (auto simp: encode_picture_def Let_def split: outcome.splits prod.splits)

lemma encode_newest_payload:
  assumes "annex_b H" "encode_newest H T batch = (Ok ef, B)"
  shows "ef_codec ef = H264 \<and> 4 < length (ef_payload ef) \<and> length (ef_payload ef) < 2 ^ 32 \<and> nal_start (ef_payload ef)"
  using assms(2) encode_picture_payload [OF assms(1)]
  by (auto simp: encode_newest_def backend_encode_frame_def Let_def split: if_splits outcome.splits prod.splits option.splits)

lemma pipeline_run_payload:
  assumes "annex_b H" "ef \<in> set (pipeline_run H T xs)"
  shows "ef_codec ef = H264 \<and> 4 < length (ef_payload ef) \<and> length (ef_payload ef) < 2 ^ 32 \<and> nal_start (ef_payload ef)"
  using assms(2)
proof (induction xs arbitrary: T)
  case (Cons x xs)
  obtain batch send where x: "x = (batch, send)" by force
  obtain r B where e: "encode_newest H T batch = (r, B)" by force
  show ?case
    using Cons encode_newest_payload [OF assms(1), of T batch] e unfolding x
    by (cases r; cases send) (auto simp: pipeline_step_def split: if_splits)
qed simp

lemma ef_from_to_bytes:
  assumes "ef_codec f = H264" "4 < length (ef_payload f)" "length (ef_payload f) < 2 ^ 32" "nal_start (ef_payload f)"
  shows "ef_from_bytes (ef_to_bytes f) = Ok f"
proof -
  have "ef_image f (frame_type_byte (ef_frame_type f)) = ef_to_bytes f" by (simp add: ef_image_def ef_to_bytes_def)
  moreover have "frame_type_of (frame_type_byte (ef_frame_type f)) = ef_frame_type f" by (cases "ef_frame_type f") (simp_all add: frame_type_of_def)
  ultimately show ?thesis using ef_from_image [of f "frame_type_byte (ef_frame_type f)"] assms by simp
qed

lemma video_message_Ok:
  assumes "cbor_contract vb"
  shows "(\<exists>m. video_message vb f = Ok m \<and> as_video_data vb m = Some \<lparr>encoded_frame = ef_to_bytes f\<rparr>) \<or>
    video_message vb f = Err SerializationError \<and> into_writer vb \<lparr>encoded_frame = ef_to_bytes f\<rparr> = None"
  using cbor_contractD [OF assms] by (cases "into_writer vb \<lparr>encoded_frame = ef_to_bytes f\<rparr>")
    (auto simp: video_message_def video_data_def as_video_data_def outcome_simps)

lemma receive_sent_frames:
  assumes "cbor_contract vb" "\<forall>f \<in> set fs. ef_from_bytes (ef_to_bytes f) = Ok f"
  shows "fst (client_receive D vb L client server (map (\<lambda>m. (Ok m :: (_, 'e) outcome, True)) (video_sender vb (map (\<lambda>f. (f, True)) fs))) d st) =
    decode_all L d (filter (\<lambda>f. into_writer vb \<lparr>encoded_frame = ef_to_bytes f\<rparr> \<noteq> None) fs)"
  using assms(2)
proof (induction fs arbitrary: d)
  case (Cons f fs)
  from video_message_Ok [OF assms(1), of f] show ?case
  proof (elim disjE exE conjE)
    fix m assume m: "video_message vb f = Ok m" "as_video_data vb m = Some \<lparr>encoded_frame = ef_to_bytes f\<rparr>"
    then have "into_writer vb \<lparr>encoded_frame = ef_to_bytes f\<rparr> \<noteq> None" by (auto simp: video_message_def video_data_def outcome_simps)
    with m Cons show ?thesis by (cases "decoder_decode L d f") (auto simp: case_prod_beta split: outcome.splits option.splits)
  qed (use Cons in simp)
qed simp


definition plain_cbor :: "video_payload cbor" where
  "plain_cbor = \<lparr>into_writer = \<lambda>p. Some (encoded_frame p), from_reader = \<lambda>bs. Some \<lparr>encoded_frame = bs\<rparr>\<rparr>"

lemma demo_h264_annex_b: "annex_b demo_h264"
  by (auto simp: annex_b_def demo_h264_def nal_start_def)

text \<open>A decoder that shows the last byte of the stream.\<close>

definition demo_decoder :: "unit h264_decoder" where
  "demo_decoder = \<lparr>hd_new = Ok (), hd_decode = \<lambda>d p. (Ok (Some \<lparr>yp_width = 1, yp_height = 1, yp_write_rgb8 = \<lambda>_. [last p, 0, 0]\<rparr>), d)\<rparr>"

lemma demo_planes:
  "\<exists>src. obind (bgra_to_yuv420p (fr_buffer BW_Encode.demo_frame) (fr_width BW_Encode.demo_frame) (fr_height BW_Encode.demo_frame)) (planes 2 2) =
    (Ok src :: (yuv_source, encoder_error) outcome)"
proof -
  obtain yuv where "bgra_to_yuv420p (replicate 16 0) 2 2 = (Ok yuv :: (bytes, encoder_error) outcome)" "length yuv = 6"
    using yuv_planes [of 2 1 2 1 "replicate 16 0", where 'e = encoder_error] by auto
  then show ?thesis by (simp add: BW_Encode.demo_frame_def planes_def outcome_simps)
qed

lemma demo_payloads:
  "map (\<lambda>f. (ef_codec f, ef_payload f)) (pipeline_run demo_h264 thread_new [([BW_Encode.demo_frame], Sent), ([BW_Encode.demo_frame], Sent)]) =
    [(H264, [0, 0, 0, 1, 0x65]), (H264, [0, 0, 0, 1, 0x41])]"
proof -
  obtain src where src: "obind (bgra_to_yuv420p (fr_buffer BW_Encode.demo_frame) (fr_width BW_Encode.demo_frame) (fr_height BW_Encode.demo_frame)) (planes 2 2) =
    (Ok src :: (yuv_source, encoder_error) outcome)" using demo_planes by blast
  have f: "has_pixels BW_Encode.demo_frame" "fr_width BW_Encode.demo_frame = 2" "fr_height BW_Encode.demo_frame = 2" "\<not> fr_is_refresh BW_Encode.demo_frame"
    by (simp_all add: BW_Encode.demo_frame_def has_pixels_def checked_mul_usize_def)
  have i: "is_idr [0, 0, 0, 1, 0x65]" "\<not> is_idr [0, 0, 0, 1, 0x41]" by (simp_all add: is_idr_def idr_at_def)
  have p: "encode_picture demo_h264 B h BW_Encode.demo_frame seq =
      (let payload = if h then [0, 0, 0, 1, 0x65] else [0, 0, 0, 1, 0x41] in
       (Ok \<lparr>ef_session_id = 0, ef_sequence = seq, ef_timestamp_us = fr_timestamp_us BW_Encode.demo_frame, ef_frame_type = (if h then IFrame else PFrame),
            ef_width = 2, ef_height = 2, ef_codec = H264, ef_payload = payload\<rparr>,
        B\<lparr>be_encoder := Some False, be_since_idr := (if h then 0 else be_since_idr B + 1)\<rparr>))" if "be_width B = 2" "be_height B = 2" for B h seq
    using i that by (simp add: encode_picture_def src demo_h264_def)
  have n: "h264_new demo_h264 = Ok True" by (simp add: demo_h264_def)
  show ?thesis
    by (simp add: pipeline_step_def encode_newest_def backend_encode_frame_def f p n ensure_started_def keyframe_due_def thread_new_def
      backend_new_def backend_start_def default_encoder_config_def outcome_simps)
qed

lemma demo_pictures:
  "map (\<lambda>f. (ef_codec f, ef_payload f)) fs = [(H264, [0, 0, 0, 1, 0x65]), (H264, [0, 0, 0, 1, 0x41])] \<Longrightarrow>
   decode_all demo_decoder () fs =
     [\<lparr>di_width = 1, di_height = 1, di_rgb = [0x65, 0, 0]\<rparr>, \<lparr>di_width = 1, di_height = 1, di_rgb = [0x41, 0, 0]\<rparr>]"
  by (auto simp: decoder_decode_def demo_decoder_def)


section \<open>The blit copies pixels\<close>

text \<open>What the nearest-neighbour blit writes to a cell of the window.\<close>

definition nearest_cell :: "bytes \<Rightarrow> nat \<Rightarrow> nat \<Rightarrow> nat \<Rightarrow> nat \<Rightarrow> nat \<Rightarrow> u8" where
  "nearest_cell rgb sw sh dw dh k =
     (let y = k div 4 div dw; x = k div 4 mod dw
      in if k mod 4 = 3 then 0xFF else rgb ! ((y * sh div dh * sw + x * sw div dw) * 3 + k mod 4))"

lemma nearest_cell_at:
  assumes "x < dw" "c < 4"
  shows "nearest_cell rgb sw sh dw dh ((y * dw + x) * 4 + c) = (if c = 3 then 0xFF else rgb ! ((y * sh div dh * sw + x * sw div dw) * 3 + c))"
proof -
  have "(a * 4 + c) div 4 = a" "(a * 4 + c) mod 4 = c" for a using assms(2) by simp_all
  then show ?thesis unfolding nearest_cell_def using assms(1) by (simp del: distrib_right_numeral)
qed

lemma nearest_pixel_fill:
  assumes "y < dh" "x < dw" "length rgb = sw * sh * 3" "length out = dw * dh * 4" "b = blit_new rgb sw sh dw dh" "0 < sw" "0 < sh"
  shows "nearest_pixel b out (y, x) = fill (nearest_cell rgb sw sh dw dh) (map (\<lambda>c. (y * dw + x) * 4 + c) [0, 1, 2, 3]) out"
proof -
  let ?sy = "y * sh div dh" and ?sx = "x * sw div dw" and ?di = "(y * dw + x) * 4"
  have s: "?sy < sh" "?sx < sw" using assms(1,2,6,7) by (simp_all add: div_less_iff_less_mult mult.commute)
  have si: "(?sy * sw + ?sx) * 3 + 3 \<le> length rgb" using mult_le_mono1 [OF Suc_leI [OF block_room(1) [OF s]], of 3] unfolding assms(3) by simp
  have di: "?di + 4 \<le> length out" using mult_le_mono1 [OF Suc_leI [OF block_room(1) [OF assms(1,2)]], of 4] unfolding assms(4) by simp
  note c = nearest_cell_at [OF assms(2), of _ rgb sw sh dh y]
  have e: "y * (dw * 4) + x * 4 = ?di" "?sy * (sw * 3) + ?sx * 3 = (?sy * sw + ?sx) * 3" by (simp_all add: algebra_simps)
  show ?thesis
    unfolding nearest_pixel_def prod.case assms(5) blit_new_def blit_context.simps Let_def e
    using si di c [of 0] c [of 1] c [of 2] c [of 3] by (simp add: fill_def)
qed

lemma blit_nearest_fill:
  assumes "length rgb = sw * sh * 3" "length out = dw * dh * 4" "b = blit_new rgb sw sh dw dh" "0 < sw" "0 < sh" "set ps \<subseteq> {..<dh} \<times> {..<dw}"
  shows "foldl (nearest_pixel b) out ps =
    fill (nearest_cell rgb sw sh dw dh) (concat (map (\<lambda>(y, x). map (\<lambda>c. (y * dw + x) * 4 + c) [0, 1, 2, 3]) ps)) out"
  using assms(2,6)
proof (induction ps arbitrary: out)
  case Nil
  then show ?case by (simp add: fill_def)
next
  case (Cons p ps)
  obtain y x where p: "p = (y, x)" by (cases p)
  have "nearest_pixel b out (y, x) = fill (nearest_cell rgb sw sh dw dh) (map (\<lambda>c. (y * dw + x) * 4 + c) [0, 1, 2, 3]) out"
    using Cons.prems p assms by (intro nearest_pixel_fill) auto
  with Cons p show ?case by (simp only: foldl_Cons list.map concat.simps prod.case fill_append) simp
qed

lemma blit_nearest_cells:
  assumes "length rgb = sw * sh * 3" "length out = dw * dh * 4" "b = blit_new rgb sw sh dw dh" "0 < sw" "0 < sh"
  shows "length (blit_nearest b out) = dw * dh * 4" "k < dw * dh * 4 \<Longrightarrow> blit_nearest b out ! k = nearest_cell rgb sw sh dw dh k"
proof -
  let ?ps = "List.product [0..<dh] [0..<dw]"
  have b: "blit_nearest b out = fill (nearest_cell rgb sw sh dw dh) (concat (map (\<lambda>(y, x). map (\<lambda>c. (y * dw + x) * 4 + c) [0, 1, 2, 3]) ?ps)) out"
    using blit_nearest_fill [OF assms, of ?ps] by (simp add: blit_nearest_def assms(3) blit_new_def subset_iff)
  then show "length (blit_nearest b out) = dw * dh * 4" using assms(2) by simp
  assume k: "k < dw * dh * 4"
  define p where "p = k div 4"
  have "p < dh * dw" using k by (simp add: p_def mult.commute less_mult_imp_div_less)
  moreover from this have dw: "0 < dw" by (cases dw) auto
  ultimately have yx: "p div dw < dh" "p mod dw < dw" by (simp_all add: less_mult_imp_div_less)
  have mem: "(p div dw, p mod dw) \<in> set ?ps" using yx by simp
  have "k = (p div dw * dw + p mod dw) * 4 + k mod 4" unfolding div_mult_mod_eq by (simp add: p_def)
  moreover have "k mod 4 \<in> set [0, 1, 2, 3]" by auto
  ultimately have "k \<in> set (map (\<lambda>c. (p div dw * dw + p mod dw) * 4 + c) [0, 1, 2, 3])" unfolding set_map by (rule image_eqI)
  then have "k \<in> set (concat (map (\<lambda>(y, x). map (\<lambda>c. (y * dw + x) * 4 + c) [0, 1, 2, 3]) ?ps))"
    unfolding set_concat by (intro UN_I [of "map (\<lambda>c. (p div dw * dw + p mod dw) * 4 + c) [0, 1, 2, 3]"]) (use mem in \<open>force simp only: set_map\<close>)
  then show "blit_nearest b out ! k = nearest_cell rgb sw sh dw dh k" using b k assms(2) by (simp add: nth_fill)
qed

lemma blit_new_sel:
  "src_w (blit_new rgb sw sh dw dh) = sw" "src_h (blit_new rgb sw sh dw dh) = sh" "dst_w (blit_new rgb sw sh dw dh) = dw" "dst_h (blit_new rgb sw sh dw dh) = dh"
  "bc_rgb (blit_new rgb sw sh dw dh) = rgb" "src_stride (blit_new rgb sw sh dw dh) = sw * 3" "dst_stride (blit_new rgb sw sh dw dh) = dw * 4"
  by (simp_all add: blit_new_def)

section \<open>The blit stays inside the picture\<close>

lemma f32_exponent_nat:
  assumes "0 < n" "n < 2 ^ 24"
  shows "f32_exponent (of_nat n) \<le> 0"
proof -
  have "quotient_of (of_nat n) = (int n, 1)" using quotient_of_int [of "int n"] by (simp add: of_rat_of_nat_eq)
  moreover have "floorlog 2 n \<le> 24" using assms(2) by (simp add: floorlog_le_iff)
  moreover have "floorlog 2 1 = 1" by (simp add: floorlog_def)
  ultimately show ?thesis by (auto simp: f32_exponent_def Let_def)
qed

lemma f32_of_nat_exact:
  assumes "n < 2 ^ 24"
  shows "f32_of_nat n = of_nat n"
proof (cases "n = 0")
  case False
  let ?e = "f32_exponent (of_nat n)"
  have "?e \<le> 0" using f32_exponent_nat assms False by simp
  then obtain k where k: "?e = - int k" using nonpos_int_cases by blast
  have "(of_nat n :: rat) / 2 powi ?e = of_int (int (n * 2 ^ k))" by (simp add: k power_int_minus field_simps)
  then have "round_half_even (of_nat n / 2 powi ?e) = int (n * 2 ^ k)" by (simp only: round_half_even_int)
  then show ?thesis using False by (simp add: f32_of_nat_def f32_def Let_def k power_int_minus)
qed (simp add: f32_of_nat_def f32_def)

lemma sample_inside:
  assumes "0 < extent" "extent \<le> 2 ^ 24" "sample scale (f32_of_nat (extent - 1)) extent dst = (s0, s1, f)"
  shows "s0 < extent \<and> s1 < extent \<and> s0 \<le> s1"
proof -
  have hi: "f32_of_nat (extent - 1) = of_nat (extent - 1)" using assms(1,2) by (intro f32_of_nat_exact) simp
  have "nat \<lfloor>if s < 0 then 0 else if s > of_nat (extent - 1) then of_nat (extent - 1) else s :: rat\<rfloor> \<le> extent - 1" for s
    by (simp add: nat_le_iff floor_le_iff)
  moreover obtain s :: rat where "s0 = nat \<lfloor>if s < 0 then 0 else if s > of_nat (extent - 1) then of_nat (extent - 1) else s\<rfloor>" "s1 = min (s0 + 1) (extent - 1)"
    using assms(3) unfolding hi sample_def Let_def prod.inject by metis
  ultimately have "s0 \<le> extent - 1" "s1 = min (s0 + 1) (extent - 1)" by simp_all
  then show ?thesis using assms(1) by linarith
qed

lemma blend_inside:
  assumes "p00 + c < length rgb" "p10 + c < length rgb" "p01 + c < length rgb" "p11 + c < length rgb"
  shows "\<exists>v. blend rgb w (p00, p10, p01, p11) c = Ok v"
  using assms by (cases w) (simp add: blend_def rd_def Let_def)

definition opaque :: "nat list \<Rightarrow> bytes \<Rightarrow> bytes \<Rightarrow> bool" where
  "opaque ks out out' \<longleftrightarrow> length out' = length out \<and> (\<forall>k < length out. k mod 4 = 3 \<and> (out ! k = 0xFF \<or> k \<in> set ks) \<longrightarrow> out' ! k = 0xFF)"

lemma opaque_Nil [simp]: "opaque [] out out"
  by (simp add: opaque_def)

lemma opaque_pixel: "d mod 4 = 0 \<Longrightarrow> opaque [d + 3] out (out[d := v0, d + 1 := v1, d + 2 := v2, d + 3 := 0xFF])"
proof -
  assume d: "d mod 4 = 0"
  let ?out = "out[d := v0, d + 1 := v1, d + 2 := v2, d + 3 := 0xFF]"
  have "?out ! k = 0xFF" if "k < length out" "k mod 4 = 3" "out ! k = 0xFF \<or> k = d + 3" for k
  proof (cases "k = d + 3")
    case False
    moreover have "d \<noteq> k" "d + 1 \<noteq> k" "d + 2 \<noteq> k" using d that(2) by presburger+
    ultimately show ?thesis using that(3) by (simp only: nth_list_update_neq not_sym) simp
  qed (use that(1) in simp)
  then show ?thesis by (simp add: opaque_def)
qed

lemma opaque_trans: "opaque ks out out' \<Longrightarrow> opaque ks' out' out'' \<Longrightarrow> opaque (ks @ ks') out out''"
  by (auto simp: opaque_def)

lemma opaque_cell:
  assumes "opaque (concat (map (\<lambda>y. map (\<lambda>x. (y * dw + x) * 4 + 3) [0..<dw]) [0..<dh])) out out'" "y < dh" "x < dw" "length out = dw * dh * 4"
  shows "out' ! ((y * dw + x) * 4 + 3) = 0xFF"
proof -
  have "(y * dw + x) * 4 + 3 < length out" using mult_le_mono1 [OF Suc_leI [OF block_room(1) [OF assms(2,3)]], of 4] unfolding assms(4) by simp
  moreover have "(y * dw + x) * 4 + 3 \<in> set (concat (map (\<lambda>y. map (\<lambda>x. (y * dw + x) * 4 + 3) [0..<dw]) [0..<dh]))"
    using assms(2,3) by (simp del: distrib_right_numeral) (intro bexI [of _ y] imageI; simp)
  moreover have "((y * dw + x) * 4 + 3) mod 4 = 3" by (simp del: distrib_right_numeral)
  ultimately show ?thesis using assms(1) unfolding opaque_def by blast
qed

lemma bilinear_row_opaque:
  assumes "b = blit_new rgb sw sh dw dh" "length rgb = sw * sh * 3" "0 < sw" "sw \<le> 2 ^ 24" "sy0 < sh" "sy1 < sh" "y < dh"
    "length out = dw * dh * 4" "set xs \<subseteq> {..<dw}"
  shows "\<exists>out'. (bilinear_row b (y * dst_stride b) (sy0, sy1, fy) xs out :: (bytes, 'e) outcome) = Ok out' \<and> opaque (map (\<lambda>x. (y * dw + x) * 4 + 3) xs) out out'"
  using assms(8,9)
proof (induction xs arbitrary: out)
  case (Cons x xs)
  obtain sx0 sx1 fx where sm: "sample (x_scale b) (src_max_x b) (src_w b) x = (sx0, sx1, fx)" by (metis prod_cases3)
  then have sx: "sx0 < sw" "sx1 < sw" using sample_inside [of sw "x_scale b" x sx0 sx1 fx] assms(1,3,4) by (simp_all add: blit_new_def)
  have px: "i * (sw * 3) + j * 3 + 2 < length rgb" if "i < sh" "j < sw" for i j
    using mult_le_mono1 [OF Suc_leI [OF block_room(1) [OF that]], of 3] unfolding assms(2) by (simp add: algebra_simps)
  note inside = px [OF assms(5) sx(1)] px [OF assms(5) sx(2)] px [OF assms(6) sx(1)] px [OF assms(6) sx(2)]
  let ?ps = "(sy0 * (sw * 3) + sx0 * 3, sy0 * (sw * 3) + sx1 * 3, sy1 * (sw * 3) + sx0 * 3, sy1 * (sw * 3) + sx1 * 3)"
  have "\<exists>v. (blend rgb (fx, fy) ?ps c :: (u8, 'e) outcome) = Ok v" if "c \<le> 2" for c using inside that by (intro blend_inside) linarith+
  then obtain v0 v1 v2 where v: "(blend rgb (fx, fy) ?ps 0 :: (u8, 'e) outcome) = Ok v0"
    "(blend rgb (fx, fy) ?ps 1 :: (u8, 'e) outcome) = Ok v1" "(blend rgb (fx, fy) ?ps 2 :: (u8, 'e) outcome) = Ok v2" by (metis le_refl one_le_numeral zero_le)
  let ?d = "y * (dw * 4) + x * 4"
  let ?out = "out[?d := v0, ?d + 1 := v1, ?d + 2 := v2, ?d + 3 := 0xFF]"
  have d: "?d = (y * dw + x) * 4" by (simp add: algebra_simps)
  have room: "?d + 4 \<le> length out" using mult_le_mono1 [OF Suc_leI [OF block_room(1) [OF assms(7), of x dw]], of 4] Cons.prems unfolding d by simp
  obtain out' where out': "(bilinear_row b (y * dst_stride b) (sy0, sy1, fy) xs ?out :: (bytes, 'e) outcome) = Ok out'" "opaque (map (\<lambda>x. (y * dw + x) * 4 + 3) xs) ?out out'"
    using Cons.IH [of ?out] Cons.prems by auto
  have "(bilinear_row b (y * dst_stride b) (sy0, sy1, fy) (x # xs) out :: (bytes, 'e) outcome) = bilinear_row b (y * dst_stride b) (sy0, sy1, fy) xs ?out"
    using room inside(4) sm v by (simp add: assms(1) blit_new_sel Let_def outcome_simps)
  moreover have "opaque [?d + 3] out ?out" by (rule opaque_pixel) (simp add: d)
  ultimately show ?case using opaque_trans [OF _ out'(2), of "[?d + 3]" out] out'(1) d by auto
qed simp

lemma bilinear_rows_opaque:
  assumes "b = blit_new rgb sw sh dw dh" "length rgb = sw * sh * 3" "0 < sw" "sw \<le> 2 ^ 24" "0 < sh" "sh \<le> 2 ^ 24"
    "length out = dw * dh * 4" "set ys \<subseteq> {..<dh}"
  shows "\<exists>out'. (bilinear_rows b ys out :: (bytes, 'e) outcome) = Ok out' \<and>
    opaque (concat (map (\<lambda>y. map (\<lambda>x. (y * dw + x) * 4 + 3) [0..<dw]) ys)) out out'"
  using assms(7,8)
proof (induction ys arbitrary: out)
  case (Cons y ys)
  obtain sy0 sy1 fy where sm: "sample (y_scale b) (src_max_y b) (src_h b) y = (sy0, sy1, fy)" by (metis prod_cases3)
  then have "sy0 < sh" "sy1 < sh" using sample_inside [of sh "y_scale b" y sy0 sy1 fy] assms(1,5,6) by (simp_all add: blit_new_def)
  then obtain o1 where o1: "(bilinear_row b (y * dst_stride b) (sy0, sy1, fy) [0..<dw] out :: (bytes, 'e) outcome) = Ok o1"
      "opaque (map (\<lambda>x. (y * dw + x) * 4 + 3) [0..<dw]) out o1"
    using bilinear_row_opaque [OF assms(1-4), of sy0 sy1 y out "[0..<dw]" fy] Cons.prems by (auto simp: lessThan_atLeast0)
  moreover from this obtain o2 where "(bilinear_rows b ys o1 :: (bytes, 'e) outcome) = Ok o2"
      "opaque (concat (map (\<lambda>y. map (\<lambda>x. (y * dw + x) * 4 + 3) [0..<dw]) ys)) o1 o2"
    using Cons.IH [of o1] Cons.prems by (auto simp: opaque_def)
  ultimately show ?case using sm opaque_trans by (fastforce simp: assms(1) blit_new_sel outcome_simps)
qed simp

text \<open>The source cell of a pixel, and what a blit leaves in the four cells of the pixel.\<close>

definition source_cell :: "decoded_image \<Rightarrow> u32 \<Rightarrow> u32 \<Rightarrow> nat \<Rightarrow> nat \<Rightarrow> nat" where
  "source_cell img win_w win_h y x =
     (y * unat (di_height img) div unat win_h * unat (di_width img) + x * unat (di_width img) div unat win_w) * 3"

lemma blit_copies:
  fixes img :: decoded_image
  defines "sw \<equiv> unat (di_width img)" and "sh \<equiv> unat (di_height img)"
  assumes "length (di_rgb img) = sw * sh * 3" "0 < sw" "0 < sh" "length out = unat win_w * unat win_h * 4" "y < unat win_h" "x < unat win_w" "c < 4"
  shows "blit_nearest (blit_new (di_rgb img) sw sh (unat win_w) (unat win_h)) out ! ((y * unat win_w + x) * 4 + c) =
    (if c = 3 then 0xFF else di_rgb img ! (source_cell img win_w win_h y x + c))"
proof -
  have "(y * unat win_w + x) * 4 + c < unat win_w * unat win_h * 4"
    using mult_le_mono1 [OF Suc_leI [OF block_room(1) [OF assms(7,8)]], of 4] assms(9) by simp
  from blit_nearest_cells(2) [OF assms(3,6) refl assms(4,5) this] show ?thesis
    unfolding source_cell_def nearest_cell_at [OF assms(8,9)] sw_def sh_def .
qed

text \<open>C20: The window shows the picture.  For a decoded picture of at most 2^24 pixels in each direction and a frame buffer of the size of the window, the blit does
  not panic in either mode, keeps the size of the buffer and makes every pixel opaque, so nothing of an older picture is left.  With
  nearest-neighbour scaling, and with bilinear scaling at the size of the picture, the pixel (x, y) of the window is the pixel
  (x * width / window width, y * height / window height) of the picture: rows of different widths do not shear.\<close>
theorem blit_exact:
  assumes "length (di_rgb img) = unat (di_width img) * unat (di_height img) * 3" "0 < di_width img" "0 < di_height img"
    "unat (di_width img) \<le> 2 ^ 24" "unat (di_height img) \<le> 2 ^ 24" "length buf = unat win_w * unat win_h * 4"
  shows "\<exists>out. (blit_rgb_to_frame buf img win_w win_h mode :: (bytes, 'e) outcome) = Ok out \<and> length out = length buf \<and>
    (\<forall>y < unat win_h. \<forall>x < unat win_w. out ! ((y * unat win_w + x) * 4 + 3) = 0xFF \<and>
       (mode = NearestNeighbor \<or> win_w = di_width img \<and> win_h = di_height img \<longrightarrow>
          (\<forall>c < 3. out ! ((y * unat win_w + x) * 4 + c) = di_rgb img ! (source_cell img win_w win_h y x + c))))"
proof -
  let ?b = "blit_new (di_rgb img) (unat (di_width img)) (unat (di_height img)) (unat win_w) (unat win_h)"
  let ?clear = "replicate (length buf) 0"
  have pos: "0 < unat (di_width img)" "0 < unat (di_height img)" using assms(2,3) by (simp_all add: unat_gt_0)
  have len: "length ?clear = unat win_w * unat win_h * 4" using assms(6) by simp
  have img: "di_rgb img \<noteq> []" using assms(1) pos by auto
  show ?thesis
  proof (cases "mode = NearestNeighbor \<or> win_w = di_width img \<and> win_h = di_height img")
    case True
    let ?out = "blit_nearest ?b ?clear"
    have "(blit_rgb_to_frame buf img win_w win_h mode :: (bytes, 'e) outcome) = Ok ?out"
      using assms(2,3) img True by (cases mode) (auto simp: blit_rgb_to_frame_def Let_def blit_bilinear_def blit_new_sel)
    moreover have "length ?out = length buf" using blit_nearest_cells(1) [OF assms(1) len refl pos] assms(6) by (rule trans [OF _ sym])
    moreover note cell = blit_copies [OF assms(1) pos len]
    ultimately show ?thesis by (intro exI [of _ ?out]) (simp add: cell)
  next
    case False
    obtain out where out: "(bilinear_rows ?b [0..<unat win_h] ?clear :: (bytes, 'e) outcome) = Ok out"
        "opaque (concat (map (\<lambda>y. map (\<lambda>x. (y * unat win_w + x) * 4 + 3) [0..<unat win_w]) [0..<unat win_h])) ?clear out"
      using bilinear_rows_opaque [OF refl assms(1) pos(1) assms(4) pos(2) assms(5) len, of "[0..<unat win_h]"] by (auto simp: lessThan_atLeast0)
    have "(blit_rgb_to_frame buf img win_w win_h mode :: (bytes, 'e) outcome) = Ok out"
      using assms(2,3) img False [unfolded word_unat_eq_iff] out(1) by (cases mode) (auto simp: blit_rgb_to_frame_def Let_def blit_bilinear_def blit_new_sel)
    moreover have "length out = length buf" using out(2) by (simp add: opaque_def)
    ultimately show ?thesis using False opaque_cell [OF out(2) _ _ len] by blast
  qed
qed

definition demo_image :: decoded_image where
  "demo_image = \<lparr>di_width = 1, di_height = 1, di_rgb = [1, 2, 3]\<rparr>"

theorem blit_exact_witness:
  "\<exists>out. (blit_rgb_to_frame (replicate 8 7) demo_image 2 1 NearestNeighbor :: (bytes, unit) outcome) = Ok out \<and> length out = 8 \<and> out ! 5 = 2 \<and> out ! 7 = 0xFF"
proof -
  have h: "length (di_rgb demo_image) = unat (di_width demo_image) * unat (di_height demo_image) * 3" "0 < di_width demo_image" "0 < di_height demo_image"
    "unat (di_width demo_image) \<le> 2 ^ 24" "unat (di_height demo_image) \<le> 2 ^ 24" "length (replicate 8 (7 :: u8)) = unat (2 :: u32) * unat (1 :: u32) * 4"
    by (simp_all add: demo_image_def)
  from blit_exact [OF h, of NearestNeighbor, where 'e = unit] obtain out
    where out: "(blit_rgb_to_frame (replicate 8 7) demo_image 2 1 NearestNeighbor :: (bytes, unit) outcome) = Ok out" "length out = length (replicate 8 (7 :: u8))"
      and px: "\<forall>y < unat (1 :: u32). \<forall>x < unat (2 :: u32). out ! ((y * unat (2 :: u32) + x) * 4 + 3) = 0xFF \<and>
        (NearestNeighbor = NearestNeighbor \<or> 2 = di_width demo_image \<and> 1 = di_height demo_image \<longrightarrow>
          (\<forall>c < 3. out ! ((y * unat (2 :: u32) + x) * 4 + c) = di_rgb demo_image ! (source_cell demo_image 2 1 y x + c)))"
    by (elim exE conjE)
  have "out ! 5 = 2 \<and> out ! 7 = 0xFF"
    using px [rule_format, of 0 1, THEN conjunct1] px [rule_format, of 0 1, THEN conjunct2, rule_format, of 1] by (simp add: source_cell_def demo_image_def)
  then show ?thesis using out by simp
qed

end
