(* ===== verification/Spec2Isabelle.thy ===== *)
theory Spec2Isabelle
  imports BW_Channel BW_Reliability BW_Scheduler BW_Wire BW_Blocklist BW_RelayClient BW_PoolFaults BW_Input BW_Admission BW_Pinning BW_Clipboard BW_Display
begin

text \<open>
  \<^bold>\<open>Verification of the BLACKWING remote-desktop platform.\<close>

  BLACKWING (\<^verbatim>\<open>src/crates/\<close>) lets a client see and control the desktop of a server.  Both register with a relay, which introduces them
  to each other and forwards their packets.  Over the QUIC connection the client logs in with OPAQUE, both sides derive keys from the login
  and exchange encrypted frames.  Frames carry messages: video from the server, input from the client, clipboard and audio in both
  directions.  The theories follow this structure, with one group of definitions for each component, in the order of the code.

  \<^bold>\<open>Conventions.\<close>  Every function of the code is a function of HOL on explicit states.  Machine integers are words, with the wrap-around of
  a release build; lengths are natural numbers; byte strings are lists of \<^typ>\<open>8 word\<close>.  A fallible operation yields an \<open>outcome\<close>:
  \<open>Ok\<close>, \<open>Err\<close>, or \<open>Panic\<close> where the code panics.  An operation that changes state yields its outcome and the new state, on the error paths
  too; one that can wait for ever yields an option.  Code that is not part of the repository (AEAD and HKDF, signatures, OPAQUE, CBOR, QUIC streams, the
  operating system, OpenH264) is a parameter, a record of functions, with its documented contract as a named predicate.  Each theorem that
  assumes a contract is followed by a witness with a concrete instance of it.

  \<^bold>\<open>Frames and encryption.\<close>
  \<^item> \<^verbatim>\<open>BW_Prelude\<close>: outcomes, bytes and words, and the lemma collections \<open>wf_intros\<close>, \<open>inv_intros\<close>, \<open>outcome_simps\<close>.
  \<^item> \<^verbatim>\<open>BW_Codec\<close> (\<^verbatim>\<open>bw-protocol/src/{header,codec,frame,version,error}.rs\<close>): headers and frames.  Decoding succeeds exactly on the
    encodings of valid frames; it panics exactly on misaligned buffers.
  \<^item> \<^verbatim>\<open>BW_Crypto\<close> (\<^verbatim>\<open>bw-crypto/src/symmetric.rs\<close>), \<^verbatim>\<open>BW_Encryption\<close>, \<^verbatim>\<open>BW_Channel\<close> (\<^verbatim>\<open>bw-protocol/src/encryption.rs\<close>): nonces, replay
    window, key rotation.  The locale \<open>window_filter\<close> of \<^verbatim>\<open>BW_Window\<close> is the contract of a sliding bit window; the replay window and the duplicate filter
    of the reliable receiver are its two interpretations.  Every frame arrives unchanged across all rotations, no frame is delivered
    twice whatever an adversary sends, no nonce is used twice, forged frames cannot rotate keys, and forged frames can make genuine frames be refused.

  \<^bold>\<open>Transport and sessions.\<close>
  \<^item> \<^verbatim>\<open>BW_Reliability\<close> (\<^verbatim>\<open>reliability.rs\<close>): sender, receiver, acknowledgements and retransmission.  The receiver outputs a prefix of the
    stream whatever the network does; it outputs all of it when no frame is overtaken by 64 others.
  \<^item> \<^verbatim>\<open>BW_Scheduler\<close> (\<^verbatim>\<open>scheduler.rs\<close>): deficit round robin.  The loop of \<open>dequeue_next\<close> is a partial function, so that
    not returning is a value; it returns for every positive quantum, and never for a zero one.
  \<^item> \<^verbatim>\<open>BW_Message\<close> (\<^verbatim>\<open>message.rs\<close>, \<^verbatim>\<open>routing.rs\<close>, \<^verbatim>\<open>dispatcher.rs\<close>): typed messages, envelopes, dispatch.
  \<^item> \<^verbatim>\<open>BW_Session\<close> (\<^verbatim>\<open>session.rs\<close>, \<^verbatim>\<open>handshake.rs\<close>), \<^verbatim>\<open>BW_Fragment\<close>, \<^verbatim>\<open>BW_SecureConn\<close> (\<^verbatim>\<open>bw-session/src/{lifecycle,secure_conn}.rs\<close>,
    \<^verbatim>\<open>bw-transport/src/adapter.rs\<close>): the lifecycle, both handshakes, fragmentation and reassembly over a QUIC stream, which is a queue of bytes.
    The locale \<open>fragment_link\<close> is the interface of the fragmentation: an operation that emits a fragment and one that yields the next; it
    is interpreted for the secure connection and for the message session.  Both handshakes compose to a channel that is correct in both directions.
  \<^item> \<^verbatim>\<open>BW_Auth\<close> (\<^verbatim>\<open>bw-auth\<close>), \<^verbatim>\<open>BW_Wire\<close> (\<^verbatim>\<open>bw-session/src/wire.rs\<close>): OPAQUE login, enrollment store, and the establishment of a
    session by a login and a handshake, up to the exchange of arbitrary messages.
  \<^item> \<^verbatim>\<open>BW_Pinning\<close> (\<^verbatim>\<open>bw-transport/src/cert.rs\<close>): the verifier of pinned certificates, and why it does not prove possession of the key.

  \<^bold>\<open>The relay\<close> (\<^verbatim>\<open>bw-relay\<close>).
  \<^item> \<^verbatim>\<open>BW_Identity\<close> (\<^verbatim>\<open>bw-crypto/src/identity.rs\<close>): device identifiers and keys.
  \<^item> \<^verbatim>\<open>BW_Forwarding\<close>, \<^verbatim>\<open>BW_Blocklist\<close> (\<^verbatim>\<open>forwarding.rs\<close>): the forwarding table.  Rates are rationals with the rounding of \<open>f64\<close>.
  \<^item> \<^verbatim>\<open>BW_Rendezvous\<close> (\<^verbatim>\<open>rendezvous.rs\<close>, \<^verbatim>\<open>candidate.rs\<close>), \<^verbatim>\<open>BW_Relay\<close> (\<^verbatim>\<open>server.rs\<close>, \<^verbatim>\<open>protocol.rs\<close>, \<^verbatim>\<open>bin/relay.rs\<close>): the control
    protocol and the program around it.  A message reads the clock several times; the readings are the record \<open>relay_env\<close>.
  \<^item> \<^verbatim>\<open>BW_Consent\<close>, \<^verbatim>\<open>BW_RelayLive\<close>: over every sequence of datagrams candidates are handed out and packets are
    forwarded only with the signed consent of both devices; two devices that follow the protocol are connected; what leaks, and how the registry fills up.
  \<^item> \<^verbatim>\<open>BW_RelayClient\<close> (\<^verbatim>\<open>relay_client.rs\<close>, \<^verbatim>\<open>checker.rs\<close>, \<^verbatim>\<open>bw-server/src/rendezvous.rs\<close>, \<^verbatim>\<open>bw-transport/src/relay_socket.rs\<close>): the
    endpoints of the relay.  Composed with the relay program, two endpoints obtain the same token and the datagrams of one arrive at the other unchanged.

  \<^bold>\<open>The desktop.\<close>
  \<^item> \<^verbatim>\<open>BW_Video\<close> (\<^verbatim>\<open>bw-encoder/src/lib.rs\<close>, \<^verbatim>\<open>bw-capture/src/frame.rs\<close>, the cursor of \<^verbatim>\<open>bw-server/src/lib.rs\<close>), \<^verbatim>\<open>BW_Capture\<close>
    (\<^verbatim>\<open>bw-capture/src/thread.rs\<close>), \<^verbatim>\<open>BW_Encode\<close> (\<^verbatim>\<open>bw-encoder/src/{h264,pipeline}.rs\<close>): video from the capture thread to the encoded frame.
  \<^item> \<^verbatim>\<open>BW_Display\<close> (\<^verbatim>\<open>bw-decoder\<close>, the video threads of \<^verbatim>\<open>bw-server/src/main.rs\<close>, the receiver task and the blit of \<^verbatim>\<open>bw-client/src/main.rs\<close>): from the
    encoded frame to the pixels of the window.  The client decodes exactly the frames that were sent, and the blit copies pixels without shear.
    Interpolation computes with rationals rounded to 24 bits, like \<open>f32\<close>.
  \<^item> \<^verbatim>\<open>BW_Clipboard\<close> (\<^verbatim>\<open>bw-clipboard\<close>, the clipboard handlers of \<^verbatim>\<open>bw-server/src/lib.rs\<close>): what one side copies is what the other side can paste.
  \<^item> \<^verbatim>\<open>BW_Input\<close> (\<^verbatim>\<open>bw-input\<close>, handlers of \<^verbatim>\<open>bw-server/src/lib.rs\<close>, receive loop of \<^verbatim>\<open>bw-server/src/main.rs\<close>, events of
    \<^verbatim>\<open>bw-client/src/main.rs\<close>): input from the window of the client to the injection at the server.
  \<^item> \<^verbatim>\<open>BW_Admission\<close> (\<^verbatim>\<open>bw-server/src/main.rs\<close>): the limiter of login attempts and the permits of handshakes.

  \<^bold>\<open>Memory\<close> (\<^verbatim>\<open>bw-core\<close>).  \<^verbatim>\<open>BW_Pool\<close>, \<^verbatim>\<open>BW_PoolFaults\<close>: the lock-free pool as an interleaving of the atomic steps of any number of threads.  Exclusion
  holds in every interleaving in which fewer than 65536 changes of the head happen between the load and the exchange of a thread, and an interleaving
  beyond that bound breaks it.

  \<^bold>\<open>Bounds and fuel.\<close>  No definition has fuel.  Loops are structural recursions over what they consume, functions with a termination proof,
  or partial functions into options.  Histories (operations on a table, datagrams at the relay, steps of threads) are lists, and the theorems hold for all of them.

  \<^bold>\<open>Not modelled.\<close>  Threads of the runtime, sockets, windows, devices and command lines; the DXGI capture of \<^verbatim>\<open>bw-capture/src/windows\<close>; \<^verbatim>\<open>bw-audio\<close>,
  \<^verbatim>\<open>bw-ice\<close> and \<^verbatim>\<open>bw-net\<close>, which drive libraries for sound, ICE and sockets; the traits and mocks of
  \<^verbatim>\<open>bw-protocol/src/transport.rs\<close>; logging; the sources under \<^verbatim>\<open>src/archive\<close>, which are not part of the build.
\<close>

end
